(* ===== verification/Status_Model.thy ===== *)
theory Status_Model
  imports Prelude
begin

text \<open>
  The error values of the program: \<open>StatusCode\<close> and \<open>Status\<close> of
  \<open>include/storage/common/status.h\<close> and \<open>src/common/status.cpp\<close>, and the template
  \<open>StatusOr\<close> of \<open>include/storage/common/status_or.h\<close>. Both classes establish an invariant
  in their constructors (an OK status has no message; a \<open>StatusOr\<close> without a value has an
  error status), stated and proved here for every constructor.
\<close>

section \<open>Status\<close>

datatype StatusCode =
    kOk
  | kInvalidArgument
  | kNotFound
  | kAlreadyExists
  | kUnavailable
  | kTimeout
  | kIoError
  | kCorruption
  | kResourceExhausted
  | kInternal

record Status =
  st_code :: StatusCode
  st_message :: string

definition Status_default :: Status where
  "Status_default = \<lparr>st_code = kOk, st_message = []\<rparr>"

definition mk_Status :: "StatusCode \<Rightarrow> string \<Rightarrow> Status" where
  "mk_Status c msg = \<lparr>st_code = c, st_message = (if c = kOk then [] else msg)\<rparr>"

definition Status_Ok :: Status where
  "Status_Ok = Status_default"

definition status_ok :: "Status \<Rightarrow> bool" where
  "status_ok s \<longleftrightarrow> st_code s = kOk"

text \<open>The class invariant: an OK status carries no message.\<close>

definition status_inv :: "Status \<Rightarrow> bool" where
  "status_inv s \<longleftrightarrow> (st_code s = kOk \<longrightarrow> st_message s = [])"

lemma code_mk_Status [simp]: "st_code (mk_Status c m) = c"
  by (simp add: mk_Status_def)

lemma message_mk_Status [simp]: "c \<noteq> kOk \<Longrightarrow> st_message (mk_Status c m) = m"
  by (simp add: mk_Status_def)

lemma status_ok_Ok [simp]: "status_ok Status_Ok"
  by (simp add: status_ok_def Status_Ok_def Status_default_def)

lemma code_Status_Ok [simp]: "st_code Status_Ok = kOk"
  by (simp add: Status_Ok_def Status_default_def)

lemma status_ok_mk_Status [simp]: "status_ok (mk_Status c m) \<longleftrightarrow> c = kOk"
  by (simp add: status_ok_def)

lemma status_inv_Ok [simp]: "status_inv Status_Ok"
  by (simp add: status_inv_def Status_Ok_def Status_default_def)

lemma status_inv_mk_Status [simp]: "status_inv (mk_Status c m)"
  by (simp add: status_inv_def mk_Status_def)

text \<open>Under the invariant the OK status is a single value.\<close>

lemma status_inv_ok_unique: "status_inv s \<Longrightarrow> status_ok s \<Longrightarrow> s = Status_Ok"
  by (cases s) (simp add: status_inv_def status_ok_def Status_Ok_def Status_default_def)

lemma mk_Status_eq_Ok [simp]: "mk_Status c m = Status_Ok \<longleftrightarrow> c = kOk"
  by (auto simp: mk_Status_def Status_Ok_def Status_default_def)

lemma Ok_eq_mk_Status [simp]: "Status_Ok = mk_Status c m \<longleftrightarrow> c = kOk"
  by (auto simp: mk_Status_def Status_Ok_def Status_default_def)

section \<open>StatusOr\<close>

record 'a StatusOr =
  so_status :: Status
  so_opt :: "'a option"

definition NormalizeError :: "Status \<Rightarrow> Status" where
  "NormalizeError s =
     (if status_ok s
      then mk_Status kInternal ''StatusOr cannot be constructed from an OK status''
      else s)"

definition StatusOr_error :: "Status \<Rightarrow> 'a StatusOr" where
  "StatusOr_error s = \<lparr>so_status = NormalizeError s, so_opt = None\<rparr>"

definition StatusOr_value :: "'a \<Rightarrow> 'a StatusOr" where
  "StatusOr_value v = \<lparr>so_status = Status_Ok, so_opt = Some v\<rparr>"

definition so_ok :: "'a StatusOr \<Rightarrow> bool" where
  "so_ok r \<longleftrightarrow> so_opt r \<noteq> None"

text \<open>
  \<open>value()\<close> asserts \<open>ok()\<close>: a failed assertion (\<open>None\<close>) ends the process.
\<close>

definition so_value :: "'a StatusOr \<Rightarrow> 'a option" where
  "so_value r = (if so_ok r then so_opt r else None)"

definition statusor_inv :: "'a StatusOr \<Rightarrow> bool" where
  "statusor_inv r \<longleftrightarrow> (so_ok r \<longleftrightarrow> status_ok (so_status r)) \<and> (so_ok r \<longrightarrow> so_status r = Status_Ok)"

lemma StatusOr_value_simps [simp]:
  "so_status (StatusOr_value v) = Status_Ok" "so_opt (StatusOr_value v) = Some v"
  by (simp_all add: StatusOr_value_def)

lemma StatusOr_error_value [simp]: "so_opt (StatusOr_error s) = None"
  by (simp add: StatusOr_error_def)

lemma NormalizeError_not_ok [simp]: "\<not> status_ok (NormalizeError s)"
  by (simp add: NormalizeError_def)

lemma NormalizeError_id [simp]: "\<not> status_ok s \<Longrightarrow> NormalizeError s = s"
  by (simp add: NormalizeError_def)

lemma StatusOr_error_status: "\<not> status_ok s \<Longrightarrow> so_status (StatusOr_error s) = s"
  by (simp add: StatusOr_error_def)

lemma StatusOr_error_mk [simp]: "c \<noteq> kOk \<Longrightarrow> so_status (StatusOr_error (mk_Status c m)) = mk_Status c m"
  by (simp add: StatusOr_error_def)

lemma StatusOr_error_not_ok [simp]: "\<not> status_ok (so_status (StatusOr_error s))"
  by (simp add: StatusOr_error_def)

lemma statusor_inv_value [simp]: "statusor_inv (StatusOr_value v)"
  by (simp add: statusor_inv_def so_ok_def)

lemma statusor_inv_error [simp]: "statusor_inv (StatusOr_error s)"
  by (simp add: statusor_inv_def so_ok_def)

lemma StatusOr_value_neq_error [simp]:
  "StatusOr_value v \<noteq> StatusOr_error s" "StatusOr_error s \<noteq> StatusOr_value v"
  by (simp_all add: StatusOr_value_def StatusOr_error_def)

lemma StatusOr_value_inject [simp]: "StatusOr_value v = StatusOr_value w \<longleftrightarrow> v = w"
  by (simp add: StatusOr_value_def)

text \<open>
  Every \<open>StatusOr\<close> the program builds is one of the two forms; operations that return one are
  shown to respect this case distinction, which callers then split on.
\<close>

lemma statusor_inv_cases:
  assumes "statusor_inv r"
  obtains (Value) v where "r = StatusOr_value v"
  | (Error) s where "\<not> status_ok s" and "r = StatusOr_error s"
proof (cases "so_opt r")
  case None
  with assms have "\<not> status_ok (so_status r)"
    by (simp add: statusor_inv_def so_ok_def)
  moreover from None this have "r = StatusOr_error (so_status r)"
    by (cases r) (simp add: StatusOr_error_def)
  ultimately show thesis by (rule Error)
next
  case (Some v)
  with assms have "r = StatusOr_value v"
    by (cases r) (simp add: statusor_inv_def so_ok_def StatusOr_value_def)
  then show thesis by (rule Value)
qed

lemma statusor_inv_SomeD: "statusor_inv r \<Longrightarrow> so_opt r = Some v \<Longrightarrow> r = StatusOr_value v"
  by (erule statusor_inv_cases) auto

end
