(* ===== verification/Core_Types.thy ===== *)
theory Core_Types
  imports Status_Model
begin

text \<open>
  The value types of \<open>include/storage/storage/types\<close> and
  \<open>include/storage/storage/worker/data_plane_types.h\<close>: identifiers, life-cycle states, byte
  ranges, checksums and the data plane requests, with the two validators
  \<open>ValidateByteRange\<close> (\<open>src/storage/types/byte_range.cpp\<close>) and \<open>ValidateChecksum\<close>
  (\<open>src/storage/types/checksum.cpp\<close>).
\<close>

section \<open>Identifiers and states\<close>

record ObjectId =
  object_id_value :: string

record ChunkId =
  chunk_id_value :: string

record ReplicaId =
  replica_id_value :: string

record WorkerId =
  worker_id_value :: string

definition ObjectId_valid :: "ObjectId \<Rightarrow> bool" where
  "ObjectId_valid i \<longleftrightarrow> object_id_value i \<noteq> []"

definition ChunkId_valid :: "ChunkId \<Rightarrow> bool" where
  "ChunkId_valid i \<longleftrightarrow> chunk_id_value i \<noteq> []"

definition ReplicaId_valid :: "ReplicaId \<Rightarrow> bool" where
  "ReplicaId_valid i \<longleftrightarrow> replica_id_value i \<noteq> []"

definition WorkerId_valid :: "WorkerId \<Rightarrow> bool" where
  "WorkerId_valid i \<longleftrightarrow> worker_id_value i \<noteq> []"

text \<open>
  The comparison that the macro gives each identifier type by default: that of the strings,
  character by character as unsigned bytes, a proper prefix first.
\<close>

fun string_less :: "string \<Rightarrow> string \<Rightarrow> bool" where
  "string_less x [] \<longleftrightarrow> False"
| "string_less [] (b # y) \<longleftrightarrow> True"
| "string_less (a # x) (b # y) \<longleftrightarrow> of_char a < (of_char b :: nat) \<or> a = b \<and> string_less x y"

definition id_less :: "('i \<Rightarrow> string) \<Rightarrow> 'i \<Rightarrow> 'i \<Rightarrow> bool" where
  "id_less val i j \<longleftrightarrow> string_less (val i) (val j)"

definition id_less_eq :: "('i \<Rightarrow> string) \<Rightarrow> 'i \<Rightarrow> 'i \<Rightarrow> bool" where
  "id_less_eq val i j \<longleftrightarrow> \<not> string_less (val j) (val i)"

lemma string_less_irrefl: "\<not> string_less x x"
  by (induction x) simp_all

lemma string_less_trans: "string_less x y \<Longrightarrow> string_less y z \<Longrightarrow> string_less x z"
proof (induction x y arbitrary: z rule: string_less.induct)
  case (2 b y)
  then show ?case by (cases z) simp_all
next
  case (3 a x b y)
  then show ?case by (cases z) auto
qed simp

lemma string_less_total: "string_less x y \<or> x = y \<or> string_less y x"
proof (induction x y rule: string_less.induct)
  case (1 x)
  then show ?case by (cases x) simp_all
next
  case (3 a x b y)
  then show ?case
    using linorder_less_linear [of "of_char a :: nat" "of_char b"] by auto
qed simp

text \<open>
  An identifier type is a string in a wrapper that nothing else distinguishes; its comparison is
  then a linear order, so that identifiers can be keys of an ordered container.
\<close>

locale id_type =
  fixes val :: "'i \<Rightarrow> string"
  assumes val_inj: "val i = val j \<Longrightarrow> i = j"

sublocale id_type \<subseteq> linorder "id_less_eq val" "id_less val"
proof
  fix i j k
  show "id_less val i j \<longleftrightarrow> id_less_eq val i j \<and> \<not> id_less_eq val j i"
    using string_less_trans [of "val i" "val j" "val i"] string_less_irrefl [of "val i"]
    by (auto simp: id_less_def id_less_eq_def)
  show "id_less_eq val i i"
    by (simp add: id_less_eq_def string_less_irrefl)
  show "id_less_eq val i j \<Longrightarrow> id_less_eq val j k \<Longrightarrow> id_less_eq val i k"
    using string_less_trans [of "val k" "val i" "val j"] string_less_total [of "val i" "val j"]
    by (auto simp: id_less_eq_def)
  show "id_less_eq val i j \<Longrightarrow> id_less_eq val j i \<Longrightarrow> i = j"
    using string_less_total [of "val i" "val j"] val_inj [of i j] by (auto simp: id_less_eq_def)
  show "id_less_eq val i j \<or> id_less_eq val j i"
    using string_less_trans [of "val i" "val j" "val i"] string_less_irrefl [of "val i"]
    by (auto simp: id_less_eq_def)
qed

interpretation object_ids: id_type "object_id_value :: ObjectId \<Rightarrow> string"
  by unfold_locales (rule ObjectId.equality; simp)

interpretation chunk_ids: id_type "chunk_id_value :: ChunkId \<Rightarrow> string"
  by unfold_locales (rule ChunkId.equality; simp)

interpretation replica_ids: id_type "replica_id_value :: ReplicaId \<Rightarrow> string"
  by unfold_locales (rule ReplicaId.equality; simp)

interpretation worker_ids: id_type "worker_id_value :: WorkerId \<Rightarrow> string"
  by unfold_locales (rule WorkerId.equality; simp)

text \<open>The enumerations of \<open>states.h\<close>; those of replicas carry the name of their type.\<close>

datatype ObjectState = kAllocating | kWriting | kReady | kFailed | kDeleting

datatype ReplicaState =
  ReplicaState_kAllocating | ReplicaState_kWriting | ReplicaState_kReady | ReplicaState_kFailed | ReplicaState_kDeleting

datatype WorkerState = kHealthy | kSuspect | kDead

section \<open>Byte ranges\<close>

record ByteRange =
  range_offset :: u64
  range_size :: u64

definition ValidateByteRange :: "ByteRange \<Rightarrow> u64 \<Rightarrow> Status" where
  "ValidateByteRange r total_size =
     (if range_offset r > total_size
      then mk_Status kInvalidArgument ''byte range offset exceeds object size''
      else if range_size r > total_size - range_offset r
      then mk_Status kInvalidArgument ''byte range size exceeds object boundary''
      else Status_Ok)"

text \<open>
  The subtraction never wraps, so the test agrees with the unbounded sum, which the sum in
  64 bits would not.
\<close>

lemma ValidateByteRange_ok_iff:
  "status_ok (ValidateByteRange r n) \<longleftrightarrow>
     unat (range_offset r) + unat (range_size r) \<le> unat n"
proof (cases "range_offset r > n")
  case True
  then show ?thesis by (simp add: ValidateByteRange_def word_less_nat_alt)
next
  case False
  then have "unat (n - range_offset r) = unat n - unat (range_offset r)"
    by (simp add: unat_sub)
  with False show ?thesis
    by (auto simp: ValidateByteRange_def word_less_nat_alt)
qed

lemma ValidateByteRange_cases:
  "ValidateByteRange r n = Status_Ok \<or> st_code (ValidateByteRange r n) = kInvalidArgument"
  by (simp add: ValidateByteRange_def)

section \<open>Checksums\<close>

datatype ChecksumAlgorithm = kBlake3

record Checksum =
  algorithm :: ChecksumAlgorithm
  checksum_value :: string

definition kBlake3HexLength :: nat where
  "kBlake3HexLength = 64"

text \<open>\<open>std::isdigit\<close> in the default locale, and the range test on the letters.\<close>

definition is_lower_hex :: "char \<Rightarrow> bool" where
  "is_lower_hex c \<longleftrightarrow> is_digit c \<or> (of_char c \<ge> (97::nat) \<and> of_char c \<le> (102::nat))"

definition ValidateChecksum :: "Checksum \<Rightarrow> Status" where
  "ValidateChecksum c =
     (if algorithm c \<noteq> kBlake3
      then mk_Status kInvalidArgument ''unsupported checksum algorithm''
      else if length (checksum_value c) \<noteq> kBlake3HexLength
      then mk_Status kInvalidArgument ''BLAKE3 checksum must be 64 lowercase hex characters''
      else if \<not> list_all is_lower_hex (checksum_value c)
      then mk_Status kInvalidArgument ''BLAKE3 checksum contains invalid characters''
      else Status_Ok)"

lemma ValidateChecksum_ok_iff:
  "status_ok (ValidateChecksum c) \<longleftrightarrow>
     length (checksum_value c) = 64 \<and> (\<forall>x \<in> set (checksum_value c). is_lower_hex x)"
  by (cases "algorithm c") (auto simp: ValidateChecksum_def kBlake3HexLength_def list_all_iff)

lemma ValidateChecksum_cases:
  "ValidateChecksum c = Status_Ok \<or> st_code (ValidateChecksum c) = kInvalidArgument"
  by (simp add: ValidateChecksum_def)

section \<open>Lower-case hexadecimal\<close>

text \<open>
  The table \<open>kHex\<close> and the two-digit rendering of a byte, which the sources write out three
  times: for chunk file names (\<open>PathFor\<close>), for digests in the store (\<open>FinalizeHex\<close>) and in
  the client (\<open>HashFile\<close>).
\<close>

definition kHex :: string where
  "kHex = ''0123456789abcdef''"

definition hex_byte :: "byte \<Rightarrow> string" where
  "hex_byte b = [kHex ! unat (drop_bit 4 b), kHex ! unat (b AND 0x0f)]"

definition hex_bytes :: "byte list \<Rightarrow> string" where
  "hex_bytes bs = concat (map hex_byte bs)"

section \<open>Data plane requests and responses\<close>

record WorkerEndpoint =
  host :: string
  control_port :: u16
  data_port :: u16

record PutChunkRequest =
  put_chunk_id :: ChunkId
  expected_size :: u64
  expected_checksum :: Checksum

record GetChunkRequest =
  get_chunk_id :: ChunkId
  get_range :: ByteRange

record DeleteChunkRequest =
  delete_chunk_id :: ChunkId

record HeadChunkRequest =
  head_chunk_id :: ChunkId

record HeadChunkResponse =
  resp_chunk_id :: ChunkId
  resp_size :: u64
  resp_checksum :: Checksum

section \<open>Facts on the hexadecimal rendering\<close>

lemma hi_nibble: "unat (drop_bit 4 (b::byte)) = unat b div 16"
  by (simp add: drop_bit_eq_div unat_div)

lemma lo_nibble: "unat ((b::byte) AND 0x0f) = unat b mod 16"
proof -
  have "b AND mask 4 = take_bit 4 b"
    by (simp only: take_bit_eq_mask)
  then have "b AND 0x0f = take_bit 4 b"
    by (simp add: mask_eq_exp_minus_1)
  then show ?thesis
    by (simp add: take_bit_eq_mod unat_mod)
qed

lemma nibble_bounds:
  "unat (drop_bit 4 (b::byte)) < 16" "unat ((b::byte) AND 0x0f) < 16"
proof -
  show "unat (drop_bit 4 b) < 16"
    using unat_byte_less [of b] unfolding hi_nibble by linarith
  show "unat (b AND 0x0f) < 16"
    unfolding lo_nibble by simp
qed

lemma length_kHex: "length kHex = 16"
  by (simp add: kHex_def)

lemma kHex_nth_inj: "i < 16 \<Longrightarrow> j < 16 \<Longrightarrow> kHex ! i = kHex ! j \<Longrightarrow> i = j"
proof -
  have "distinct kHex" by (simp add: kHex_def)
  then show "i < 16 \<Longrightarrow> j < 16 \<Longrightarrow> kHex ! i = kHex ! j \<Longrightarrow> i = j"
    by (simp add: nth_eq_iff_index_eq length_kHex)
qed

lemma kHex_lower_hex: "i < 16 \<Longrightarrow> is_lower_hex (kHex ! i)"
proof -
  have "\<forall>c \<in> set kHex. is_lower_hex c"
    by (simp add: kHex_def is_lower_hex_def is_digit_def)
  then show "i < 16 \<Longrightarrow> is_lower_hex (kHex ! i)"
    by (simp add: length_kHex)
qed

lemma hex_byte_inj:
  assumes "hex_byte a = hex_byte b"
  shows "a = b"
proof -
  have "unat a div 16 = unat b div 16" and "unat a mod 16 = unat b mod 16"
    using assms kHex_nth_inj [OF nibble_bounds(1) nibble_bounds(1), of a b]
      kHex_nth_inj [OF nibble_bounds(2) nibble_bounds(2), of a b]
    by (simp_all add: hex_byte_def hi_nibble lo_nibble)
  then have "unat a = unat b" by (metis div_mult_mod_eq)
  then show ?thesis by (simp only: word_unat_eq_iff)
qed

lemma length_hex_byte [simp]: "length (hex_byte b) = 2"
  by (simp add: hex_byte_def)

lemma hex_bytes_simps [simp]:
  "hex_bytes [] = []" "hex_bytes (b # bs) = hex_byte b @ hex_bytes bs"
  by (simp_all add: hex_bytes_def)

lemma length_hex_bytes [simp]: "length (hex_bytes bs) = 2 * length bs"
  by (induction bs) simp_all

lemma hex_bytes_inj: "hex_bytes as = hex_bytes bs \<Longrightarrow> as = bs"
proof (induction as arbitrary: bs)
  case Nil
  then show ?case by (cases bs) (auto simp: hex_byte_def)
next
  case (Cons a as)
  then obtain b bs' where bs: "bs = b # bs'"
    by (cases bs) (auto simp: hex_byte_def)
  with Cons.prems have "hex_byte a = hex_byte b" and "hex_bytes as = hex_bytes bs'"
    by simp_all
  with Cons.IH bs show ?case by (simp add: hex_byte_inj)
qed

lemma hex_bytes_lower_hex: "\<forall>c \<in> set (hex_bytes bs). is_lower_hex c"
  by (induction bs) (auto simp: hex_byte_def kHex_lower_hex nibble_bounds)

lemma is_lower_hex_iff: "is_lower_hex c \<longleftrightarrow> c \<in> set ''0123456789abcdef''"
proof
  assume h: "is_lower_hex c"
  define n :: nat where "n = of_char c"
  have "48 \<le> n \<and> n \<le> 57 \<or> 97 \<le> n \<and> n \<le> 102" using h by (simp add: is_lower_hex_def is_digit_def n_def)
  then have "n \<in> {48, 49, 50, 51, 52, 53, 54, 55, 56, 57, 97, 98, 99, 100, 101, 102}"
    unfolding insert_iff empty_iff by presburger
  moreover have "c = char_of n" by (simp add: n_def)
  ultimately show "c \<in> set ''0123456789abcdef''" by (elim insertE emptyE) (simp_all add: char_of_def bit_0)
qed (auto simp: is_lower_hex_def is_digit_def)

text \<open>A digest of 32 bytes renders as a checksum that \<open>ValidateChecksum\<close> accepts.\<close>

lemma ValidateChecksum_hex:
  "length d = 32 \<Longrightarrow> ValidateChecksum \<lparr>algorithm = kBlake3, checksum_value = hex_bytes d\<rparr> = Status_Ok"
  using hex_bytes_lower_hex [of d]
  by (simp add: ValidateChecksum_def kBlake3HexLength_def list_all_iff)

end
