(* ===== verification/Posix.thy ===== *)
theory Posix
  imports Prelude
begin

text \<open>
  The operating system under the program: a file system with names, inodes and hard links, a
  table of open descriptors, \<open>errno\<close>, and the system calls the sources make (\<open>open\<close>,
  \<open>close\<close>, \<open>read\<close>, \<open>pread\<close>, \<open>write\<close>, \<open>fstat\<close>, \<open>fdatasync\<close>, \<open>fsync\<close>, \<open>link\<close>,
  \<open>unlink\<close>), with the parts of \<open>std::filesystem\<close> they use (paths, \<open>create_directories\<close>,
  \<open>exists\<close>).

  What the kernel may do beyond the ideal behaviour is a schedule of outcomes that the calls
  consume, one each: \<open>Fail e\<close> makes a call fail with \<open>errno = e\<close> (an interruption is
  \<open>Fail EINTR\<close>), \<open>Short k\<close> makes a transfer stop after \<open>k\<close> bytes. Once the schedule is
  used up every call behaves ideally. A run of the program that ends consumes finitely many
  outcomes, so every such run is described by some schedule; theorems that hold for every
  schedule hold for every such run.

  Ghost components record what a crash may leave behind: every binding that a name has had since
  its directory was last forced to disk by \<open>fsync\<close>, the contents that \<open>fdatasync\<close> has forced to
  disk, and the trace of all file system
  states, newest first, so that a property can speak of every moment at which the machine may
  stop. Names are resolved as whole strings; directories as objects, permissions and symbolic
  links appear only as failures of the calls that meet them.
\<close>

section \<open>Paths\<close>

type_synonym path = string
type_synonym inode = nat

text \<open>\<open>path::filename\<close>, \<open>operator/\<close> and \<open>path::parent_path\<close> of \<open>std::filesystem\<close> on POSIX.\<close>

definition slash :: char where
  "slash = CHR 0x2F"

definition path_filename :: "path \<Rightarrow> string" where
  "path_filename p = rev (takeWhile (\<lambda>c. c \<noteq> slash) (rev p))"

definition path_append :: "path \<Rightarrow> path \<Rightarrow> path" where
  "path_append p q =
     (if q \<noteq> [] \<and> hd q = slash then q
      else if p = [] \<or> last p = slash then p @ q
      else p @ [slash] @ q)"

definition path_parent :: "path \<Rightarrow> path" where
  "path_parent p =
     (if dropWhile (\<lambda>c. c = slash) p = [] then p
      else let q = rev (dropWhile (\<lambda>c. c \<noteq> slash) (rev p));
               r = rev (dropWhile (\<lambda>c. c = slash) (rev q))
           in if r = [] then q else r)"

text \<open>The entry \<open>p\<close> lies directly in the directory \<open>r\<close>.\<close>

definition in_dir :: "path \<Rightarrow> path \<Rightarrow> bool" where
  "in_dir r p \<longleftrightarrow> path_filename p \<noteq> [] \<and> p = path_append r (path_filename p)"

lemma path_filename_append:
  assumes "slash \<notin> set n"
  shows "path_filename (path_append r n) = n"
proof -
  have *: "takeWhile (\<lambda>c. c \<noteq> slash) (rev n @ xs) = rev n @ takeWhile (\<lambda>c. c \<noteq> slash) xs" for xs
    using assms by (subst takeWhile_append2) auto
  have "n = [] \<or> hd n \<noteq> slash" using assms by (cases n) auto
  moreover have "r = [] \<or> last r = slash \<Longrightarrow> takeWhile (\<lambda>c. c \<noteq> slash) (rev r) = []"
    by (cases r rule: rev_cases) auto
  moreover have "takeWhile (\<lambda>c. c \<noteq> slash) (rev n) = rev n"
    using * [of "[]"] by simp
  ultimately show ?thesis
    by (auto simp: path_filename_def path_append_def *)
qed

lemma in_dir_append: "slash \<notin> set n \<Longrightarrow> n \<noteq> [] \<Longrightarrow> in_dir r (path_append r n)"
  by (simp add: in_dir_def path_filename_append)

lemma path_append_inj:
  assumes "slash \<notin> set n" and "slash \<notin> set m" and "path_append r n = path_append r m"
  shows "n = m"
  using assms path_filename_append by metis

section \<open>State\<close>

datatype errno = EINTR | EEXIST | ENOENT | ENOTDIR | ENAMETOOLONG | EBADF | EFBIG | Errno nat

datatype outcome = Normal | Fail errno | Short nat

record fs =
  fs_dir :: "path \<Rightarrow> inode option"
  fs_data :: "inode \<Rightarrow> byte list"
  fs_dirs :: "path set"
  fs_next :: inode
  fs_had :: "path \<Rightarrow> inode option set"
  dur_data :: "inode \<Rightarrow> byte list"

datatype ofile = OFile inode nat | ODir path

record os =
  fsys :: fs
  fds :: "(int \<times> ofile) list"
  os_errno :: errno
  sched :: "outcome list"
  trace :: "fs list"

text \<open>The longest file name component of the worker's file system (ext4), in bytes.\<close>

definition NAME_MAX :: nat where
  "NAME_MAX = 255"

definition name_too_long :: "path \<Rightarrow> bool" where
  "name_too_long p \<longleftrightarrow> length (path_filename p) > NAME_MAX"

definition set_fs :: "fs \<Rightarrow> os \<Rightarrow> os" where
  "set_fs f s = s\<lparr>fsys := f, trace := f # trace s\<rparr>"

definition next_outcome :: "os \<Rightarrow> outcome \<times> os" where
  "next_outcome s = (case sched s of [] \<Rightarrow> (Normal, s) | x # xs \<Rightarrow> (x, s\<lparr>sched := xs\<rparr>))"

definition sys_fail :: "errno \<Rightarrow> os \<Rightarrow> int \<times> os" where
  "sys_fail e s = (-1, s\<lparr>os_errno := e\<rparr>)"

section \<open>Descriptors\<close>

text \<open>\<open>open\<close> returns the lowest descriptor not in use.\<close>

definition lowest_fd :: "(int \<times> ofile) list \<Rightarrow> int" where
  "lowest_fd t = hd (filter (\<lambda>k. k \<notin> fst ` set t) (map int [0..<Suc (length t)]))"

definition fd_set :: "int \<Rightarrow> ofile \<Rightarrow> (int \<times> ofile) list \<Rightarrow> (int \<times> ofile) list" where
  "fd_set fd f t = map (\<lambda>(k, g). if k = fd then (k, f) else (k, g)) t"

definition fd_remove :: "int \<Rightarrow> (int \<times> ofile) list \<Rightarrow> (int \<times> ofile) list" where
  "fd_remove fd t = filter (\<lambda>(k, g). k \<noteq> fd) t"

definition fd_alloc :: "ofile \<Rightarrow> os \<Rightarrow> int \<times> os" where
  "fd_alloc f s = (let k = lowest_fd (fds s) in (k, s\<lparr>fds := (k, f) # fds s\<rparr>))"

section \<open>System calls\<close>

text \<open>A name gets a new binding, or none; and a new empty file under a name.\<close>

definition rebind :: "path \<Rightarrow> inode option \<Rightarrow> fs \<Rightarrow> fs" where
  "rebind p b f =
     f\<lparr>fs_dir := (fs_dir f)(p := b), fs_had := (fs_had f)(p := {fs_dir f p, b} \<union> fs_had f p)\<rparr>"

definition new_file :: "path \<Rightarrow> fs \<Rightarrow> fs" where
  "new_file p f =
     (let i = fs_next f
      in (rebind p (Some i) f)\<lparr>fs_data := (fs_data f)(i := []), dur_data := (dur_data f)(i := []), fs_next := Suc i\<rparr>)"

lemma rebind_simps [simp]:
  "fs_dir (rebind p b f) = (fs_dir f)(p := b)" "fs_data (rebind p b f) = fs_data f" "fs_dirs (rebind p b f) = fs_dirs f"
  "fs_next (rebind p b f) = fs_next f" "dur_data (rebind p b f) = dur_data f"
  "fs_had (rebind p b f) = (fs_had f)(p := {fs_dir f p, b} \<union> fs_had f p)"
  by (simp_all add: rebind_def)

lemma new_file_simps [simp]:
  "fs_dir (new_file p f) = (fs_dir f)(p \<mapsto> fs_next f)" "fs_data (new_file p f) = (fs_data f)(fs_next f := [])"
  "fs_dirs (new_file p f) = fs_dirs f" "fs_next (new_file p f) = Suc (fs_next f)"
  "dur_data (new_file p f) = (dur_data f)(fs_next f := [])"
  "fs_had (new_file p f) = (fs_had f)(p := {fs_dir f p, Some (fs_next f)} \<union> fs_had f p)"
  by (simp_all add: new_file_def Let_def)

text \<open>\<open>open(p, O_WRONLY | O_CREAT | O_EXCL | O_CLOEXEC, 0600)\<close>: creates an empty file.\<close>

definition sys_open_excl :: "path \<Rightarrow> os \<Rightarrow> int \<times> os" where
  "sys_open_excl p s =
     (case next_outcome s of
        (Fail e, s) \<Rightarrow> sys_fail e s
      | (_, s) \<Rightarrow>
          if name_too_long p then sys_fail ENAMETOOLONG s
          else if fs_dir (fsys s) p \<noteq> None then sys_fail EEXIST s
          else fd_alloc (OFile (fs_next (fsys s)) 0) (set_fs (new_file p (fsys s)) s))"

text \<open>\<open>open(p, O_RDONLY | O_CLOEXEC)\<close>, with or without \<open>O_NOFOLLOW\<close>.\<close>

definition sys_open_rd :: "path \<Rightarrow> os \<Rightarrow> int \<times> os" where
  "sys_open_rd p s =
     (case next_outcome s of
        (Fail e, s) \<Rightarrow> sys_fail e s
      | (_, s) \<Rightarrow>
          if name_too_long p then sys_fail ENAMETOOLONG s
          else (case fs_dir (fsys s) p of
                  None \<Rightarrow> sys_fail ENOENT s
                | Some i \<Rightarrow> fd_alloc (OFile i 0) s))"

text \<open>\<open>open(p, O_RDONLY | O_DIRECTORY | O_CLOEXEC)\<close>.\<close>

definition sys_open_dir :: "path \<Rightarrow> os \<Rightarrow> int \<times> os" where
  "sys_open_dir p s =
     (case next_outcome s of
        (Fail e, s) \<Rightarrow> sys_fail e s
      | (_, s) \<Rightarrow> if p \<in> fs_dirs (fsys s) then fd_alloc (ODir p) s else sys_fail ENOENT s)"

definition sys_close :: "int \<Rightarrow> os \<Rightarrow> os" where
  "sys_close fd s = s\<lparr>fds := fd_remove fd (fds s)\<rparr>"

text \<open>
  \<open>write\<close> on a descriptor opened by \<open>sys_open_excl\<close> or on any regular file: the bytes go to
  the current position, which moves on.
\<close>

definition write_at :: "nat \<Rightarrow> byte list \<Rightarrow> byte list \<Rightarrow> byte list" where
  "write_at pos bs d = take pos d @ bs @ drop (pos + length bs) d"

definition do_write :: "int \<Rightarrow> inode \<Rightarrow> nat \<Rightarrow> byte list \<Rightarrow> os \<Rightarrow> int \<times> os" where
  "do_write fd i pos bs s =
     (let f = fsys s;
          s' = set_fs (f\<lparr>fs_data := (fs_data f)(i := write_at pos bs (fs_data f i))\<rparr>) s
      in (int (length bs), s'\<lparr>fds := fd_set fd (OFile i (pos + length bs)) (fds s')\<rparr>))"

text \<open>No file grows beyond what an \<open>off_t\<close> can address: such a write fails with \<open>EFBIG\<close>.\<close>

definition off_limit :: nat where
  "off_limit = 2 ^ 63"

definition sys_write :: "int \<Rightarrow> byte list \<Rightarrow> os \<Rightarrow> int \<times> os" where
  "sys_write fd bs s =
     (case next_outcome s of
        (Fail e, s) \<Rightarrow> sys_fail e s
      | (x, s) \<Rightarrow>
          (case map_of (fds s) fd of
            Some (OFile i pos) \<Rightarrow>
              let data = (case x of Short k \<Rightarrow> take k bs | _ \<Rightarrow> bs)
              in if off_limit \<le> pos + length data then sys_fail EFBIG s else do_write fd i pos data s
          | _ \<Rightarrow> sys_fail EBADF s))"

text \<open>
  A transfer from a regular file returns no bytes only at its end (or when none are asked
  for); a short one returns at least one.
\<close>

definition cut :: "outcome \<Rightarrow> byte list \<Rightarrow> byte list" where
  "cut x bs = (case x of Short k \<Rightarrow> take (max 1 k) bs | _ \<Rightarrow> bs)"

text \<open>\<open>bs\<close> is such a transfer out of the \<open>avail\<close> bytes that could be had.\<close>

definition front_of :: "byte list \<Rightarrow> byte list \<Rightarrow> bool" where
  "front_of bs avail \<longleftrightarrow> (\<exists>rest. avail = bs @ rest) \<and> (bs = [] \<longrightarrow> avail = [])"

lemma front_of_cut: "front_of (cut x bs) bs"
proof (cases x)
  case (Short k)
  then have "cut x bs @ drop (max 1 k) bs = bs" by (simp add: cut_def)
  moreover have "cut x bs = [] \<longrightarrow> bs = []" using Short by (simp add: cut_def)
  ultimately show ?thesis unfolding front_of_def by metis
qed (simp_all add: cut_def front_of_def)

lemma front_of_length: "front_of bs avail \<Longrightarrow> length bs \<le> length avail"
  by (auto simp: front_of_def)

definition sys_pread :: "int \<Rightarrow> nat \<Rightarrow> nat \<Rightarrow> os \<Rightarrow> (int \<times> byte list) \<times> os" where
  "sys_pread fd n off s =
     (case next_outcome s of
        (Fail e, s) \<Rightarrow> ((-1, []), s\<lparr>os_errno := e\<rparr>)
      | (x, s) \<Rightarrow>
          (case map_of (fds s) fd of
            Some (OFile i pos) \<Rightarrow>
              let bs = cut x (take n (drop off (fs_data (fsys s) i)))
              in ((int (length bs), bs), s)
          | _ \<Rightarrow> ((-1, []), s\<lparr>os_errno := EBADF\<rparr>)))"

definition sys_read :: "int \<Rightarrow> nat \<Rightarrow> os \<Rightarrow> (int \<times> byte list) \<times> os" where
  "sys_read fd n s =
     (case next_outcome s of
        (Fail e, s) \<Rightarrow> ((-1, []), s\<lparr>os_errno := e\<rparr>)
      | (x, s) \<Rightarrow>
          (case map_of (fds s) fd of
            Some (OFile i pos) \<Rightarrow>
              let bs = cut x (take n (drop pos (fs_data (fsys s) i)))
              in ((int (length bs), bs),
                  s\<lparr>fds := fd_set fd (OFile i (pos + length bs)) (fds s)\<rparr>)
          | _ \<Rightarrow> ((-1, []), s\<lparr>os_errno := EBADF\<rparr>)))"

text \<open>\<open>fstat\<close>: the result and \<open>st_size\<close>.\<close>

definition sys_fstat :: "int \<Rightarrow> os \<Rightarrow> (int \<times> int) \<times> os" where
  "sys_fstat fd s =
     (case next_outcome s of
        (Fail e, s) \<Rightarrow> ((-1, 0), s\<lparr>os_errno := e\<rparr>)
      | (_, s) \<Rightarrow>
          (case map_of (fds s) fd of
            Some (OFile i pos) \<Rightarrow> ((0, int (length (fs_data (fsys s) i))), s)
          | _ \<Rightarrow> ((-1, 0), s\<lparr>os_errno := EBADF\<rparr>)))"

definition sys_fdatasync :: "int \<Rightarrow> os \<Rightarrow> int \<times> os" where
  "sys_fdatasync fd s =
     (case next_outcome s of
        (Fail e, s) \<Rightarrow> sys_fail e s
      | (_, s) \<Rightarrow>
          (case map_of (fds s) fd of
            Some (OFile i pos) \<Rightarrow>
              let f = fsys s
              in (0, set_fs (f\<lparr>dur_data := (dur_data f)(i := fs_data f i)\<rparr>) s)
          | _ \<Rightarrow> sys_fail EBADF s))"

text \<open>
  \<open>fsync\<close> on a directory forces its entries to disk. That the directory itself is on disk afterwards,
  even if it was created a moment ago and its parent never synchronised, is what ext4 does, the file
  system of the deployment; POSIX leaves it open.
\<close>

definition sys_fsync_dir :: "int \<Rightarrow> os \<Rightarrow> int \<times> os" where
  "sys_fsync_dir fd s =
     (case next_outcome s of
        (Fail e, s) \<Rightarrow> sys_fail e s
      | (_, s) \<Rightarrow>
          (case map_of (fds s) fd of
            Some (ODir r) \<Rightarrow>
              let f = fsys s
              in (0, set_fs (f\<lparr>fs_had := (\<lambda>p. if in_dir r p then {} else fs_had f p)\<rparr>) s)
          | _ \<Rightarrow> sys_fail EBADF s))"

definition sys_link :: "path \<Rightarrow> path \<Rightarrow> os \<Rightarrow> int \<times> os" where
  "sys_link old new s =
     (case next_outcome s of
        (Fail e, s) \<Rightarrow> sys_fail e s
      | (_, s) \<Rightarrow>
          if name_too_long old \<or> name_too_long new then sys_fail ENAMETOOLONG s
          else let f = fsys s in
            (case fs_dir f old of
               None \<Rightarrow> sys_fail ENOENT s
             | Some i \<Rightarrow>
                 if fs_dir f new \<noteq> None then sys_fail EEXIST s
                 else (0, set_fs (rebind new (Some i) f) s)))"

definition sys_unlink :: "path \<Rightarrow> os \<Rightarrow> int \<times> os" where
  "sys_unlink p s =
     (case next_outcome s of
        (Fail e, s) \<Rightarrow> sys_fail e s
      | (_, s) \<Rightarrow>
          if name_too_long p then sys_fail ENAMETOOLONG s
          else let f = fsys s in
            if fs_dir f p = None then sys_fail ENOENT s
            else (0, set_fs (rebind p None f) s))"

text \<open>
  \<open>std::filesystem::create_directories(p, error)\<close>, one step with the error, if any, and
  \<open>std::filesystem::exists(p)\<close>: \<open>ENOENT\<close> and \<open>ENOTDIR\<close> mean that there is no such file, any other
  failure is an exception (\<open>Inl\<close>).
\<close>

definition create_directories :: "path \<Rightarrow> os \<Rightarrow> errno option \<times> os" where
  "create_directories p s =
     (case next_outcome s of
        (Fail e, s) \<Rightarrow> (Some e, s)
      | (_, s) \<Rightarrow> let f = fsys s in (None, set_fs (f\<lparr>fs_dirs := insert p (fs_dirs f)\<rparr>) s))"

definition path_exists :: "path \<Rightarrow> os \<Rightarrow> (errno + bool) \<times> os" where
  "path_exists p s =
     (case next_outcome s of
        (Fail e, s) \<Rightarrow> (if e = ENOENT \<or> e = ENOTDIR then Inr False else Inl e, s)
      | (_, s) \<Rightarrow>
          (if name_too_long p then Inl ENAMETOOLONG
           else Inr (fs_dir (fsys s) p \<noteq> None \<or> p \<in> fs_dirs (fsys s)), s))"

section \<open>Crashes\<close>

text \<open>
  After a crash each name, independently of the others, has the binding it had in the running
  system or any one it has had since its directory was last synchronised, and a file keeps its
  contents where they had been made durable; what a file with pending writes holds is not
  determined. A storage root that was created and not yet synchronised may be lost altogether: then
  each name in it is as it was before, unbound.
\<close>

definition crash :: "fs \<Rightarrow> fs \<Rightarrow> bool" where
  "crash f g \<longleftrightarrow>
     (\<forall>p. fs_dir g p = fs_dir f p \<or> fs_dir g p \<in> fs_had f p) \<and>
     (\<forall>i. fs_data f i = dur_data f i \<longrightarrow> fs_data g i = fs_data f i) \<and>
     fs_had g = (\<lambda>p. {}) \<and> dur_data g = fs_data g \<and> fs_next g = fs_next f"

section \<open>Facts on descriptors\<close>

lemma lowest_fd_exists: "\<exists>k \<in> set (map int [0..<Suc (length t)]). k \<notin> fst ` set (t :: (int \<times> ofile) list)"
proof (rule ccontr)
  assume "\<not> ?thesis"
  then have "set (map int [0..<Suc (length t)]) \<subseteq> set (map fst t)"
    by auto
  then have "card (set (map int [0..<Suc (length t)])) \<le> card (set (map fst t))"
    by (rule card_mono [rotated]) simp
  moreover have "card (set (map int [0..<Suc (length t)])) = Suc (length t)"
    by (subst distinct_card) (auto simp: distinct_map)
  moreover have "card (set (map fst t)) \<le> length t"
    using card_length [of "map fst t"] by simp
  ultimately show False by simp
qed

lemma lowest_fd_props: "lowest_fd t \<notin> fst ` set t \<and> 0 \<le> lowest_fd t"
proof -
  let ?xs = "filter (\<lambda>k. k \<notin> fst ` set t) (map int [0..<Suc (length t)])"
  have "?xs \<noteq> []" using lowest_fd_exists [of t] by (auto simp: filter_empty_conv)
  then have "lowest_fd t \<in> set ?xs" unfolding lowest_fd_def by (rule hd_in_set)
  then show ?thesis by (auto simp del: upt_Suc)
qed

lemma lowest_fd_fresh: "lowest_fd t \<notin> fst ` set t"
  and lowest_fd_nonneg [simp]: "0 \<le> lowest_fd t"
  using lowest_fd_props by blast+

lemma fd_remove_fresh: "fd \<notin> fst ` set t \<Longrightarrow> fd_remove fd t = t"
  by (induction t) (auto simp: fd_remove_def)

lemma fd_set_fresh: "fd \<notin> fst ` set t \<Longrightarrow> fd_set fd f t = t"
  by (induction t) (auto simp: fd_set_def)

lemma fd_table_keys: "fst ` set (fd_set fd x t) = fst ` set t" "fst ` set (fd_remove fd t) = fst ` set t - {fd}"
  by (force simp: fd_set_def fd_remove_def image_iff)+

lemma map_of_fd_set: "map_of (fd_set fd x t) k = (if k = fd \<and> fd \<in> fst ` set t then Some x else map_of t k)"
  by (induction t) (force simp: fd_set_def)+

lemma map_of_fd_remove: "map_of (fd_remove fd t) k = (if k = fd then None else map_of t k)"
  by (induction t) (auto simp: fd_remove_def)

lemma map_of_open: "map_of t fd = Some x \<Longrightarrow> fd \<in> fst ` set t"
  by (force dest: map_of_SomeD)

text \<open>The descriptor \<open>fd\<close> was opened last and refers to \<open>f\<close>; \<open>t\<close> is the rest of the table.\<close>

definition fd_top :: "int \<Rightarrow> ofile \<Rightarrow> (int \<times> ofile) list \<Rightarrow> os \<Rightarrow> bool" where
  "fd_top fd f t s \<longleftrightarrow> fds s = (fd, f) # t \<and> fd \<notin> fst ` set t"

lemma fd_top_lookup: "fd_top fd f t s \<Longrightarrow> map_of (fds s) fd = Some f"
  by (simp add: fd_top_def)

lemma fd_top_close: "fd_top fd f t s \<Longrightarrow> sys_close fd s = s\<lparr>fds := t\<rparr>"
  using fd_remove_fresh [of fd t] by (simp add: fd_top_def sys_close_def fd_remove_def)

lemma fd_alloc_top:
  "fd_alloc f s = (fd, s') \<Longrightarrow> fd_top fd f (fds s) s' \<and> 0 \<le> fd \<and> s' = s\<lparr>fds := (fd, f) # fds s\<rparr>"
  using lowest_fd_fresh [of "fds s"] by (auto simp: fd_alloc_def Let_def fd_top_def)

section \<open>Facts on schedules\<close>

lemma next_outcome_Nil [simp]: "sched s = [] \<Longrightarrow> next_outcome s = (Normal, s)"
  by (simp add: next_outcome_def)

lemma next_outcome_frame:
  "next_outcome s = (x, s') \<Longrightarrow>
     fsys s' = fsys s \<and> fds s' = fds s \<and> os_errno s' = os_errno s \<and> trace s' = trace s \<and>
     length (sched s') \<le> length (sched s) \<and> (x \<noteq> Normal \<longrightarrow> length (sched s') < length (sched s)) \<and>
     s' = s\<lparr>sched := sched s'\<rparr>"
  by (cases "sched s") (auto simp: next_outcome_def)

text \<open>Nothing but \<open>errno\<close> and the schedule changed: what a failed call leaves behind.\<close>

definition quiet :: "os \<Rightarrow> os \<Rightarrow> bool" where
  "quiet s s' \<longleftrightarrow> fsys s' = fsys s \<and> fds s' = fds s \<and> trace s' = trace s"

lemma quiet_refl [simp, intro]: "quiet s s"
  by (simp add: quiet_def)

lemma quiet_trans [trans]: "quiet s t \<Longrightarrow> quiet t u \<Longrightarrow> quiet s u"
  by (simp add: quiet_def)

lemma quiet_next_outcome: "next_outcome s = (x, s') \<Longrightarrow> quiet s s'"
  by (drule next_outcome_frame) (simp add: quiet_def)

lemma quiet_errno [simp]: "quiet s (s'\<lparr>os_errno := e\<rparr>) \<longleftrightarrow> quiet s s'"
  by (simp add: quiet_def)

lemma quiet_fd_top: "quiet s s' \<Longrightarrow> fd_top fd f t s' \<longleftrightarrow> fd_top fd f t s"
  by (simp add: quiet_def fd_top_def)

section \<open>Facts on writing\<close>

text \<open>\<open>g\<close> differs from \<open>f\<close> at most in the contents of inode \<open>i\<close>, kept within the limit.\<close>

definition writes_to :: "inode \<Rightarrow> fs \<Rightarrow> fs \<Rightarrow> bool" where
  "writes_to i f g \<longleftrightarrow>
     (\<exists>d. g = f\<lparr>fs_data := (fs_data f)(i := d)\<rparr> \<and>
          (length (fs_data f i) < off_limit \<longrightarrow> length d < off_limit))"

lemma writes_to_refl [simp]: "writes_to i f f"
  unfolding writes_to_def by (rule exI [of _ "fs_data f i"]) simp

lemma writes_to_trans: "writes_to i f g \<Longrightarrow> writes_to i g h \<Longrightarrow> writes_to i f h"
  unfolding writes_to_def by auto

text \<open>\<open>fd\<close> is on top of the table and stands at the end of inode \<open>i\<close>.\<close>

definition at_end :: "int \<Rightarrow> inode \<Rightarrow> (int \<times> ofile) list \<Rightarrow> os \<Rightarrow> bool" where
  "at_end fd i t s \<longleftrightarrow> fd_top fd (OFile i (length (fs_data (fsys s) i))) t s"

text \<open>From \<open>s\<close> to \<open>s'\<close> the bytes \<open>bs\<close> were appended to inode \<open>i\<close> through \<open>fd\<close>.\<close>

definition appended :: "int \<Rightarrow> inode \<Rightarrow> (int \<times> ofile) list \<Rightarrow> byte list \<Rightarrow> os \<Rightarrow> os \<Rightarrow> bool" where
  "appended fd i t bs s s' \<longleftrightarrow>
     at_end fd i t s' \<and>
     fsys s' = (fsys s)\<lparr>fs_data := (fs_data (fsys s))(i := fs_data (fsys s) i @ bs)\<rparr> \<and>
     writes_to i (fsys s) (fsys s') \<and>
     (\<exists>new. trace s' = new @ trace s \<and> (\<forall>g \<in> set new. writes_to i (fsys s) g))"

lemma appended_at_end: "appended fd i t bs s s' \<Longrightarrow> at_end fd i t s'"
  by (simp add: appended_def)

lemma appended_writes_to: "appended fd i t bs s s' \<Longrightarrow> writes_to i (fsys s) (fsys s')"
  unfolding appended_def by blast

lemma appended_quiet: "at_end fd i t s \<Longrightarrow> quiet s s' \<Longrightarrow> appended fd i t [] s s'"
  by (auto simp: appended_def at_end_def quiet_def fd_top_def)

lemma appended_quiet_left: "quiet s s1 \<Longrightarrow> appended fd i t bs s1 s' \<Longrightarrow> appended fd i t bs s s'"
  unfolding appended_def quiet_def by metis

lemma appended_trans:
  assumes "appended fd i t bs s s'" and "appended fd i t cs s' s''"
  shows "appended fd i t (bs @ cs) s s''"
proof -
  have w: "writes_to i (fsys s) (fsys s')"
    using assms(1) by (rule appended_writes_to)
  obtain new new' where "trace s' = new @ trace s" "\<forall>g \<in> set new. writes_to i (fsys s) g"
    "trace s'' = new' @ trace s'" "\<forall>g \<in> set new'. writes_to i (fsys s') g"
    using assms unfolding appended_def by blast
  then have "\<exists>n. trace s'' = n @ trace s \<and> (\<forall>g \<in> set n. writes_to i (fsys s) g)"
    using writes_to_trans [OF w] by (intro exI [of _ "new' @ new"]) auto
  moreover have "writes_to i (fsys s) (fsys s'')"
    using writes_to_trans [OF w appended_writes_to [OF assms(2)]] .
  ultimately show ?thesis
    using assms by (simp add: appended_def)
qed

lemma writes_to_append:
  "length (fs_data f i) + length bs < off_limit \<Longrightarrow>
     writes_to i f (f\<lparr>fs_data := (fs_data f)(i := fs_data f i @ bs)\<rparr>)"
  unfolding writes_to_def by (rule exI [of _ "fs_data f i @ bs"]) simp

lemma do_write_appended:
  assumes "at_end fd i t s" and "do_write fd i (length (fs_data (fsys s) i)) bs s = (r, s')"
    and "length (fs_data (fsys s) i) + length bs < off_limit"
  shows "r = int (length bs) \<and> sched s' = sched s \<and> appended fd i t bs s s'"
proof -
  have "fds s = (fd, OFile i (length (fs_data (fsys s) i))) # t" "fd \<notin> fst ` set t"
    using assms(1) by (simp_all add: at_end_def fd_top_def)
  moreover from this(2) have "map (\<lambda>(k, g). if k = fd then (k, x) else (k, g)) t = t" for x
    using fd_set_fresh [of fd t x] by (simp add: fd_set_def)
  ultimately show ?thesis
    using assms(2) writes_to_append [OF assms(3)]
    by (auto simp: do_write_def Let_def set_fs_def appended_def at_end_def fd_top_def fd_set_def
        write_at_def)
qed

lemma sys_write_cases:
  assumes "sys_write fd bs s = (r, s')" and "at_end fd i t s"
  shows "(r = -1 \<and> quiet s s') \<or>
         (\<exists>k \<le> length bs. r = int k \<and> appended fd i t (take k bs) s s')"
proof -
  obtain x s1 where n: "next_outcome s = (x, s1)" by fastforce
  note fr = next_outcome_frame [OF n]
  have e1: "at_end fd i t s1" using assms(2) fr by (simp add: at_end_def fd_top_def)
  then have lk: "map_of (fds s1) fd = Some (OFile i (length (fs_data (fsys s1) i)))"
    by (simp add: at_end_def fd_top_lookup)
  define bs' where "bs' = (case x of Short k \<Rightarrow> take k bs | _ \<Rightarrow> bs)"
  show ?thesis
  proof (cases "(\<exists>e. x = Fail e) \<or> off_limit \<le> length (fs_data (fsys s1) i) + length bs'")
    case True
    with assms(1) n fr lk have "r = -1 \<and> quiet s s'"
      by (auto simp: sys_write_def sys_fail_def quiet_def bs'_def split: outcome.splits)
    then show ?thesis by blast
  next
    case False
    then have "do_write fd i (length (fs_data (fsys s1) i)) bs' s1 = (r, s')"
      using assms(1) n lk by (cases x) (auto simp: sys_write_def bs'_def)
    then have r: "r = int (length bs')" and a: "appended fd i t bs' s1 s'"
      using do_write_appended [OF e1] False by (meson not_le)+
    have "appended fd i t bs' s s'"
      by (rule appended_quiet_left [OF quiet_next_outcome [OF n] a])
    moreover have "bs' = take (length bs') bs"
      by (cases x) (auto simp: bs'_def min_def)
    moreover have "length bs' \<le> length bs"
      by (cases x) (auto simp: bs'_def)
    ultimately show ?thesis using r by metis
  qed
qed

lemma sys_write_sched:
  assumes "sys_write fd bs s = (r, s')"
  shows "length (sched s') \<le> length (sched s) \<and>
         (r < 0 \<and> os_errno s' = EINTR \<longrightarrow> length (sched s') < length (sched s))"
proof -
  obtain x s1 where n: "next_outcome s = (x, s1)" by fastforce
  show ?thesis
    using assms next_outcome_frame [OF n] n
    by (auto simp: sys_write_def sys_fail_def do_write_def Let_def set_fs_def
        split: outcome.splits option.splits ofile.splits if_splits)
qed

end
