(* ===== verification/Unique_Fd.thy ===== *)
theory Unique_Fd
  imports Posix
begin

text \<open>
  \<open>UniqueFd\<close> of \<open>include/storage/common/unique_fd.h\<close>: the owner of one descriptor, with its
  constructors, \<open>release\<close>, \<open>reset\<close>, the move operations and the destructor. The second part
  is a state machine over a store of such objects, in which every operation of the class is a
  step; its invariant is unique ownership: two live objects never own the same descriptor, and
  every owned descriptor is open, so no descriptor is closed twice or used after its close.
\<close>

section \<open>One object\<close>

record UniqueFd =
  ufd_fd :: int

definition ufd_default :: UniqueFd where
  "ufd_default = \<lparr>ufd_fd = -1\<rparr>"

definition ufd_make :: "int \<Rightarrow> UniqueFd" where
  "ufd_make fd = \<lparr>ufd_fd = fd\<rparr>"

definition ufd_get :: "UniqueFd \<Rightarrow> int" where
  "ufd_get u = ufd_fd u"

definition ufd_valid :: "UniqueFd \<Rightarrow> bool" where
  "ufd_valid u \<longleftrightarrow> ufd_fd u \<ge> 0"

definition ufd_release :: "UniqueFd \<Rightarrow> int \<times> UniqueFd" where
  "ufd_release u = (ufd_fd u, u\<lparr>ufd_fd := -1\<rparr>)"

definition ufd_reset :: "UniqueFd \<Rightarrow> int \<Rightarrow> os \<Rightarrow> UniqueFd \<times> os" where
  "ufd_reset u fd s =
     (u\<lparr>ufd_fd := fd\<rparr>,
      if ufd_fd u \<ge> 0 \<and> ufd_fd u \<noteq> fd then sys_close (ufd_fd u) s else s)"

text \<open>The destructor is \<open>reset()\<close> with its default argument.\<close>

definition ufd_destroy :: "UniqueFd \<Rightarrow> os \<Rightarrow> os" where
  "ufd_destroy u s = snd (ufd_reset u (-1) s)"

lemma ufd_make_simps [simp]:
  "ufd_get (ufd_make fd) = fd" "ufd_valid (ufd_make fd) \<longleftrightarrow> fd \<ge> 0" "ufd_fd (ufd_make fd) = fd"
  by (simp_all add: ufd_get_def ufd_make_def ufd_valid_def)

lemma ufd_destroy_make: "ufd_destroy (ufd_make fd) s = (if fd \<ge> 0 then sys_close fd s else s)"
  by (simp add: ufd_destroy_def ufd_reset_def)

lemma ufd_destroy_reset: "ufd_destroy (fst (ufd_reset u (-1) s)) s' = s'"
  by (simp add: ufd_destroy_def ufd_reset_def)

text \<open>Leaving the scope of an owner gives the descriptor table back as it was before \<open>open\<close>.\<close>

lemma ufd_destroy_top: "fd_top fd f t s \<Longrightarrow> 0 \<le> fd \<Longrightarrow> ufd_destroy (ufd_make fd) s = s\<lparr>fds := t\<rparr>"
  by (simp add: ufd_destroy_make fd_top_close)

section \<open>A store of objects\<close>

text \<open>
  Objects live at addresses; an address without an object maps to \<open>None\<close>. The move operations
  compare addresses, as \<open>this != &other\<close> does.
\<close>

type_synonym ufd_store = "nat \<Rightarrow> UniqueFd option"

definition ufd_move_construct :: "nat \<Rightarrow> nat \<Rightarrow> ufd_store \<Rightarrow> ufd_store" where
  "ufd_move_construct a b m =
     (case m b of None \<Rightarrow> m
      | Some other \<Rightarrow> (case ufd_release other of (fd, other') \<Rightarrow> m(b \<mapsto> other', a \<mapsto> ufd_make fd)))"

definition ufd_move_assign :: "nat \<Rightarrow> nat \<Rightarrow> ufd_store \<Rightarrow> os \<Rightarrow> ufd_store \<times> os" where
  "ufd_move_assign a b m s =
     (if a \<noteq> b then
        (case (m a, m b) of
           (Some this, Some other) \<Rightarrow>
             (case ufd_release other of (fd, other') \<Rightarrow>
                (case ufd_reset this fd s of (this', s') \<Rightarrow> (m(b \<mapsto> other', a \<mapsto> this'), s')))
         | _ \<Rightarrow> (m, s))
      else (m, s))"

text \<open>
  The contract of the constructor from an \<open>int\<close> and of \<open>reset\<close>, which take over what they are given:
  \<open>fd\<close> is an invalid value, or open and owned by nobody but possibly the object at \<open>a\<close> itself.
\<close>

definition free_for :: "nat \<Rightarrow> int \<Rightarrow> ufd_store \<Rightarrow> os \<Rightarrow> bool" where
  "free_for a fd m s \<longleftrightarrow>
     fd < 0 \<or> (fd \<in> fst ` set (fds s) \<and> (\<forall>b v. b \<noteq> a \<and> m b = Some v \<longrightarrow> ufd_fd v \<noteq> fd))"

text \<open>
  The steps: an object is built by default, from any number under the contract, or by a move; it is
  reset, assigned, released to raw code or destroyed. Between them raw code opens descriptors and
  closes those that no object owns.
\<close>

inductive ufd_step :: "ufd_store \<times> os \<Rightarrow> ufd_store \<times> os \<Rightarrow> bool" where
  construct_default: "m a = None \<Longrightarrow> ufd_step (m, s) (m(a \<mapsto> ufd_default), s)"
| construct: "m a = None \<Longrightarrow> free_for a fd m s \<Longrightarrow> ufd_step (m, s) (m(a \<mapsto> ufd_make fd), s)"
| move_construct: "m a = None \<Longrightarrow> m b \<noteq> None \<Longrightarrow>
     ufd_step (m, s) (ufd_move_construct a b m, s)"
| move_assign: "m a \<noteq> None \<Longrightarrow> m b \<noteq> None \<Longrightarrow> ufd_step (m, s) (ufd_move_assign a b m s)"
| reset: "m a = Some u \<Longrightarrow> free_for a fd m s \<Longrightarrow> ufd_reset u fd s = (u', s') \<Longrightarrow>
     ufd_step (m, s) (m(a \<mapsto> u'), s')"
| release: "m a = Some u \<Longrightarrow> ufd_release u = (fd, u') \<Longrightarrow> ufd_step (m, s) (m(a \<mapsto> u'), s)"
| destroy: "m a = Some u \<Longrightarrow> ufd_step (m, s) (m(a := None), ufd_destroy u s)"
| raw_open: "sys_open_rd p s = (fd, s') \<Longrightarrow> ufd_step (m, s) (m, s')"
| raw_close: "\<forall>b v. m b = Some v \<longrightarrow> ufd_fd v \<noteq> fd \<Longrightarrow> ufd_step (m, s) (m, sys_close fd s)"

inductive_cases ufd_stepE: "ufd_step c c'"

definition ufd_owned :: "ufd_store \<Rightarrow> os \<Rightarrow> bool" where
  "ufd_owned m s \<longleftrightarrow>
     (\<forall>a u. m a = Some u \<and> ufd_valid u \<longrightarrow> ufd_fd u \<in> fst ` set (fds s)) \<and>
     (\<forall>a b u v. m a = Some u \<and> m b = Some v \<and> ufd_valid u \<and> ufd_fd u = ufd_fd v \<longrightarrow> a = b)"

inductive ufd_reachable :: "ufd_store \<times> os \<Rightarrow> bool" where
  start: "ufd_reachable (Map.empty, s)"
| step: "ufd_reachable c \<Longrightarrow> ufd_step c c' \<Longrightarrow> ufd_reachable c'"

lemma fds_sys_close: "fst ` set (fds (sys_close fd s)) = fst ` set (fds s) - {fd}"
  by (force simp: sys_close_def fd_remove_def)

lemma sys_open_rd_fds:
  assumes "sys_open_rd p s = (fd, s')"
  shows "fd = -1 \<and> fds s' = fds s \<or>
         0 \<le> fd \<and> fd \<notin> fst ` set (fds s) \<and> fst ` set (fds s') = insert fd (fst ` set (fds s))"
proof -
  obtain x s1 where n: "next_outcome s = (x, s1)" by fastforce
  show ?thesis
    using assms n next_outcome_frame [OF n] lowest_fd_fresh [of "fds s"]
    by (auto simp: sys_open_rd_def sys_fail_def fd_alloc_def Let_def
        split: outcome.splits if_splits option.splits)
qed

section \<open>Unique ownership\<close>

lemma ufd_owned_more_fds:
  "ufd_owned m s \<Longrightarrow> fst ` set (fds s) \<subseteq> fst ` set (fds s') \<Longrightarrow> ufd_owned m s'"
  unfolding ufd_owned_def by blast

lemma ufd_owned_insert:
  "ufd_owned m s \<Longrightarrow> m a = None \<Longrightarrow> free_for a fd m s \<Longrightarrow> ufd_owned (m(a \<mapsto> ufd_make fd)) s"
  unfolding ufd_owned_def free_for_def
  by (auto simp: ufd_valid_def ufd_make_def split: if_splits) metis+

lemma ufd_owned_remove: "ufd_owned m s \<Longrightarrow> ufd_owned (m(a := None)) s"
  unfolding ufd_owned_def by (auto split: if_splits)

lemma ufd_owned_reset:
  assumes own: "ufd_owned m s" and a: "m a = Some u" and free: "free_for a fd m s"
  shows "ufd_owned (m(a \<mapsto> fst (ufd_reset u fd s))) (snd (ufd_reset u fd s))"
proof -
  have others: "\<And>b v. b \<noteq> a \<Longrightarrow> m b = Some v \<Longrightarrow> ufd_valid v \<Longrightarrow> ufd_fd v \<noteq> ufd_fd u"
    using own a unfolding ufd_owned_def by metis
  then have "\<And>b v. b \<noteq> a \<Longrightarrow> m b = Some v \<Longrightarrow> ufd_valid v \<Longrightarrow>
      ufd_fd v \<in> fst ` set (fds (snd (ufd_reset u fd s)))"
    using own by (auto simp: ufd_reset_def fds_sys_close ufd_owned_def)
  moreover have "0 \<le> fd \<Longrightarrow> fd \<in> fst ` set (fds (snd (ufd_reset u fd s)))"
    using free by (auto simp: ufd_reset_def fds_sys_close free_for_def)
  ultimately show ?thesis
    using own free unfolding ufd_owned_def free_for_def
    by (auto simp: ufd_reset_def ufd_valid_def split: if_splits) metis+
qed

lemma ufd_owned_release:
  assumes own: "ufd_owned m s" and b: "m b = Some u"
  shows "ufd_owned (m(b \<mapsto> snd (ufd_release u))) s"
    and "free_for a (fst (ufd_release u)) (m(b \<mapsto> snd (ufd_release u))) s"
proof -
  show "ufd_owned (m(b \<mapsto> snd (ufd_release u))) s"
    using own unfolding ufd_owned_def
    by (auto simp: ufd_release_def ufd_valid_def split: if_splits)
  have "\<And>c v. c \<noteq> b \<Longrightarrow> m c = Some v \<Longrightarrow> ufd_valid u \<Longrightarrow> ufd_fd v \<noteq> ufd_fd u"
    using own b unfolding ufd_owned_def ufd_valid_def by metis
  moreover have "ufd_valid u \<Longrightarrow> ufd_fd u \<in> fst ` set (fds s)"
    using own b unfolding ufd_owned_def by blast
  ultimately show "free_for a (fst (ufd_release u)) (m(b \<mapsto> snd (ufd_release u))) s"
    unfolding free_for_def ufd_release_def ufd_valid_def by (auto split: if_splits)
qed

lemma ufd_step_owned: "ufd_step c c' \<Longrightarrow> ufd_owned (fst c) (snd c) \<Longrightarrow> ufd_owned (fst c') (snd c')"
proof (induction rule: ufd_step.induct)
  case (construct_default m a s)
  then show ?case
    using ufd_owned_insert [of m s a "-1"] by (simp add: free_for_def ufd_default_def ufd_make_def del: fun_upd_apply)
next
  case (construct m a fd s)
  then show ?case using ufd_owned_insert [of m s a fd] by (simp del: fun_upd_apply)
next
  case (move_construct m a b s)
  then have "a \<noteq> b" by auto
  from move_construct obtain u where b: "m b = Some u" by auto
  let ?m = "m(b \<mapsto> snd (ufd_release u))"
  have "ufd_owned ?m s" and "free_for a (fst (ufd_release u)) ?m s"
    using move_construct(3) b ufd_owned_release(1) [of m s b u] ufd_owned_release(2) [of m s b u a]
    by simp_all
  moreover have "?m a = None" using move_construct(1) \<open>a \<noteq> b\<close> by simp
  ultimately have "ufd_owned (?m(a \<mapsto> ufd_make (fst (ufd_release u)))) s"
    by (intro ufd_owned_insert)
  then show ?case
    by (simp only: ufd_move_construct_def b option.case split_def fst_conv snd_conv)
next
  case (move_assign m a b s)
  then obtain u v where a: "m a = Some u" and b: "m b = Some v" by auto
  show ?case
  proof (cases "a = b")
    case True
    with move_assign show ?thesis by (simp add: ufd_move_assign_def)
  next
    case False
    with a b move_assign ufd_owned_release(1) [of m s b v] ufd_owned_release(2) [of m s b v a] show ?thesis
      using ufd_owned_reset [of "m(b \<mapsto> snd (ufd_release v))" s a u "fst (ufd_release v)"]
      by (simp add: ufd_move_assign_def split_def fun_upd_other del: fun_upd_apply)
  qed
next
  case (reset m a u fd s u' s')
  then show ?case using ufd_owned_reset [of m s a u fd] by (simp del: fun_upd_apply)
next
  case (release m a u fd u' s)
  then show ?case using ufd_owned_release(1) [of m s a u] by (simp del: fun_upd_apply)
next
  case (destroy m a u s)
  then have "ufd_owned (m(a \<mapsto> fst (ufd_reset u (-1) s))) (ufd_destroy u s)"
    using ufd_owned_reset [of m s a u "-1"] by (simp add: free_for_def ufd_destroy_def)
  from ufd_owned_remove [OF this, of a] show ?case by (simp del: fun_upd_apply)
next
  case (raw_open p s fd s' m)
  then have "fst ` set (fds s) \<subseteq> fst ` set (fds s')" using sys_open_rd_fds [of p s fd s'] by auto
  then show ?case using raw_open ufd_owned_more_fds [of m s s'] by simp
next
  case (raw_close m fd s)
  then show ?case unfolding ufd_owned_def fst_conv snd_conv fds_sys_close by (metis Diff_iff singletonD)
qed

lemma ufd_reachable_owned: "ufd_reachable c \<Longrightarrow> ufd_owned (fst c) (snd c)"
proof (induction rule: ufd_reachable.induct)
  case (start s)
  show ?case by (simp add: ufd_owned_def)
next
  case (step c c')
  then show ?case by (blast intro: ufd_step_owned)
qed

end
