(* ===== verification/Store_Io.thy ===== *)
theory Store_Io
  imports Core_Types Unique_Fd
begin

text \<open>
  What the data plane code takes from its surroundings (\<open>platform\<close>: the BLAKE3 library,
  \<open>strerror\<close>, \<open>getpid\<close>), and the two transfer loops at the top of
  \<open>src/storage/worker/file_chunk_store.cpp\<close>, \<open>WriteAll\<close> and \<open>PreadSome\<close>, which carry all
  file access of the store. Both retry interrupted calls and both are shown to end under every
  schedule.
\<close>

section \<open>Platform\<close>

record 'h platform =
  strerror :: "errno \<Rightarrow> string"
  getpid :: nat
  b3_init :: 'h
  b3_update :: "'h \<Rightarrow> byte list \<Rightarrow> 'h"
  b3_finalize :: "'h \<Rightarrow> nat \<Rightarrow> byte list"

definition BLAKE3_OUT_LEN :: nat where
  "BLAKE3_OUT_LEN = 32"

text \<open>
  The documented behaviour of \<open>blake3.h\<close> the code relies on: \<open>blake3_hasher_finalize\<close> fills the
  requested number of bytes, and the digest depends only on the concatenation of the inputs
  given to \<open>blake3_hasher_update\<close>.
\<close>

definition blake3_laws :: "'h platform \<Rightarrow> bool" where
  "blake3_laws P \<longleftrightarrow>
     (\<forall>h n. length (b3_finalize P h n) = n) \<and>
     (\<forall>cs n. b3_finalize P (foldl (b3_update P) (b3_init P) cs) n =
             b3_finalize P (b3_update P (b3_init P) (concat cs)) n)"

text \<open>The hexadecimal digest of a byte string, hashed in one go.\<close>

definition blake3_hex :: "'h platform \<Rightarrow> byte list \<Rightarrow> string" where
  "blake3_hex P bs = hex_bytes (b3_finalize P (b3_update P (b3_init P) bs) BLAKE3_OUT_LEN)"

definition blake3_checksum :: "'h platform \<Rightarrow> byte list \<Rightarrow> Checksum" where
  "blake3_checksum P bs = \<lparr>algorithm = kBlake3, checksum_value = blake3_hex P bs\<rparr>"

section \<open>Definitions\<close>

definition IoError :: "'h platform \<Rightarrow> string \<Rightarrow> path \<Rightarrow> os \<Rightarrow> Status" where
  "IoError P operation p s =
     mk_Status kIoError (operation @ '' '' @ p @ '': '' @ strerror P (os_errno s))"

function WriteAll_loop :: "'h platform \<Rightarrow> int \<Rightarrow> byte list \<Rightarrow> nat \<Rightarrow> os \<Rightarrow> Status \<times> os" where
  "WriteAll_loop P fd data written s =
     (if written < length data then
        (case sys_write fd (drop written data) s of (result, s') \<Rightarrow>
           if result < 0 \<and> os_errno s' = EINTR then WriteAll_loop P fd data written s'
           else if result \<le> 0
           then (mk_Status kIoError (''write failed: '' @ strerror P (os_errno s')), s')
           else WriteAll_loop P fd data (written + nat result) s')
      else (Status_Ok, s))"
  by pat_completeness auto
termination
proof (relation "measure (\<lambda>(P, fd, data, written, s). (length data - written) + length (sched s))",
    goal_cases)
  case 1
  show ?case by simp
next
  case (2 P fd data written s x y)
  then show ?case using sys_write_sched [of fd "drop written data" s x y] by simp linarith
next
  case (3 P fd data written s x y)
  then show ?case using sys_write_sched [of fd "drop written data" s x y] by simp
qed

definition WriteAll :: "'h platform \<Rightarrow> int \<Rightarrow> byte list \<Rightarrow> os \<Rightarrow> Status \<times> os" where
  "WriteAll P fd data s = WriteAll_loop P fd data 0 s"

text \<open>\<open>std::numeric_limits<off_t>::max()\<close>.\<close>

definition off_t_max :: u64 where
  "off_t_max = 0x7fffffffffffffff"

lemma sys_pread_sched:
  assumes "sys_pread fd n off s = ((r, bs), s')"
  shows "r < 0 \<and> os_errno s' = EINTR \<longrightarrow> length (sched s') < length (sched s)"
proof -
  obtain x s1 where n: "next_outcome s = (x, s1)" by fastforce
  show ?thesis
    using assms next_outcome_frame [OF n] n
    by (auto simp: sys_pread_def Let_def split: outcome.splits option.splits ofile.splits)
qed

function PreadSome_loop :: "'h platform \<Rightarrow> int \<Rightarrow> nat \<Rightarrow> u64 \<Rightarrow> os \<Rightarrow> byte list StatusOr \<times> os" where
  "PreadSome_loop P fd n off s =
     (case sys_pread fd n (unat off) s of ((result, bytes), s') \<Rightarrow>
        if result < 0 \<and> os_errno s' = EINTR then PreadSome_loop P fd n off s'
        else if result < 0
        then (StatusOr_error (mk_Status kIoError (''pread failed: '' @ strerror P (os_errno s'))), s')
        else (StatusOr_value bytes, s'))"
  by pat_completeness auto
termination
  by (relation "measure (\<lambda>(P, fd, n, off, s). length (sched s))") (auto dest: sys_pread_sched [OF sym])

text \<open>
  \<open>PreadSome\<close> fills a prefix of its buffer of \<open>n\<close> bytes and returns its length; the model
  returns the bytes themselves.
\<close>

definition PreadSome :: "'h platform \<Rightarrow> int \<Rightarrow> nat \<Rightarrow> u64 \<Rightarrow> os \<Rightarrow> byte list StatusOr \<times> os" where
  "PreadSome P fd n off s =
     (if off > off_t_max
      then (StatusOr_error (mk_Status kInvalidArgument ''file offset exceeds platform limit''), s)
      else PreadSome_loop P fd n off s)"

declare WriteAll_loop.simps [simp del] PreadSome_loop.simps [simp del]

section \<open>Schedules without failures\<close>

text \<open>
  \<open>smooth\<close> schedules cut transfers short but fail no call; \<open>gentle\<close> ones also interrupt calls.
  Interruptions are retried by the transfer loops, but not around \<open>open\<close> or \<open>link\<close>.
\<close>

definition smooth_outcome :: "outcome \<Rightarrow> bool" where
  "smooth_outcome x = (case x of Normal \<Rightarrow> True | Short k \<Rightarrow> k > 0 | Fail e \<Rightarrow> False)"

definition smooth :: "os \<Rightarrow> bool" where
  "smooth s \<longleftrightarrow> list_all smooth_outcome (sched s)"

definition gentle :: "os \<Rightarrow> bool" where
  "gentle s \<longleftrightarrow> list_all (\<lambda>x. smooth_outcome x \<or> x = Fail EINTR) (sched s)"

lemma smooth_Nil [simp]: "sched s = [] \<Longrightarrow> smooth s"
  by (simp add: smooth_def)

lemma smooth_gentle: "smooth s \<Longrightarrow> gentle s"
  by (auto simp: smooth_def gentle_def list_all_iff)

text \<open>What remains of a schedule is a suffix of it, so it keeps both properties.\<close>

definition sched_tail :: "os \<Rightarrow> os \<Rightarrow> bool" where
  "sched_tail s s' \<longleftrightarrow> (\<exists>used. sched s = used @ sched s')"

lemma sched_tail_refl [simp]: "sched_tail s s"
  by (simp add: sched_tail_def)

lemma sched_tail_eq: "sched s' = sched s \<Longrightarrow> sched_tail s s'"
  by (simp add: sched_tail_def)

lemma sched_tail_trans: "sched_tail s t \<Longrightarrow> sched_tail t u \<Longrightarrow> sched_tail s u"
  by (auto simp: sched_tail_def)

lemma sched_tail_smooth: "sched_tail s s' \<Longrightarrow> smooth s \<Longrightarrow> smooth s'"
  by (auto simp: sched_tail_def smooth_def)

lemma sched_tail_gentle: "sched_tail s s' \<Longrightarrow> gentle s \<Longrightarrow> gentle s'"
  by (auto simp: sched_tail_def gentle_def)

lemma sched_tail_next: "next_outcome s = (x, s') \<Longrightarrow> sched_tail s s'"
  by (cases "sched s") (auto simp: next_outcome_def sched_tail_def)

lemma smooth_next: "next_outcome s = (x, s') \<Longrightarrow> smooth s \<Longrightarrow> smooth_outcome x"
  by (cases "sched s") (auto simp: next_outcome_def smooth_def smooth_outcome_def)

lemma gentle_next: "next_outcome s = (x, s') \<Longrightarrow> gentle s \<Longrightarrow> smooth_outcome x \<or> x = Fail EINTR"
  by (cases "sched s") (auto simp: next_outcome_def gentle_def smooth_outcome_def)

section \<open>The write loop\<close>

lemma sys_write_tail: "sys_write fd bs s = (r, s') \<Longrightarrow> sched_tail s s'"
proof -
  assume a: "sys_write fd bs s = (r, s')"
  obtain x s1 where n: "next_outcome s = (x, s1)" by fastforce
  have "sched s' = sched s1"
    using a n by (auto simp: sys_write_def sys_fail_def do_write_def Let_def set_fs_def
        split: outcome.splits option.splits ofile.splits if_splits)
  with sched_tail_next [OF n] show ?thesis by (simp add: sched_tail_def)
qed

lemma sys_write_gentle:
  assumes "sys_write fd bs s = (r, s')" and "at_end fd i t s" and "gentle s" and "bs \<noteq> []"
    and "length (fs_data (fsys s) i) + length bs < off_limit"
  shows "r > 0 \<or> (r < 0 \<and> os_errno s' = EINTR)"
proof -
  obtain x s1 where n: "next_outcome s = (x, s1)" by fastforce
  have "map_of (fds s1) fd = Some (OFile i (length (fs_data (fsys s) i)))"
    using assms(2) next_outcome_frame [OF n] by (auto simp: at_end_def dest: fd_top_lookup)
  moreover have "\<not> off_limit \<le> length (fs_data (fsys s) i) + min (length bs) k" for k
    using assms(5) by linarith
  ultimately show ?thesis using assms gentle_next [OF n assms(3)] n
    by (auto simp: sys_write_def sys_fail_def do_write_def Let_def smooth_outcome_def leD
        split: outcome.splits)
qed

text \<open>One turn of \<open>WriteAll\<close>, as a rule for case analysis.\<close>

lemma WriteAll_turn:
  assumes "WriteAll_loop P fd data written s = (st, s')"
  obtains (finished) "\<not> written < length data" "st = Status_Ok" "s' = s"
    | (again) r s1 where "written < length data" "sys_write fd (drop written data) s = (r, s1)" "r < 0 \<and> os_errno s1 = EINTR"
      "WriteAll_loop P fd data written s1 = (st, s')"
    | (failed) r where "written < length data" "sys_write fd (drop written data) s = (r, s')" "\<not> (r < 0 \<and> os_errno s' = EINTR)" "r \<le> 0"
      "st = mk_Status kIoError (''write failed: '' @ strerror P (os_errno s'))"
    | (more) r s1 where "written < length data" "sys_write fd (drop written data) s = (r, s1)" "\<not> (r < 0 \<and> os_errno s1 = EINTR)" "\<not> r \<le> 0"
      "WriteAll_loop P fd data (written + nat r) s1 = (st, s')"
proof -
  note unf = assms [unfolded WriteAll_loop.simps [of P fd data written s]]
  obtain r s1 where w: "sys_write fd (drop written data) s = (r, s1)" by fastforce
  show thesis
    using unf w finished again [of r s1] failed [of r] more [of r s1] by (simp split: if_splits; force)
qed

text \<open>
  Whatever the schedule, \<open>WriteAll\<close> appends a prefix of its data and touches nothing else, and
  the whole of it if it reports success.
\<close>

lemma WriteAll_loop_appended:
  assumes "WriteAll_loop P fd data written s = (st, s')" and "at_end fd i t s"
    and "written \<le> length data"
  shows "\<exists>n. appended fd i t (take n (drop written data)) s s' \<and>
             (status_ok st \<longrightarrow> n = length data - written)"
  using assms
proof (induction P fd data written s rule: WriteAll_loop.induct)
  case (1 P fd data written s)
  note e = "1.prems"(2)
  from "1.prems"(1) show ?case
  proof (cases rule: WriteAll_turn)
    case finished
    then show ?thesis using appended_quiet [OF e quiet_refl] by auto
  next
    case (again r s1)
    then have q: "quiet s s1" using sys_write_cases [OF again(2) e] by auto
    have "\<exists>n. appended fd i t (take n (drop written data)) s1 s' \<and> (status_ok st \<longrightarrow> n = length data - written)"
      by (rule "1.IH"(1) [OF again(1) again(2) [symmetric] again(3,4)])
        (use appended_at_end [OF appended_quiet [OF e q]] "1.prems"(3) in simp_all)
    then show ?thesis using appended_quiet_left [OF q] by blast
  next
    case (failed r)
    then have "appended fd i t [] s s'" using sys_write_cases [OF failed(2) e] appended_quiet [OF e] by auto
    then show ?thesis using failed(5) by (intro exI [of _ 0]) simp
  next
    case (more r s1)
    obtain k where k: "k \<le> length data - written" "r = int k" "appended fd i t (take k (drop written data)) s s1"
      using sys_write_cases [OF more(2) e] more(4) by auto
    have "written + k \<le> length data" using k(1) more(1) by simp
    then obtain n where n: "appended fd i t (take n (drop (written + k) data)) s1 s'" "status_ok st \<longrightarrow> n = length data - (written + k)"
      using "1.IH"(2) [OF more(1) more(2) [symmetric] more(3-5) appended_at_end [OF k(3)]] k(2) by auto
    have "appended fd i t (take (k + n) (drop written data)) s s'"
      using appended_trans [OF k(3) n(1)] by (simp add: take_append_drop_take)
    with n(2) k(1) show ?thesis by (intro exI [of _ "k + n"]) auto
  qed
qed

lemma WriteAll_appended:
  assumes "WriteAll P fd data s = (st, s')" and "at_end fd i t s"
  shows "\<exists>n. appended fd i t (take n data) s s' \<and> (status_ok st \<longrightarrow> n = length data)"
  using WriteAll_loop_appended [of P fd data 0 s st s' i t] assms by (simp add: WriteAll_def)

lemma WriteAll_ok_appended:
  assumes "WriteAll P fd data s = (st, s')" and "at_end fd i t s" and "status_ok st"
  shows "appended fd i t data s s'"
  using WriteAll_appended [OF assms(1,2)] assms(3) by auto

lemma WriteAll_loop_status:
  "WriteAll_loop P fd data written s = (st, s') \<Longrightarrow>
     (st = Status_Ok \<or> st_code st = kIoError) \<and> sched_tail s s'"
proof (induction P fd data written s rule: WriteAll_loop.induct)
  case (1 P fd data written s)
  obtain r s1 where w: "sys_write fd (drop written data) s = (r, s1)" by fastforce
  note tail = sched_tail_trans [OF sys_write_tail [OF w]]
  show ?case
    using 1(3) w "1.IH" [OF _ w [symmetric]] tail sys_write_tail [OF w]
    by (auto simp: WriteAll_loop.simps [of P fd data written s] split: if_splits)
qed

lemma WriteAll_status:
  "WriteAll P fd data s = (st, s') \<Longrightarrow> (st = Status_Ok \<or> st_code st = kIoError) \<and> sched_tail s s'"
  unfolding WriteAll_def by (rule WriteAll_loop_status)

lemma WriteAll_loop_gentle:
  assumes "at_end fd i t s" and "gentle s" and "written \<le> length data"
    and "length (fs_data (fsys s) i) + (length data - written) < off_limit"
  shows "fst (WriteAll_loop P fd data written s) = Status_Ok"
  using assms
proof (induction P fd data written s rule: WriteAll_loop.induct)
  case (1 P fd data written s)
  show ?case
  proof (cases "written < length data")
    case False
    then show ?thesis by (simp add: WriteAll_loop.simps [of P fd data written s])
  next
    case True
    obtain r s1 where w: "sys_write fd (drop written data) s = (r, s1)" by fastforce
    have g: "gentle s1" by (rule sched_tail_gentle [OF sys_write_tail [OF w] 1(4)])
    have e: "at_end fd i t s1" and r: "r \<le> int (length data - written)"
      using sys_write_cases [OF w 1(3)] appended_quiet [OF 1(3)] by (auto dest: appended_at_end)
    have l: "length (fs_data (fsys s1) i) + (length data - (written + nat r)) < off_limit"
      using sys_write_cases [OF w 1(3)] 1(6) by (auto simp: appended_def quiet_def)
    have "r > 0 \<or> (r < 0 \<and> os_errno s1 = EINTR)"
      using sys_write_gentle [OF w 1(3,4)] True 1(6) by simp
    with True w g e r l "1.IH" [OF _ w [symmetric]] 1(5) show ?thesis
      by (auto simp: WriteAll_loop.simps [of P fd data written s])
  qed
qed

lemma WriteAll_gentle:
  assumes "at_end fd i t s" and "gentle s"
    and "length (fs_data (fsys s) i) + length data < off_limit"
  obtains s' where "WriteAll P fd data s = (Status_Ok, s')" and "appended fd i t data s s'"
    and "sched_tail s s'"
proof -
  obtain st s' where w: "WriteAll P fd data s = (st, s')" by fastforce
  moreover have st: "st = Status_Ok"
    using WriteAll_loop_gentle [OF assms(1,2), of 0 data P] assms(3) w by (simp add: WriteAll_def)
  ultimately show thesis
    using that [of s'] WriteAll_ok_appended [OF w assms(1)] WriteAll_status [OF w] by simp
qed

section \<open>The read loop\<close>

lemma sys_pread_frame:
  assumes "sys_pread fd n off s = ((r, bs), s')" and "fd_top fd (OFile i pos) t s"
  shows "quiet s s' \<and> sched_tail s s' \<and>
         (r < 0 \<or> (r = int (length bs) \<and> front_of bs (take n (drop off (fs_data (fsys s) i)))))"
proof -
  obtain x s1 where n: "next_outcome s = (x, s1)" by fastforce
  have q: "quiet s s1" by (rule quiet_next_outcome [OF n])
  have lk: "map_of (fds s1) fd = Some (OFile i pos)"
    using assms(2) q by (auto simp: quiet_def dest: fd_top_lookup)
  have "\<And>e. x = Fail e \<Longrightarrow> s' = s1\<lparr>os_errno := e\<rparr> \<and> r < 0"
    using assms(1) n by (auto simp: sys_pread_def)
  moreover have "\<forall>e. x \<noteq> Fail e \<Longrightarrow> s' = s1 \<and> r = int (length bs) \<and>
      bs = cut x (take n (drop off (fs_data (fsys s) i)))"
    using assms(1) n lk q by (cases x) (auto simp: sys_pread_def Let_def quiet_def)
  ultimately show ?thesis
    using q sched_tail_next [OF n] front_of_cut by (cases x) (auto simp: quiet_def sched_tail_def)
qed

lemma sys_pread_gentle:
  assumes "sys_pread fd n off s = ((r, bs), s')" and "fd_top fd (OFile i pos) t s" and "gentle s"
  shows "r \<ge> 0 \<or> os_errno s' = EINTR"
proof -
  obtain x s1 where n: "next_outcome s = (x, s1)" by fastforce
  have "map_of (fds s1) fd = Some (OFile i pos)"
    using assms(2) quiet_next_outcome [OF n] by (auto simp: quiet_def dest: fd_top_lookup)
  with assms gentle_next [OF n assms(3)] n show ?thesis
    by (auto simp: sys_pread_def Let_def smooth_outcome_def split: outcome.splits)
qed

text \<open>
  The shape of every read-only operation: the file system, the descriptors and the trace are as
  before, a value satisfies \<open>Q\<close> and an error has a code in \<open>E\<close>.
\<close>

definition reads :: "os \<Rightarrow> 'a StatusOr \<Rightarrow> os \<Rightarrow> ('a \<Rightarrow> bool) \<Rightarrow> StatusCode set \<Rightarrow> bool" where
  "reads s res s' Q E \<longleftrightarrow>
     quiet s s' \<and> sched_tail s s' \<and> statusor_inv res \<and>
     (case so_opt res of Some v \<Rightarrow> Q v | None \<Rightarrow> st_code (so_status res) \<in> E)"

text \<open>I/O errors are possible only where the schedule has failures that are not retried.\<close>

definition io_errs :: "os \<Rightarrow> StatusCode set" where
  "io_errs s = (if gentle s then {} else {kIoError})"

text \<open>The same for operations that make calls which are never retried.\<close>

definition os_errs :: "os \<Rightarrow> StatusCode set" where
  "os_errs s = (if smooth s then {} else {kIoError})"

lemma os_errs_tail: "sched_tail s s' \<Longrightarrow> os_errs s' \<subseteq> os_errs s"
  by (auto simp: os_errs_def dest: sched_tail_smooth)

lemma io_errs_os_errs: "io_errs s \<subseteq> os_errs s"
  by (auto simp: os_errs_def io_errs_def smooth_gentle)

lemma io_errs_tail: "sched_tail s s' \<Longrightarrow> io_errs s' \<subseteq> io_errs s"
  by (auto simp: io_errs_def dest: sched_tail_gentle)

lemma readsD:
  assumes "reads s res s' Q E"
  shows "quiet s s'" and "sched_tail s s'" and "statusor_inv res"
    and "so_opt res = Some v \<Longrightarrow> Q v" and "so_opt res = None \<Longrightarrow> st_code (so_status res) \<in> E"
  using assms by (auto simp: reads_def)

lemma reads_value: "quiet s s' \<Longrightarrow> sched_tail s s' \<Longrightarrow> Q v \<Longrightarrow> reads s (StatusOr_value v) s' Q E"
  by (simp add: reads_def)

lemma reads_error:
  "quiet s s' \<Longrightarrow> sched_tail s s' \<Longrightarrow> c \<noteq> kOk \<Longrightarrow> c \<in> E \<Longrightarrow>
     reads s (StatusOr_error (mk_Status c m)) s' Q E"
  by (simp add: reads_def)

text \<open>An error passed on unchanged, as in \<open>return result.status();\<close>.\<close>

lemma reads_pass_error:
  "reads s r s' Q E \<Longrightarrow> so_opt r = None \<Longrightarrow> E \<subseteq> E' \<Longrightarrow>
     reads s (StatusOr_error (so_status r)) s' Q' E'"
  by (auto simp: reads_def statusor_inv_def so_ok_def StatusOr_error_status)

lemma reads_after:
  "quiet s s1 \<Longrightarrow> sched_tail s s1 \<Longrightarrow> reads s1 res s' Q E \<Longrightarrow> E \<subseteq> E' \<Longrightarrow> reads s res s' Q E'"
  by (auto simp: reads_def dest: quiet_trans sched_tail_trans split: option.splits)

text \<open>A successful read returns a prefix of what the file holds there, empty only at its end.\<close>

lemma PreadSome_loop_reads:
  assumes "PreadSome_loop P fd n off s = (res, s')" and "fd_top fd (OFile i pos) t s"
  shows "reads s res s' (\<lambda>bs. front_of bs (take n (drop (unat off) (fs_data (fsys s) i)))) (io_errs s)"
  using assms
proof (induction P fd n off s rule: PreadSome_loop.induct)
  case (1 P fd n off s)
  obtain r bs s1 where p: "sys_pread fd n (unat off) s = ((r, bs), s1)" by (metis surj_pair)
  note f = sys_pread_frame [OF p 1(3)]
  have top: "fd_top fd (OFile i pos) t s1" using f 1(3) quiet_fd_top by blast
  show ?case
  proof (cases "r < 0 \<and> os_errno s1 = EINTR")
    case True
    with 1(2) p have rec: "PreadSome_loop P fd n off s1 = (res, s')"
      by (simp add: PreadSome_loop.simps [of P fd n off s])
    have "fsys s1 = fsys s" using f by (simp add: quiet_def)
    with "1.IH" [OF p [symmetric] refl True rec top] f show ?thesis
      by (metis reads_after io_errs_tail)
  next
    case False
    with 1(2) p f sys_pread_gentle [OF p 1(3)] show ?thesis
      by (auto simp: PreadSome_loop.simps [of P fd n off s] io_errs_def
          intro!: reads_value reads_error split: if_splits)
  qed
qed

lemma PreadSome_reads:
  assumes "PreadSome P fd n off s = (res, s')" and "fd_top fd (OFile i pos) t s"
    and "off \<le> off_t_max"
  shows "reads s res s' (\<lambda>bs. front_of bs (take n (drop (unat off) (fs_data (fsys s) i)))) (io_errs s)"
proof -
  have "PreadSome_loop P fd n off s = (res, s')" using assms(1) leD [OF assms(3)] by (simp add: PreadSome_def)
  then show ?thesis using assms(2) by (rule PreadSome_loop_reads)
qed

text \<open>On any descriptor, no more bytes come back than were asked for.\<close>

lemma PreadSome_loop_length:
  "PreadSome_loop P fd n off s = (res, s') \<Longrightarrow> so_opt res = Some bs \<Longrightarrow> length bs \<le> n"
proof (induction P fd n off s rule: PreadSome_loop.induct)
  case (1 P fd n off s)
  obtain r b s1 where p: "sys_pread fd n (unat off) s = ((r, b), s1)" by (metis surj_pair)
  then have "length b \<le> n"
    by (auto simp: sys_pread_def cut_def Let_def split: prod.splits outcome.splits option.splits ofile.splits)
  with 1 p show ?case
    by (auto simp: PreadSome_loop.simps [of P fd n off s] split: if_splits)
qed

lemma PreadSome_length:
  "PreadSome P fd n off s = (res, s') \<Longrightarrow> so_opt res = Some bs \<Longrightarrow> length bs \<le> n"
  by (auto simp: PreadSome_def dest: PreadSome_loop_length split: if_splits)

end
