(* ===== verification/Chunk_Format.thy ===== *)
theory Chunk_Format
  imports Store_Io
begin

text \<open>
  The persistent format of a chunk (\<open>src/storage/worker/file_chunk_store.cpp\<close>): a header of 80
  bytes (magic, payload size in little-endian order, BLAKE3 digest in hexadecimal) followed by
  the payload, and the file name a chunk identifier is encoded to. Shown here: the header
  decodes to what was encoded, the header's decoder accepts nothing but well-formed files, and
  file names are injective in the identifier and stay inside the storage root.
\<close>

section \<open>Definitions\<close>

definition kMagic :: "byte list" where
  "kMagic = bytes_of_string ''STCHV1'' @ [0, 0]"

definition kChecksumLength :: nat where
  "kChecksumLength = 64"

definition kHeaderSize :: nat where
  "kHeaderSize = length kMagic + 8 + kChecksumLength"

definition kBufferSize :: nat where
  "kBufferSize = 3 * 1024 * 1024"

definition size_bytes :: "u64 \<Rightarrow> byte list" where
  "size_bytes sz = map (\<lambda>index. ucast (drop_bit (index * 8) sz AND 0xff)) [0..<8]"

text \<open>\<open>memcpy\<close> takes 64 characters; callers have validated that there are exactly that many.\<close>

definition MakeHeader :: "u64 \<Rightarrow> Checksum \<Rightarrow> byte list" where
  "MakeHeader sz checksum =
     kMagic @ size_bytes sz @ take kChecksumLength (bytes_of_string (checksum_value checksum))"

text \<open>The two fields \<open>ReadHeader\<close> decodes from the 80 bytes.\<close>

definition header_size :: "byte list \<Rightarrow> u64" where
  "header_size header =
     foldl (\<lambda>size index. size OR push_bit (index * 8) (ucast (header ! (length kMagic + index))))
       0 [0..<8]"

definition header_checksum :: "byte list \<Rightarrow> Checksum" where
  "header_checksum header =
     \<lparr>algorithm = kBlake3,
      checksum_value = string_of_bytes (take kChecksumLength (drop (length kMagic + 8) header))\<rparr>"

function ReadHeader_loop :: "'h platform \<Rightarrow> int \<Rightarrow> byte list \<Rightarrow> os \<Rightarrow> byte list StatusOr \<times> os" where
  "ReadHeader_loop P fd header s =
     (if length header < kHeaderSize then
        (case PreadSome P fd (kHeaderSize - length header) (word_of_nat (length header)) s of
           (result, s') \<Rightarrow>
             (case so_opt result of
                None \<Rightarrow> (StatusOr_error (so_status result), s')
              | Some bytes \<Rightarrow>
                  if bytes = []
                  then (StatusOr_error (mk_Status kCorruption ''truncated chunk header''), s')
                  else ReadHeader_loop P fd (header @ bytes) s'))
      else (StatusOr_value header, s))"
  by pat_completeness auto
termination
  by (relation "measure (\<lambda>(P, fd, header, s). kHeaderSize - length header)")
    (auto intro!: diff_less_mono2 simp: length_greater_0_conv [symmetric] simp del: length_greater_0_conv)

definition ReadHeader :: "'h platform \<Rightarrow> int \<Rightarrow> ChunkId \<Rightarrow> os \<Rightarrow> HeadChunkResponse StatusOr \<times> os" where
  "ReadHeader P fd chunk_id s =
     (case ReadHeader_loop P fd [] s of (result, s) \<Rightarrow>
        (case so_opt result of
           None \<Rightarrow> (StatusOr_error (so_status result), s)
         | Some header \<Rightarrow>
             if take (length kMagic) header \<noteq> kMagic
             then (StatusOr_error (mk_Status kCorruption ''invalid chunk file magic''), s)
             else let size = header_size header; checksum = header_checksum header in
               if \<not> status_ok (ValidateChecksum checksum)
               then (StatusOr_error (mk_Status kCorruption ''invalid persisted checksum''), s)
               else (case sys_fstat fd s of ((rc, st_size), s) \<Rightarrow>
                 if rc \<noteq> 0
                 then (StatusOr_error
                         (mk_Status kIoError (''fstat failed: '' @ strerror P (os_errno s))), s)
                 else if size > - 1 - word_of_nat kHeaderSize \<or> st_size < 0 \<or>
                         (word_of_int st_size :: u64) \<noteq> size + word_of_nat kHeaderSize
                 then (StatusOr_error
                         (mk_Status kCorruption ''chunk file size does not match header''), s)
                 else (StatusOr_value
                         \<lparr>resp_chunk_id = chunk_id, resp_size = size, resp_checksum = checksum\<rparr>, s))))"

definition FinalizeHex :: "'h platform \<Rightarrow> 'h \<Rightarrow> string" where
  "FinalizeHex P hasher = hex_bytes (b3_finalize P hasher BLAKE3_OUT_LEN)"

record FileChunkStore =
  store_root :: path

definition ValidateId :: "ChunkId \<Rightarrow> Status" where
  "ValidateId chunk_id =
     (if \<not> ChunkId_valid chunk_id then mk_Status kInvalidArgument ''chunk_id cannot be empty''
      else if length (chunk_id_value chunk_id) > 1024
      then mk_Status kInvalidArgument ''chunk_id is too long''
      else Status_Ok)"

definition PathFor :: "FileChunkStore \<Rightarrow> ChunkId \<Rightarrow> path" where
  "PathFor store chunk_id =
     (let encoded = hex_bytes (bytes_of_string (chunk_id_value chunk_id))
      in path_append (store_root store) (encoded @ ''.chunk''))"

declare ReadHeader_loop.simps [simp del]

text \<open>
  What a whole file must look like for \<open>ReadHeader\<close> to accept it, as one function of its
  contents: the reference the reading loop is compared with.
\<close>

definition parse_chunk :: "byte list \<Rightarrow> (u64 \<times> Checksum) option" where
  "parse_chunk d =
     (if kHeaderSize \<le> length d \<and> take (length kMagic) d = kMagic \<and>
         status_ok (ValidateChecksum (header_checksum d)) \<and>
         length d = unat (header_size d) + kHeaderSize
      then Some (header_size d, header_checksum d) else None)"

section \<open>The header round trip\<close>

lemma length_kMagic [simp]: "length kMagic = 8"
  by (simp add: kMagic_def)

lemma kHeaderSize_eq: "kHeaderSize = 80"
  by (simp add: kHeaderSize_def kChecksumLength_def)

lemma length_size_bytes [simp]: "length (size_bytes n) = 8"
  by (simp add: size_bytes_def)

lemma length_MakeHeader:
  "length (checksum_value c) = 64 \<Longrightarrow> length (MakeHeader n c) = kHeaderSize"
  by (simp add: MakeHeader_def kHeaderSize_eq kChecksumLength_def)

text \<open>Reading the little-endian bytes back one by one builds up the low bits of the size.\<close>

lemma ucast_low_byte: "(ucast (ucast ((x :: u64) AND 0xff) :: byte) :: u64) = take_bit 8 x"
proof -
  have "x AND 0xff = take_bit 8 x"
    by (simp add: take_bit_eq_mask mask_eq_exp_minus_1)
  moreover have "(ucast (ucast (take_bit 8 x) :: byte) :: u64) = take_bit 8 x"
    by (rule bit_word_eqI) (auto simp: bit_simps)
  ultimately show ?thesis by simp
qed

lemma take_bit_or_next_byte:
  "take_bit (8 * k) (n :: u64) OR push_bit (8 * k) (take_bit 8 (drop_bit (8 * k) n)) =
   take_bit (8 * Suc k) n"
  by (rule bit_word_eqI) (auto simp: bit_simps)

lemma foldl_size_bytes:
  "foldl (\<lambda>sz k. sz OR push_bit (k * 8) (ucast (ucast (drop_bit (k * 8) n AND 0xff) :: byte)))
     0 [0..<m] = take_bit (8 * m) (n :: u64)"
proof (induction m)
  case 0
  show ?case by simp
next
  case (Suc m)
  then show ?case
    using take_bit_or_next_byte [of m n] by (simp add: ucast_low_byte mult.commute)
qed

lemma header_size_MakeHeader: "header_size (MakeHeader n c @ rest) = n"
proof -
  have nth: "(MakeHeader n c @ rest) ! (8 + k) = ucast (drop_bit (k * 8) n AND 0xff)" if "k < 8" for k
    using that by (simp add: MakeHeader_def nth_append size_bytes_def)
  have "header_size (MakeHeader n c @ rest) =
      foldl (\<lambda>sz k. sz OR push_bit (k * 8) (ucast (ucast (drop_bit (k * 8) n AND 0xff) :: byte)))
       0 [0..<8]"
    unfolding header_size_def length_kMagic
    by (rule foldl_cong) (auto simp: nth)
  also have "\<dots> = n"
    unfolding foldl_size_bytes by (simp add: take_bit_word_eq_self)
  finally show ?thesis .
qed

lemma header_checksum_MakeHeader:
  assumes "length (checksum_value c) = 64"
  shows "header_checksum (MakeHeader n c @ rest) = \<lparr>algorithm = kBlake3, checksum_value = checksum_value c\<rparr>"
  using assms by (simp add: header_checksum_def MakeHeader_def kChecksumLength_def)

lemma magic_MakeHeader: "take (length kMagic) (MakeHeader n c @ rest) = kMagic"
  by (simp add: MakeHeader_def)

section \<open>ReadHeader\<close>

lemma sys_fstat_frame:
  assumes "sys_fstat fd s = ((rc, n), s')" and "fd_top fd (OFile i pos) t s"
  shows "quiet s s' \<and> sched_tail s s' \<and> (rc = 0 \<longrightarrow> n = int (length (fs_data (fsys s) i))) \<and>
         (smooth s \<longrightarrow> rc = 0)"
proof -
  obtain x s1 where n: "next_outcome s = (x, s1)" by fastforce
  have q: "quiet s s1" by (rule quiet_next_outcome [OF n])
  have "map_of (fds s1) fd = Some (OFile i pos)"
    using assms(2) q by (auto simp: quiet_def dest: fd_top_lookup)
  with assms(1) n q sched_tail_next [OF n] smooth_next [OF n] show ?thesis
    by (auto simp: sys_fstat_def quiet_def smooth_outcome_def sched_tail_def split: outcome.splits)
qed

text \<open>
  The reading loop gathers the first 80 bytes of the file, in as many reads as it takes.
\<close>

definition header_errs :: "byte list \<Rightarrow> os \<Rightarrow> StatusCode set" where
  "header_errs d s = io_errs s \<union> (if kHeaderSize \<le> length d then {} else {kCorruption})"

lemma take_append_front:
  assumes "front_of bs (take m (drop k d))" and "k \<le> length d"
  shows "take k d @ bs = take (k + length bs) d" and "k + length bs \<le> length d" and "length bs \<le> m"
proof -
  obtain rest where r: "take m (drop k d) = bs @ rest" using assms(1) by (auto simp: front_of_def)
  then have "bs = take (length bs) (take m (drop k d))" by simp
  moreover have l: "length bs \<le> length (take m (drop k d))" using r by simp
  ultimately have "bs = take (length bs) (drop k d)" by (simp add: min_def split: if_splits)
  then show "take k d @ bs = take (k + length bs) d" by (metis take_add)
  show "k + length bs \<le> length d" "length bs \<le> m" using l assms(2) by auto
qed

lemma ReadHeader_loop_reads:
  assumes "ReadHeader_loop P fd (take k d) s = (res, s')" and "fd_top fd (OFile i pos) t s"
    and "fs_data (fsys s) i = d" and "k \<le> length d" and "k \<le> kHeaderSize"
  shows "reads s res s' (\<lambda>h. kHeaderSize \<le> length d \<and> h = take kHeaderSize d) (header_errs d s)"
  using assms
proof (induction "kHeaderSize - k" arbitrary: k s rule: less_induct)
  case less
  have len: "length (take k d) = k" using less.prems by simp
  note unf = ReadHeader_loop.simps [of P fd "take k d" s, unfolded len]
  show ?case
  proof (cases "k < kHeaderSize")
    case False
    with less.prems show ?thesis by (auto simp: unf intro!: reads_value)
  next
    case True
    have off: "unat (word_of_nat k :: u64) = k" "(word_of_nat k :: u64) \<le> off_t_max"
      using True by (simp_all add: kHeaderSize_eq unat_of_nat_u64 off_t_max_def word_le_nat_alt)
    obtain r s1 where p: "PreadSome P fd (kHeaderSize - k) (word_of_nat k) s = (r, s1)" by fastforce
    note f = PreadSome_reads [OF p less.prems(2) off(2), unfolded off(1) less.prems(3)]
    show ?thesis
    proof (cases "so_opt r")
      case None
      with True p less.prems(1) have "res = StatusOr_error (so_status r)" "s' = s1"
        by (simp_all add: unf)
      then show ?thesis by (auto intro!: reads_pass_error [OF f None] simp: header_errs_def)
    next
      case (Some bs)
      note fo = readsD(4) [OF f Some]
      show ?thesis
      proof (cases "bs = []")
        case Nil: True
        with fo have "length d \<le> k" using \<open>k < kHeaderSize\<close> by (auto simp: front_of_def)
        moreover have "res = StatusOr_error (mk_Status kCorruption ''truncated chunk header'')" "s' = s1"
          using True p less.prems(1) Some Nil by (simp_all add: unf)
        ultimately show ?thesis
          using True readsD(1,2) [OF f] by (auto intro!: reads_error simp: header_errs_def)
      next
        case False
        note bs = take_append_front [OF fo less.prems(4)]
        have rec: "ReadHeader_loop P fd (take (k + length bs) d) s1 = (res, s')"
          using less.prems(1) True p Some False by (simp add: unf bs(1))
        have q: "fsys s1 = fsys s" "fd_top fd (OFile i pos) t s1"
          using readsD(1) [OF f] less.prems(2) by (auto simp: quiet_def fd_top_def)
        have "reads s1 res s' (\<lambda>h. kHeaderSize \<le> length d \<and> h = take kHeaderSize d) (header_errs d s1)"
        proof (rule less.hyps [OF _ rec q(2)])
          show "kHeaderSize - (k + length bs) < kHeaderSize - k" using False True by (cases bs) auto
          show "fs_data (fsys s1) i = d" using q(1) less.prems(3) by simp
          show "k + length bs \<le> length d" by (rule bs(2))
          show "k + length bs \<le> kHeaderSize" using bs(3) True by simp
        qed
        moreover have "header_errs d s1 \<subseteq> header_errs d s"
          using io_errs_tail [OF readsD(2) [OF f]] by (auto simp: header_errs_def)
        ultimately show ?thesis by (rule reads_after [OF readsD(1,2) [OF f]])
      qed
    qed
  qed
qed

lemma header_fields_take:
  assumes "kHeaderSize \<le> length d"
  shows "header_size (take kHeaderSize d) = header_size d"
    and "header_checksum (take kHeaderSize d) = header_checksum d"
    and "take (length kMagic) (take kHeaderSize d) = take (length kMagic) d"
proof -
  show "header_size (take kHeaderSize d) = header_size d"
    unfolding header_size_def by (rule foldl_cong) (simp_all add: kHeaderSize_eq)
  show "header_checksum (take kHeaderSize d) = header_checksum d"
    by (simp add: header_checksum_def kHeaderSize_eq kChecksumLength_def drop_take)
  show "take (length kMagic) (take kHeaderSize d) = take (length kMagic) d"
    by (simp add: kHeaderSize_eq)
qed

text \<open>The comparison of the file size in 64 bits is exact for sizes an \<open>off_t\<close> can hold.\<close>

lemma size_check_exact:
  assumes "n < 2 ^ 63"
  shows "(sz > - 1 - word_of_nat kHeaderSize \<or> int n < 0 \<or>
          (word_of_int (int n) :: u64) \<noteq> sz + word_of_nat kHeaderSize) \<longleftrightarrow> n \<noteq> unat sz + kHeaderSize"
proof -
  have k: "unat (word_of_nat kHeaderSize :: u64) = 80" by (simp add: kHeaderSize_eq)
  have m: "unat (- 1 - word_of_nat kHeaderSize :: u64) = 2 ^ 64 - 81"
    by (simp add: kHeaderSize_eq)
  have n: "unat (word_of_nat n :: u64) = n" using assms by (simp add: unat_of_nat_u64)
  show ?thesis
  proof (cases "unat sz > 2 ^ 64 - 81")
    case True
    then have "sz > - 1 - word_of_nat kHeaderSize" using m by (simp add: word_less_nat_alt)
    moreover have "n \<noteq> unat sz + kHeaderSize" using True assms by simp
    ultimately show ?thesis by simp
  next
    case False
    then have "\<not> sz > - 1 - word_of_nat kHeaderSize" using m by (simp add: word_less_nat_alt)
    moreover have "unat (sz + word_of_nat kHeaderSize) = unat sz + 80"
      using False k by (simp add: unat_word_ariths)
    ultimately show ?thesis
      using n by (simp add: word_unat_eq_iff kHeaderSize_eq)
  qed
qed

definition file_errs :: "byte list \<Rightarrow> os \<Rightarrow> StatusCode set" where
  "file_errs d s = os_errs s \<union> (if parse_chunk d = None then {kCorruption} else {})"

lemma ReadHeader_reads:
  assumes rh: "ReadHeader P fd cid s = (res, s')" and top: "fd_top fd (OFile i pos) t s"
    and d: "fs_data (fsys s) i = d" and len: "length d < 2 ^ 63"
  shows "reads s res s'
           (\<lambda>r. parse_chunk d = Some (resp_size r, resp_checksum r) \<and> resp_chunk_id r = cid)
           (file_errs d s)"
proof -
  obtain h s1 where l: "ReadHeader_loop P fd [] s = (h, s1)" by fastforce
  have r1: "reads s h s1 (\<lambda>x. kHeaderSize \<le> length d \<and> x = take kHeaderSize d) (header_errs d s)"
    by (rule ReadHeader_loop_reads [where k = 0, OF _ top d]) (use l in simp_all)
  have sub: "header_errs d s \<subseteq> file_errs d s"
    using io_errs_os_errs [of s] by (auto simp: header_errs_def file_errs_def parse_chunk_def)
  show ?thesis
  proof (cases "so_opt h")
    case None
    then have "res = StatusOr_error (so_status h)" "s' = s1"
      using rh l by (simp_all add: ReadHeader_def)
    with reads_pass_error [OF r1 None sub] show ?thesis by blast
  next
    case (Some x)
    note x = readsD(4) [OF r1 Some]
    note q = readsD(1,2) [OF r1]
    have top1: "fd_top fd (OFile i pos) t s1" and d1: "fs_data (fsys s1) i = d"
      using top d q(1) by (simp_all add: quiet_def fd_top_def)
    obtain rc n s2 where st: "sys_fstat fd s1 = ((rc, n), s2)" by (metis surj_pair)
    note f = sys_fstat_frame [OF st top1]
    have q2: "quiet s s2" "sched_tail s s2"
      using q f quiet_trans sched_tail_trans by blast+
    have sm: "rc \<noteq> 0 \<Longrightarrow> \<not> smooth s" using f q sched_tail_smooth by blast
    have n: "rc = 0 \<Longrightarrow> n = int (length d)" using f d1 by simp
    note hf = header_fields_take [OF conjunct1 [OF x]]
    have rh': "(if take 8 d \<noteq> kMagic
         then (StatusOr_error (mk_Status kCorruption ''invalid chunk file magic''), s1)
         else if \<not> status_ok (ValidateChecksum (header_checksum d))
         then (StatusOr_error (mk_Status kCorruption ''invalid persisted checksum''), s1)
         else if rc \<noteq> 0
         then (StatusOr_error (mk_Status kIoError (''fstat failed: '' @ strerror P (os_errno s2))), s2)
         else if length d \<noteq> unat (header_size d) + kHeaderSize
         then (StatusOr_error (mk_Status kCorruption ''chunk file size does not match header''), s2)
         else (StatusOr_value \<lparr>resp_chunk_id = cid, resp_size = header_size d,
                 resp_checksum = header_checksum d\<rparr>, s2)) = (res, s')"
    proof (cases "rc = 0")
      case True
      note sz = size_check_exact [OF len, of "header_size d", folded n [OF True]]
      show ?thesis
        using rh l Some x hf st True by (auto simp: ReadHeader_def Let_def sz split: if_splits)
    next
      case False
      then show ?thesis
        using rh l Some x hf st by (auto simp: ReadHeader_def Let_def split: if_splits)
    qed
    show ?thesis
      using rh' x q q2 sm unfolding file_errs_def os_errs_def parse_chunk_def
      by (auto intro!: reads_error reads_value split: if_splits)
  qed
qed

section \<open>Encoding of whole chunks\<close>

text \<open>A chunk file as \<open>Put\<close> writes it, and what it parses to.\<close>

definition chunk_bytes :: "Checksum \<Rightarrow> byte list \<Rightarrow> byte list" where
  "chunk_bytes c payload = MakeHeader (word_of_nat (length payload)) c @ payload"

lemma length_chunk_bytes:
  "length (checksum_value c) = 64 \<Longrightarrow> length (chunk_bytes c payload) = kHeaderSize + length payload"
  by (simp add: chunk_bytes_def length_MakeHeader)

lemma drop_chunk_bytes:
  "length (checksum_value c) = 64 \<Longrightarrow> drop kHeaderSize (chunk_bytes c payload) = payload"
  by (simp add: chunk_bytes_def length_MakeHeader)

lemma checksum_eta: "\<lparr>algorithm = kBlake3, checksum_value = checksum_value c\<rparr> = (c :: Checksum)"
  by (cases c) (metis (full_types) Checksum.surjective Checksum.select_convs ChecksumAlgorithm.exhaust old.unit.exhaust)

lemma parse_chunk_bytes:
  assumes "status_ok (ValidateChecksum c)" and "length payload < 2 ^ 64"
  shows "parse_chunk (chunk_bytes c payload) = Some (word_of_nat (length payload), c)"
proof -
  have len: "length (checksum_value c) = 64"
    using assms(1) by (simp add: ValidateChecksum_ok_iff)
  show ?thesis
    using assms len length_chunk_bytes [OF len, of payload]
    by (simp add: parse_chunk_def chunk_bytes_def header_size_MakeHeader header_checksum_MakeHeader
        magic_MakeHeader [unfolded length_kMagic] checksum_eta unat_of_nat_u64 add.commute del: take_append)
qed

section \<open>File names\<close>

text \<open>The characters of the hexadecimal alphabet, of the suffix and of decimal numbers are no slashes.\<close>

lemma lower_hex_not_slash: "is_lower_hex c \<Longrightarrow> c \<noteq> slash"
  by (auto simp: is_lower_hex_def is_digit_def slash_def)

lemma digit_not_slash: "is_digit c \<Longrightarrow> c \<noteq> slash"
  by (auto simp: is_digit_def slash_def)

definition chunk_filename :: "ChunkId \<Rightarrow> string" where
  "chunk_filename cid = hex_bytes (bytes_of_string (chunk_id_value cid)) @ ''.chunk''"

lemma PathFor_filename: "PathFor store cid = path_append (store_root store) (chunk_filename cid)"
  by (simp add: PathFor_def chunk_filename_def)

lemma chunk_filename_no_slash: "slash \<notin> set (chunk_filename cid)"
  using hex_bytes_lower_hex [of "bytes_of_string (chunk_id_value cid)"]
  by (auto simp: chunk_filename_def slash_def dest: lower_hex_not_slash [unfolded slash_def])

lemma length_chunk_filename: "length (chunk_filename cid) = 2 * length (chunk_id_value cid) + 6"
  by (simp add: chunk_filename_def)

lemma path_filename_PathFor [simp]: "path_filename (PathFor store cid) = chunk_filename cid"
  by (simp add: PathFor_filename path_filename_append chunk_filename_no_slash)

lemma PathFor_in_dir: "in_dir (store_root store) (PathFor store cid)"
  unfolding PathFor_filename
  by (rule in_dir_append [OF chunk_filename_no_slash]) (simp add: chunk_filename_def)

lemma PathFor_inj: "PathFor store a = PathFor store b \<Longrightarrow> a = b"
proof -
  assume "PathFor store a = PathFor store b"
  then have "chunk_filename a = chunk_filename b" by (metis path_filename_PathFor)
  then have "bytes_of_string (chunk_id_value a) = bytes_of_string (chunk_id_value b)"
    by (auto simp: chunk_filename_def intro: hex_bytes_inj)
  then have "chunk_id_value a = chunk_id_value b" by (metis string_of_bytes_of_string)
  then show "a = b" by simp
qed

end
