(* ===== verification/File_Chunk_Store.thy ===== *)
theory File_Chunk_Store
  imports Chunk_Format
begin

text \<open>
  The operations of \<open>FileChunkStore\<close> (\<open>src/storage/worker/file_chunk_store.cpp\<close>), the worker's
  only store of chunks, over the stream interfaces of
  \<open>include/storage/storage/worker/streams.h\<close> and the abstract class of
  \<open>include/storage/storage/worker/chunk_store.h\<close>. This theory holds the definitions; the
  theories on reading, writing and the store contract prove their properties.

  The virtual functions of a stream are the fields of a record; the stream's own state is
  passed along. A successful read of an input stream returns the bytes it placed at the front
  of the buffer, so their number is the returned count.
\<close>

section \<open>Streams and the store interface\<close>

record 's ChunkInputStream =
  in_read :: "'s \<Rightarrow> nat \<Rightarrow> byte list StatusOr \<times> 's"
  in_address :: u64

record 'o ChunkOutputStream =
  out_write :: "'o \<Rightarrow> byte list \<Rightarrow> Status \<times> 'o"

record ('s, 'o, 'w) ChunkStore =
  cs_Put :: "PutChunkRequest \<Rightarrow> 's ChunkInputStream \<Rightarrow> 's \<Rightarrow> 'w \<Rightarrow> Status \<times> 's \<times> 'w"
  cs_Get :: "GetChunkRequest \<Rightarrow> 'o ChunkOutputStream \<Rightarrow> 'o \<Rightarrow> 'w \<Rightarrow> Status \<times> 'o \<times> 'w"
  cs_Head :: "ChunkId \<Rightarrow> 'w \<Rightarrow> HeadChunkResponse StatusOr \<times> 'w"
  cs_Delete :: "ChunkId \<Rightarrow> 'w \<Rightarrow> Status \<times> 'w"
  cs_Size :: "ChunkId \<Rightarrow> 'w \<Rightarrow> u64 StatusOr \<times> 'w"
  cs_Exists :: "ChunkId \<Rightarrow> 'w \<Rightarrow> bool \<times> 'w"

section \<open>Put\<close>

text \<open>The temporary name beside the final one: process id and address of the input stream.\<close>

definition temp_filename :: "'h platform \<Rightarrow> u64 \<Rightarrow> path \<Rightarrow> string" where
  "temp_filename P addr final_path =
     path_filename final_path @ ''.tmp.'' @ to_string_nat (getpid P) @ ''.'' @ to_string_nat (unat addr)"

definition cleanup :: "path \<Rightarrow> os \<Rightarrow> os" where
  "cleanup temp_path s = snd (sys_unlink temp_path s)"

lemma put_loop_decreases:
  fixes e r :: u64
  assumes "n > 0" and "n \<le> kBufferSize" and "\<not> word_of_nat n > e - r"
  shows "unat (e - (r + word_of_nat n)) < unat (e - r)"
proof -
  have n: "unat (word_of_nat n :: u64) = n"
    using assms(2) by (intro unat_of_nat_u64) (simp add: kBufferSize_def)
  have "unat ((e - r) - word_of_nat n) = unat (e - r) - unat (word_of_nat n :: u64)"
    by (rule unat_sub) (use assms(3) in simp)
  then have "unat (e - (r + word_of_nat n)) = unat (e - r) - n"
    using n by (simp add: diff_diff_eq)
  moreover have "n \<le> unat (e - r)"
    using assms(3) n by (simp add: word_less_nat_alt)
  ultimately show ?thesis using assms(1) by simp
qed

text \<open>
  The receive loop. Leaving it early yields the status to return (\<open>Inl\<close>), after \<open>cleanup\<close>;
  end of input yields the byte count and the hasher (\<open>Inr\<close>).
\<close>

function put_loop ::
  "'h platform \<Rightarrow> 's ChunkInputStream \<Rightarrow> path \<Rightarrow> int \<Rightarrow> u64 \<Rightarrow> u64 \<Rightarrow> 'h \<Rightarrow> 's \<Rightarrow> os \<Rightarrow>
     (Status + u64 \<times> 'h) \<times> 's \<times> os" where
  "put_loop P I temp_path fd expected received hasher inp s =
     (case in_read I inp kBufferSize of (count, inp') \<Rightarrow>
        (case so_opt count of
           None \<Rightarrow> (Inl (so_status count), inp', cleanup temp_path s)
         | Some bytes \<Rightarrow>
             if bytes = [] then (Inr (received, hasher), inp', s)
             else if length bytes > kBufferSize \<or> received > expected \<or>
                     word_of_nat (length bytes) > expected - received
             then (Inl (mk_Status kCorruption ''received more bytes than expected''), inp',
                   cleanup temp_path s)
             else (case WriteAll P fd bytes s of (status, s') \<Rightarrow>
                     if \<not> status_ok status then (Inl status, inp', cleanup temp_path s')
                     else put_loop P I temp_path fd expected
                            (received + word_of_nat (length bytes)) (b3_update P hasher bytes) inp' s')))"
  by pat_completeness auto
termination
  by (relation "measure (\<lambda>(P, I, temp_path, fd, expected, received, hasher, inp, s).
        unat (expected - received))")
    (auto intro: put_loop_decreases)

declare put_loop.simps [simp del]

text \<open>
  Everything after the loop: verification, synchronisation, commit by hard link. \<open>put_publish\<close>
  is the part after a successful \<open>link\<close>, which makes the new name durable.
\<close>

definition put_publish ::
  "'h platform \<Rightarrow> FileChunkStore \<Rightarrow> path \<Rightarrow> os \<Rightarrow> Status \<times> os" where
  "put_publish P store temp_path s =
     (let s = cleanup temp_path s in
       (case sys_open_dir (store_root store) s of (raw, s) \<Rightarrow>
         (let directory_fd = ufd_make raw in
           (case (if \<not> ufd_valid directory_fd then (True, s)
                  else (case sys_fsync_dir (ufd_get directory_fd) s of (rc, s) \<Rightarrow> (rc \<noteq> 0, s))) of
              (failed, s) \<Rightarrow>
                if failed
                then (IoError P ''fsync directory'' (store_root store) s, ufd_destroy directory_fd s)
                else (Status_Ok, ufd_destroy directory_fd s)))))"

definition put_commit ::
  "'h platform \<Rightarrow> FileChunkStore \<Rightarrow> PutChunkRequest \<Rightarrow> path \<Rightarrow> path \<Rightarrow> UniqueFd \<Rightarrow> u64 \<Rightarrow> 'h \<Rightarrow> os \<Rightarrow>
     Status \<times> os" where
  "put_commit P store request temp_path final_path fd received hasher s =
     (if received \<noteq> expected_size request
      then (mk_Status kCorruption ''received byte count does not match expected_size'',
            ufd_destroy fd (cleanup temp_path s))
      else if FinalizeHex P hasher \<noteq> checksum_value (expected_checksum request)
      then (mk_Status kCorruption ''BLAKE3 checksum mismatch'',
            ufd_destroy fd (cleanup temp_path s))
      else (case sys_fdatasync (ufd_get fd) s of (rc, s) \<Rightarrow>
        if rc \<noteq> 0
        then (let status = IoError P ''fdatasync'' temp_path s
              in (status, ufd_destroy fd (cleanup temp_path s)))
        else (case ufd_reset fd (-1) s of (fd, s) \<Rightarrow>
          (case sys_link temp_path final_path s of (rc, s) \<Rightarrow>
            if rc \<noteq> 0
            then (let link_error = os_errno s; s = cleanup temp_path s
                  in if link_error = EEXIST
                     then (mk_Status kAlreadyExists
                             (''chunk already exists: '' @ chunk_id_value (put_chunk_id request)),
                           ufd_destroy fd s)
                     else (let s = s\<lparr>os_errno := link_error\<rparr>
                           in (IoError P ''commit'' final_path s, ufd_destroy fd s)))
            else (case put_publish P store temp_path s of (status, s) \<Rightarrow>
                    (status, ufd_destroy fd s))))))"

definition FileChunkStore_Put ::
  "'h platform \<Rightarrow> FileChunkStore \<Rightarrow> PutChunkRequest \<Rightarrow> 's ChunkInputStream \<Rightarrow> 's \<Rightarrow> os \<Rightarrow>
     Status \<times> 's \<times> os" where
  "FileChunkStore_Put P store request I inp s =
     (if \<not> status_ok (ValidateId (put_chunk_id request))
      then (ValidateId (put_chunk_id request), inp, s)
      else if \<not> status_ok (ValidateChecksum (expected_checksum request))
      then (ValidateChecksum (expected_checksum request), inp, s)
      else (case create_directories (store_root store) s of
        (Some e, s) \<Rightarrow>
          (mk_Status kIoError (''create storage root failed: '' @ strerror P e), inp, s)
      | (None, s) \<Rightarrow>
          (let final_path = PathFor store (put_chunk_id request);
               temp_path = path_append (store_root store) (temp_filename P (in_address I) final_path)
           in (case sys_open_excl temp_path s of (raw, s) \<Rightarrow>
             (let fd = ufd_make raw in
               if \<not> ufd_valid fd
               then ((if os_errno s = EEXIST then mk_Status kUnavailable ''temporary file collision''
                      else IoError P ''create'' temp_path s), inp, ufd_destroy fd s)
               else (case WriteAll P (ufd_get fd)
                            (MakeHeader (expected_size request) (expected_checksum request)) s of
                 (status, s) \<Rightarrow>
                   if \<not> status_ok status
                   then (status, inp, ufd_destroy fd (cleanup temp_path s))
                   else (case put_loop P I temp_path (ufd_get fd) (expected_size request) 0
                                (b3_init P) inp s of
                     (Inl status, inp, s) \<Rightarrow> (status, inp, ufd_destroy fd s)
                   | (Inr (received, hasher), inp, s) \<Rightarrow>
                       (case put_commit P store request temp_path final_path fd received hasher s of
                          (status, s) \<Rightarrow> (status, inp, s)))))))))"

section \<open>Head, Get, Delete, Size, Exists\<close>

definition FileChunkStore_Head ::
  "'h platform \<Rightarrow> FileChunkStore \<Rightarrow> ChunkId \<Rightarrow> os \<Rightarrow> HeadChunkResponse StatusOr \<times> os" where
  "FileChunkStore_Head P store chunk_id s =
     (if \<not> status_ok (ValidateId chunk_id) then (StatusOr_error (ValidateId chunk_id), s)
      else (let path = PathFor store chunk_id in
        (case sys_open_rd path s of (raw, s) \<Rightarrow>
          (let fd = ufd_make raw in
            if \<not> ufd_valid fd
            then (StatusOr_error
                    (if os_errno s = ENOENT
                     then mk_Status kNotFound (''chunk not found: '' @ chunk_id_value chunk_id)
                     else IoError P ''open'' path s), ufd_destroy fd s)
            else (case ReadHeader P (ufd_get fd) chunk_id s of (res, s) \<Rightarrow>
                    (res, ufd_destroy fd s))))))"

lemma get_loop_decreases:
  fixes r :: u64
  assumes "n > 0" and "n \<le> min (unat r) kBufferSize"
  shows "unat (r - word_of_nat n) = unat r - n" and "unat (r - word_of_nat n) < unat r"
proof -
  have n: "unat (word_of_nat n :: u64) = n"
    using assms(2) by (intro unat_of_nat_u64) (simp add: kBufferSize_def)
  then have "word_of_nat n \<le> r" using assms(2) by (simp add: word_le_nat_alt)
  then show "unat (r - word_of_nat n) = unat r - n" using n by (simp add: unat_sub)
  then show "unat (r - word_of_nat n) < unat r" using assms by simp
qed

function get_loop ::
  "'h platform \<Rightarrow> 'o ChunkOutputStream \<Rightarrow> int \<Rightarrow> u64 \<Rightarrow> u64 \<Rightarrow> 'o \<Rightarrow> os \<Rightarrow> Status \<times> 'o \<times> os" where
  "get_loop P O' fd remaining offset out s =
     (if remaining > 0 then
        (case PreadSome P fd (min (unat remaining) kBufferSize) offset s of (count, s') \<Rightarrow>
           (case so_opt count of
              None \<Rightarrow> (so_status count, out, s')
            | Some bytes \<Rightarrow>
                if bytes = []
                then (mk_Status kCorruption ''unexpected EOF while reading chunk'', out, s')
                else (case out_write O' out bytes of (status, out') \<Rightarrow>
                        if \<not> status_ok status then (status, out', s')
                        else get_loop P O' fd (remaining - word_of_nat (length bytes))
                               (offset + word_of_nat (length bytes)) out' s')))
      else (Status_Ok, out, s))"
  by pat_completeness auto
termination
proof (relation "measure (\<lambda>(P, O', fd, remaining, offset, out, s). unat remaining)", goal_cases)
  case 1
  show ?case by simp
next
  case (2 P O' fd remaining offset out s count s' bytes)
  then have "length bytes \<le> min (unat remaining) kBufferSize"
    by (metis PreadSome_length)
  with 2 show ?case by (simp add: get_loop_decreases(2))
qed

declare get_loop.simps [simp del]

definition FileChunkStore_Get ::
  "'h platform \<Rightarrow> FileChunkStore \<Rightarrow> GetChunkRequest \<Rightarrow> 'o ChunkOutputStream \<Rightarrow> 'o \<Rightarrow> os \<Rightarrow>
     Status \<times> 'o \<times> os" where
  "FileChunkStore_Get P store request O' out s =
     (case FileChunkStore_Head P store (get_chunk_id request) s of (head, s) \<Rightarrow>
        (case so_opt head of
           None \<Rightarrow> (so_status head, out, s)
         | Some h \<Rightarrow>
             if \<not> status_ok (ValidateByteRange (get_range request) (resp_size h))
             then (ValidateByteRange (get_range request) (resp_size h), out, s)
             else (let path = PathFor store (get_chunk_id request) in
               (case sys_open_rd path s of (raw, s) \<Rightarrow>
                 (let fd = ufd_make raw in
                   if \<not> ufd_valid fd
                   then ((if os_errno s = ENOENT
                          then mk_Status kNotFound
                                 (''chunk not found: '' @ chunk_id_value (get_chunk_id request))
                          else IoError P ''open'' path s), out, ufd_destroy fd s)
                   else (case get_loop P O' (ufd_get fd) (range_size (get_range request))
                                (range_offset (get_range request) + word_of_nat kHeaderSize) out s of
                           (status, out, s) \<Rightarrow> (status, out, ufd_destroy fd s)))))))"

definition FileChunkStore_Delete ::
  "'h platform \<Rightarrow> FileChunkStore \<Rightarrow> ChunkId \<Rightarrow> os \<Rightarrow> Status \<times> os" where
  "FileChunkStore_Delete P store chunk_id s =
     (if \<not> status_ok (ValidateId chunk_id) then (ValidateId chunk_id, s)
      else (let path = PathFor store chunk_id in
        (case sys_unlink path s of (rc, s) \<Rightarrow>
          if rc \<noteq> 0
          then ((if os_errno s = ENOENT
                 then mk_Status kNotFound (''chunk not found: '' @ chunk_id_value chunk_id)
                 else IoError P ''delete'' path s), s)
          else (Status_Ok, s))))"

definition FileChunkStore_Size ::
  "'h platform \<Rightarrow> FileChunkStore \<Rightarrow> ChunkId \<Rightarrow> os \<Rightarrow> u64 StatusOr \<times> os" where
  "FileChunkStore_Size P store chunk_id s =
     (case FileChunkStore_Head P store chunk_id s of (head, s) \<Rightarrow>
        (case so_opt head of
           Some h \<Rightarrow> (StatusOr_value (resp_size h), s)
         | None \<Rightarrow> (StatusOr_error (so_status head), s)))"

definition FileChunkStore_Exists ::
  "'h platform \<Rightarrow> FileChunkStore \<Rightarrow> ChunkId \<Rightarrow> os \<Rightarrow> bool \<times> os" where
  "FileChunkStore_Exists P store chunk_id s =
     (case FileChunkStore_Head P store chunk_id s of (head, s) \<Rightarrow> (so_ok head, s))"

text \<open>The virtual function table of the store as a \<open>ChunkStore\<close>.\<close>

definition FileChunkStore_vtable ::
  "'h platform \<Rightarrow> FileChunkStore \<Rightarrow> ('s, 'o, os) ChunkStore" where
  "FileChunkStore_vtable P store =
     \<lparr>cs_Put = FileChunkStore_Put P store, cs_Get = FileChunkStore_Get P store,
      cs_Head = FileChunkStore_Head P store, cs_Delete = FileChunkStore_Delete P store,
      cs_Size = FileChunkStore_Size P store, cs_Exists = FileChunkStore_Exists P store\<rparr>"

end
