(* ===== verification/Store_Reading.thy ===== *)
theory Store_Reading
  imports File_Chunk_Store
begin

text \<open>
  Properties of the operations of the store that do not write: \<open>Head\<close>, \<open>Get\<close>, \<open>Size\<close> and
  \<open>Exists\<close>. None of them changes the file system or leaks a descriptor, whatever the schedule;
  what they return is determined by the parsed contents of the chunk's file.
\<close>

section \<open>The view of the file system the store has\<close>

definition stored :: "FileChunkStore \<Rightarrow> fs \<Rightarrow> ChunkId \<Rightarrow> byte list option" where
  "stored store f cid = map_option (fs_data f) (fs_dir f (PathFor store cid))"

text \<open>Every file is as long as an \<open>off_t\<close> can say.\<close>

definition sizes_ok :: "fs \<Rightarrow> bool" where
  "sizes_ok f \<longleftrightarrow> (\<forall>i. length (fs_data f i) < off_limit)"

text \<open>A chunk identifier whose file name the file system can hold.\<close>

definition storable :: "ChunkId \<Rightarrow> bool" where
  "storable cid \<longleftrightarrow> status_ok (ValidateId cid) \<and> length (chunk_filename cid) \<le> NAME_MAX"

lemma storable_not_too_long: "storable cid \<Longrightarrow> \<not> name_too_long (PathFor store cid)"
  by (simp add: storable_def name_too_long_def)

lemma ValidateId_ok_iff:
  "status_ok (ValidateId cid) \<longleftrightarrow> chunk_id_value cid \<noteq> [] \<and> length (chunk_id_value cid) \<le> 1024"
  by (auto simp: ValidateId_def ChunkId_valid_def)

lemma storable_iff: "storable cid \<longleftrightarrow> chunk_id_value cid \<noteq> [] \<and> length (chunk_id_value cid) \<le> 124"
  by (auto simp: storable_def ValidateId_ok_iff length_chunk_filename NAME_MAX_def)

section \<open>Opening for reading\<close>

lemma sys_open_rd_cases:
  assumes "sys_open_rd p s = (fd, s')"
  shows "(fd < 0 \<and> quiet s s' \<and> sched_tail s s' \<and>
            (smooth s \<longrightarrow> os_errno s' = (if name_too_long p then ENAMETOOLONG else ENOENT)) \<and>
            (smooth s \<longrightarrow> name_too_long p \<or> fs_dir (fsys s) p = None)) \<or>
         (0 \<le> fd \<and> \<not> name_too_long p \<and> sched_tail s s' \<and> fsys s' = fsys s \<and> trace s' = trace s \<and>
            (\<exists>i. fs_dir (fsys s) p = Some i \<and> fd_top fd (OFile i 0) (fds s) s'))"
proof -
  obtain x s1 where n: "next_outcome s = (x, s1)" by fastforce
  have q: "quiet s s1" "sched_tail s s1"
    using quiet_next_outcome [OF n] sched_tail_next [OF n] by blast+
  show ?thesis
  proof (cases "\<exists>i. (\<forall>e. x \<noteq> Fail e) \<and> \<not> name_too_long p \<and> fs_dir (fsys s) p = Some i")
    case True
    then obtain i where "fs_dir (fsys s) p = Some i" "\<not> name_too_long p" "\<forall>e. x \<noteq> Fail e" by blast
    with assms n q have "fd_alloc (OFile i 0) s1 = (fd, s')"
      by (cases x) (auto simp: sys_open_rd_def quiet_def)
    note a = fd_alloc_top [OF this]
    then have "sched s' = sched s1" "fsys s' = fsys s1" "trace s' = trace s1" by auto
    with a q \<open>fs_dir (fsys s) p = Some i\<close> \<open>\<not> name_too_long p\<close> show ?thesis
      by (auto simp: quiet_def sched_tail_def)
  next
    case False
    with assms n q smooth_next [OF n] show ?thesis
      by (cases x) (auto simp: sys_open_rd_def sys_fail_def quiet_def sched_tail_def
          smooth_outcome_def split: option.splits)
  qed
qed

text \<open>Closing the descriptor opened last restores the table: the net effect is none.\<close>

lemma destroy_restores:
  assumes "fd_top fd f (fds s) s'" and "0 \<le> fd" and "fsys s' = fsys s" and "trace s' = trace s"
  shows "quiet s (ufd_destroy (ufd_make fd) s') \<and> sched_tail s' (ufd_destroy (ufd_make fd) s')"
  using assms by (simp add: ufd_destroy_top quiet_def sched_tail_def)

section \<open>Head\<close>

text \<open>The error codes \<open>Head\<close> can return, from the state it runs in.\<close>

definition head_errs :: "FileChunkStore \<Rightarrow> ChunkId \<Rightarrow> os \<Rightarrow> StatusCode set" where
  "head_errs store cid s =
     (if smooth s then {} else {kIoError, kNotFound}) \<union>
     (if \<not> status_ok (ValidateId cid) then {kInvalidArgument}
      else if \<not> storable cid then {kIoError}
      else case stored store (fsys s) cid of
             None \<Rightarrow> {kNotFound}
           | Some d \<Rightarrow> if parse_chunk d = None then {kCorruption} else {})"

definition head_value :: "FileChunkStore \<Rightarrow> fs \<Rightarrow> ChunkId \<Rightarrow> HeadChunkResponse \<Rightarrow> bool" where
  "head_value store f cid r \<longleftrightarrow>
     (\<exists>d. storable cid \<and> stored store f cid = Some d \<and>
          parse_chunk d = Some (resp_size r, resp_checksum r) \<and> resp_chunk_id r = cid)"

lemma ValidateId_code: "\<not> status_ok (ValidateId cid) \<Longrightarrow> st_code (ValidateId cid) = kInvalidArgument"
  by (auto simp: ValidateId_def split: if_splits)

lemma Head_reads:
  assumes h: "FileChunkStore_Head P store cid s = (res, s')" and sz: "sizes_ok (fsys s)"
  shows "reads s res s' (head_value store (fsys s) cid) (head_errs store cid s)"
proof (cases "status_ok (ValidateId cid)")
  case False
  with h show ?thesis
    by (auto simp: FileChunkStore_Head_def reads_def head_errs_def StatusOr_error_status ValidateId_code)
next
  case True
  obtain fd s1 where o: "sys_open_rd (PathFor store cid) s = (fd, s1)" by fastforce
  show ?thesis
  proof (cases "0 \<le> fd")
    case False
    with h o True have res: "s' = s1" "res = StatusOr_error (if os_errno s1 = ENOENT
        then mk_Status kNotFound (''chunk not found: '' @ chunk_id_value cid)
        else IoError P ''open'' (PathFor store cid) s1)"
      by (auto simp: FileChunkStore_Head_def Let_def ufd_destroy_make)
    from sys_open_rd_cases [OF o] False True show ?thesis
      unfolding res
      by (auto simp: reads_def head_errs_def IoError_def storable_def name_too_long_def stored_def)
  next
    case fd: True
    with sys_open_rd_cases [OF o] obtain i where
      i: "fs_dir (fsys s) (PathFor store cid) = Some i" "fd_top fd (OFile i 0) (fds s) s1"
      and f: "\<not> name_too_long (PathFor store cid)" "sched_tail s s1" "fsys s1 = fsys s" "trace s1 = trace s"
      by auto
    obtain s2 where rh: "ReadHeader P fd cid s1 = (res, s2)" and s': "s' = ufd_destroy (ufd_make fd) s2"
      using h o True fd by (auto simp: FileChunkStore_Head_def Let_def split: prod.splits)
    define d where "d = fs_data (fsys s) i"
    have "reads s1 res s2
        (\<lambda>r. parse_chunk d = Some (resp_size r, resp_checksum r) \<and> resp_chunk_id r = cid)
        (file_errs d s1)"
      using rh i(2) by (rule ReadHeader_reads) (use sz f(3) in \<open>auto simp: d_def sizes_ok_def off_limit_def\<close>)
    note r = this and q = readsD(1,2) [OF this]
    have "fd_top fd (OFile i 0) (fds s) s2" "fsys s2 = fsys s" "trace s2 = trace s"
      using i(2) f q(1) by (simp_all add: quiet_def fd_top_def)
    with destroy_restores fd s' have q': "quiet s s'" "sched_tail s2 s'" by auto
    have "storable cid" using True f(1) by (simp add: storable_def name_too_long_def)
    moreover have "stored store (fsys s) cid = Some d" using i(1) by (simp add: stored_def d_def)
    moreover have "sched_tail s s'" using f(2) q(2) q'(2) sched_tail_trans by blast
    moreover have "smooth s \<Longrightarrow> smooth s1" using f(2) by (rule sched_tail_smooth)
    ultimately show ?thesis
      using r q' True
      by (auto simp: reads_def head_value_def head_errs_def file_errs_def os_errs_def
          split: option.splits if_splits)
  qed
qed

section \<open>Get\<close>

text \<open>Handing a list of blocks to an output stream, one \<open>Write\<close> each.\<close>

definition feed :: "'o ChunkOutputStream \<Rightarrow> 'o \<Rightarrow> byte list list \<Rightarrow> 'o" where
  "feed O' out blocks = foldl (\<lambda>a b. snd (out_write O' a b)) out blocks"

lemma feed_simps [simp]:
  "feed O' out [] = out" "feed O' out (b # bs) = feed O' (snd (out_write O' out b)) bs"
  by (simp_all add: feed_def)

text \<open>The stream accepts whatever is written to it.\<close>

definition accepting :: "'o ChunkOutputStream \<Rightarrow> bool" where
  "accepting O' \<longleftrightarrow> (\<forall>a b. status_ok (fst (out_write O' a b)))"

text \<open>
  \<open>blocks\<close> is a piecewise transfer of a prefix of \<open>d\<close>, in pieces of at most the buffer size; all
  of it if \<open>all\<close> holds.
\<close>

definition pieces :: "byte list list \<Rightarrow> byte list \<Rightarrow> bool \<Rightarrow> bool" where
  "pieces blocks d whole \<longleftrightarrow>
     (\<forall>b \<in> set blocks. b \<noteq> [] \<and> length b \<le> kBufferSize) \<and>
     (\<exists>rest. d = concat blocks @ rest) \<and> (whole \<longrightarrow> concat blocks = d)"

lemma pieces_Nil [simp]: "pieces [] d whole \<longleftrightarrow> (whole \<longrightarrow> d = [])"
  by (auto simp: pieces_def)

lemma pieces_Cons:
  assumes "b \<noteq> []" and "length b \<le> kBufferSize" and "d = b @ d'" and "pieces bs d' whole"
  shows "pieces (b # bs) d whole"
  using assms by (auto simp: pieces_def)

lemma pieces_single: "b \<noteq> [] \<Longrightarrow> length b \<le> kBufferSize \<Longrightarrow> d = b @ d' \<Longrightarrow> pieces [b] d False"
  by (auto simp: pieces_def)

text \<open>
  What the transfer of the range \<open>d\<close> of a file does, in a run from \<open>s\<close> to \<open>s'\<close> with result
  \<open>st\<close>: blocks of the range go to the stream in order, all of it on success, and only the
  stream or an I/O failure can stop it.
\<close>

definition transfers ::
  "'o ChunkOutputStream \<Rightarrow> byte list \<Rightarrow> 'o \<Rightarrow> os \<Rightarrow> Status \<Rightarrow> 'o \<Rightarrow> os \<Rightarrow> bool" where
  "transfers O' d out s st out' s' \<longleftrightarrow>
     quiet s s' \<and> sched_tail s s' \<and>
     (\<exists>blocks. out' = feed O' out blocks \<and> pieces blocks d (status_ok st)) \<and>
     (gentle s \<and> accepting O' \<longrightarrow> status_ok st)"

lemma transfers_done: "transfers O' [] out s Status_Ok out s"
  by (auto simp: transfers_def intro!: exI [of _ "[]"])

lemma transfers_stop:
  "quiet s s' \<Longrightarrow> sched_tail s s' \<Longrightarrow> \<not> status_ok st \<Longrightarrow> \<not> gentle s \<Longrightarrow> transfers O' d out s st out s'"
  by (auto simp: transfers_def intro!: exI [of _ "[]"])

lemma transfers_rejected:
  assumes "quiet s s'" and "sched_tail s s'" and "out_write O' out b = (st, out')" and "\<not> status_ok st"
    and "b \<noteq> []" and "length b \<le> kBufferSize" and "d = b @ d'"
  shows "transfers O' d out s st out' s'"
proof -
  have "\<not> accepting O'"
    using assms(3,4) unfolding accepting_def by (metis fst_conv)
  moreover have "out' = feed O' out [b]" using assms(3) by simp
  moreover have "pieces [b] d (status_ok st)"
    using pieces_single [of b d d'] assms(4-7) by simp
  ultimately show ?thesis using assms(1,2) unfolding transfers_def by blast
qed

lemma transfers_step:
  assumes "quiet s s1" and "sched_tail s s1" and "out_write O' out b = (st1, out1)"
    and "b \<noteq> []" and "length b \<le> kBufferSize" and "d = b @ d'"
    and t: "transfers O' d' out1 s1 st out' s'"
  shows "transfers O' d out s st out' s'"
proof -
  from t obtain blocks where b: "out' = feed O' out1 blocks" "pieces blocks d' (status_ok st)"
    unfolding transfers_def by blast
  have "out' = feed O' out (b # blocks)" using b(1) assms(3) by simp
  moreover have "pieces (b # blocks) d (status_ok st)" using assms(4-6) b(2) by (rule pieces_Cons)
  moreover have "quiet s s'" "sched_tail s s'" "gentle s \<and> accepting O' \<longrightarrow> status_ok st"
    using t assms(1,2) unfolding transfers_def
    by (auto dest: quiet_trans sched_tail_trans sched_tail_gentle)
  ultimately show ?thesis unfolding transfers_def by blast
qed

lemma off_t_bound: "(x :: u64) \<le> off_t_max \<longleftrightarrow> unat x < 2 ^ 63"
  by (auto simp: off_t_max_def word_le_nat_alt)

lemma range_split:
  assumes fo: "front_of b (take (min r kBufferSize) (drop off d))" and "b \<noteq> []"
  shows "take r (drop off d) = b @ take (r - length b) (drop (off + length b) d)"
    and "length b \<le> min r kBufferSize"
proof -
  obtain rest where e: "take (min r kBufferSize) (drop off d) = b @ rest"
    using fo by (auto simp: front_of_def)
  then have l: "length b \<le> min r kBufferSize" by (metis length_append le_add1 length_take min.boundedE le_trans)
  from e have "b = take (length b) (drop off d)"
    using l by (metis append_eq_conv_conj min.absorb1 take_take)
  then have "b @ take (r - length b) (drop (off + length b) d) =
      take (length b) (drop off d) @ take (r - length b) (drop (length b) (drop off d))"
    by (simp add: add.commute)
  also have "\<dots> = take (length b + (r - length b)) (drop off d)" by (simp only: take_add)
  also have "\<dots> = take r (drop off d)" using l by simp
  finally show "take r (drop off d) = b @ take (r - length b) (drop (off + length b) d)" by simp
  show "length b \<le> min r kBufferSize" by (rule l)
qed

text \<open>One turn of the transfer loop, as a rule for case analysis.\<close>

lemma get_loop_turn:
  assumes l: "get_loop P O' fd remaining offset out s = (st, out', s')"
  obtains (finished) "\<not> remaining > 0" "st = Status_Ok" "out' = out" "s' = s"
    | (failed) c where "remaining > 0" "PreadSome P fd (min (unat remaining) kBufferSize) offset s = (c, s')" "so_opt c = None"
      "st = so_status c" "out' = out"
    | (eof) c where "remaining > 0" "PreadSome P fd (min (unat remaining) kBufferSize) offset s = (c, s')" "so_opt c = Some []"
      "st = mk_Status kCorruption ''unexpected EOF while reading chunk''" "out' = out"
    | (rejected) c b where "remaining > 0" "PreadSome P fd (min (unat remaining) kBufferSize) offset s = (c, s')" "so_opt c = Some b" "b \<noteq> []"
      "out_write O' out b = (st, out')" "\<not> status_ok st"
    | (more) c s1 b st1 out1 where "remaining > 0" "PreadSome P fd (min (unat remaining) kBufferSize) offset s = (c, s1)"
      "so_opt c = Some b" "b \<noteq> []" "out_write O' out b = (st1, out1)" "status_ok st1"
      "get_loop P O' fd (remaining - word_of_nat (length b)) (offset + word_of_nat (length b)) out1 s1 = (st, out', s')"
proof -
  note l' = l [unfolded get_loop.simps [of P O' fd remaining offset out s]]
  obtain c s1 where p: "PreadSome P fd (min (unat remaining) kBufferSize) offset s = (c, s1)" by fastforce
  consider "\<not> remaining > 0" | "remaining > 0" "so_opt c = None" | "remaining > 0" "so_opt c = Some []"
    | b where "remaining > 0" "so_opt c = Some b" "b \<noteq> []" by (cases "so_opt c") auto
  then show thesis
  proof cases
    case 1
    then show ?thesis using l' by (intro finished) auto
  next
    case 2
    then show ?thesis using l' p by (intro failed [of c]) auto
  next
    case 3
    then show ?thesis using l' p by (intro eof [of c]) auto
  next
    case (4 b)
    obtain st1 out1 where w: "out_write O' out b = (st1, out1)" by fastforce
    show ?thesis
    proof (cases "status_ok st1")
      case True
      then show ?thesis using l' p 4 w by (intro more [of c s1 b st1 out1]) auto
    next
      case False
      then show ?thesis using l' p 4 w by (intro rejected [of c b]) auto
    qed
  qed
qed

text \<open>After a turn the counters have moved by the length of the block, without wrapping.\<close>

lemma get_loop_advances:
  fixes r off :: u64
  assumes "0 < n" and "n \<le> min (unat r) kBufferSize" and "unat off + n < 2 ^ 63"
  shows "unat (r - word_of_nat n) = unat r - n" and "unat (off + word_of_nat n) = unat off + n"
proof -
  show "unat (r - word_of_nat n) = unat r - n" by (rule get_loop_decreases(1) [OF assms(1,2)])
  have "unat (word_of_nat n :: u64) = n" using assms(2) by (intro unat_of_nat_u64) (simp add: kBufferSize_def)
  then show "unat (off + word_of_nat n) = unat off + n" using assms(3) by (simp add: unat_word_ariths)
qed

lemma get_loop_transfers:
  assumes "get_loop P O' fd remaining offset out s = (st, out', s')"
    and "fd_top fd (OFile i pos) t s" and "fs_data (fsys s) i = d"
    and "unat offset + unat remaining \<le> length d" and "length d < 2 ^ 63"
  shows "transfers O' (take (unat remaining) (drop (unat offset) d)) out s st out' s'"
  using assms
proof (induction P O' fd remaining offset out s rule: get_loop.induct)
  case (1 P O' fd remaining offset out s)
  have "offset \<le> off_t_max" using "1.prems"(4,5) by (simp add: off_t_bound)
  note f = PreadSome_reads [OF _ "1.prems"(2) this, unfolded "1.prems"(3)]
  have ne: "take (min (unat remaining) kBufferSize) (drop (unat offset) d) \<noteq> []" if "remaining > 0"
    using that "1.prems"(4) by (auto simp: kBufferSize_def word_less_nat_alt)
  from "1.prems"(1) show ?case
  proof (cases rule: get_loop_turn)
    case finished
    then show ?thesis by (auto simp: word_gt_0 transfers_done)
  next
    case (failed c)
    note f = f [OF failed(2)]
    have "\<not> status_ok (so_status c)" "\<not> gentle s"
      using failed(3) readsD(3,5) [OF f] by (auto simp: statusor_inv_def so_ok_def io_errs_def split: if_splits)
    then show ?thesis using readsD(1,2) [OF f] failed(4,5) by (simp add: transfers_stop)
  next
    case (eof c)
    then show ?thesis using readsD(4) [OF f [OF eof(2)] eof(3)] ne by (simp add: front_of_def)
  next
    case (rejected c b)
    note g = f [OF rejected(2)] and sp = range_split [OF readsD(4) [OF f [OF rejected(2)] rejected(3)] rejected(4)]
    show ?thesis using transfers_rejected [OF readsD(1,2) [OF g] rejected(5,6,4) _ sp(1)] sp(2) by simp
  next
    case (more c s1 b st1 out1)
    note g = f [OF more(2)] and sp = range_split [OF readsD(4) [OF f [OF more(2)] more(3)] more(4)]
    note q = readsD(1,2) [OF g]
    have adv: "unat (remaining - word_of_nat (length b)) = unat remaining - length b"
      "unat (offset + word_of_nat (length b)) = unat offset + length b"
      using get_loop_advances [of "length b" remaining offset] more(4) sp(2) "1.prems"(4,5) by auto
    have s1: "fd_top fd (OFile i pos) t s1" "fs_data (fsys s1) i = d"
      using q(1) "1.prems"(2,3) by (simp_all add: quiet_def fd_top_def)
    have "transfers O' (take (unat (remaining - word_of_nat (length b))) (drop (unat (offset + word_of_nat (length b))) d)) out1 s1 st out' s'"
      by (rule "1.IH" [OF more(1) more(2) [symmetric] more(3,4) more(5) [symmetric] _ more(7) s1])
        (use more(6) adv sp(2) "1.prems"(4,5) in auto)
    from transfers_step [OF q more(5,4) _ sp(1) this [unfolded adv]] sp(2) show ?thesis by simp
  qed
qed

text \<open>
  \<open>Get\<close> as a whole. \<open>range_of\<close> is the part of the payload a request names.
\<close>

definition range_of :: "ByteRange \<Rightarrow> byte list \<Rightarrow> byte list" where
  "range_of rg payload = take (unat (range_size rg)) (drop (unat (range_offset rg)) payload)"

lemma parse_chunk_SomeD:
  "parse_chunk d = Some (n, c) \<Longrightarrow>
     length d = unat n + kHeaderSize \<and> status_ok (ValidateChecksum c) \<and> n = header_size d"
  by (auto simp: parse_chunk_def split: if_splits)

text \<open>
  The chunk behind an identifier, as the pair of its recorded checksum and its payload; \<open>None\<close>
  where there is no file or the file is damaged.
\<close>

definition chunk_at :: "FileChunkStore \<Rightarrow> fs \<Rightarrow> ChunkId \<Rightarrow> (Checksum \<times> byte list) option" where
  "chunk_at store f cid =
     (case stored store f cid of
        None \<Rightarrow> None
      | Some d \<Rightarrow> (case parse_chunk d of None \<Rightarrow> None | Some (n, c) \<Rightarrow> Some (c, drop kHeaderSize d)))"

lemma head_value_iff:
  "head_value store f cid r \<longleftrightarrow>
     storable cid \<and> resp_chunk_id r = cid \<and>
     (\<exists>payload. chunk_at store f cid = Some (resp_checksum r, payload) \<and>
                unat (resp_size r) = length payload)"
  by (auto simp: head_value_def chunk_at_def split: option.splits dest: parse_chunk_SomeD)
    (metis add_diff_cancel_right' parse_chunk_SomeD word_unat_eq_iff)

lemma chunk_at_stored:
  assumes "chunk_at store f cid = Some (c, payload)"
  obtains i where "fs_dir f (PathFor store cid) = Some i" and "drop kHeaderSize (fs_data f i) = payload"
    and "length (fs_data f i) = kHeaderSize + length payload"
    and "parse_chunk (fs_data f i) = Some (word_of_nat (length payload), c)"
proof -
  from assms obtain i n where i: "fs_dir f (PathFor store cid) = Some i"
    "parse_chunk (fs_data f i) = Some (n, c)" "drop kHeaderSize (fs_data f i) = payload"
    by (auto simp: chunk_at_def stored_def split: option.splits)
  moreover from parse_chunk_SomeD [OF i(2)] have "length (fs_data f i) = kHeaderSize + length payload"
    and "n = word_of_nat (length payload)"
    using i(3) by auto
  ultimately show thesis using that by simp
qed

lemma chunk_at_length:
  assumes "sizes_ok f" and "chunk_at store f cid = Some (c, payload)"
  shows "length payload < 2 ^ 63" and "unat (word_of_nat (length payload) :: u64) = length payload"
proof -
  obtain i where "length (fs_data f i) = kHeaderSize + length payload"
    using chunk_at_stored [OF assms(2)] by metis
  moreover have "length (fs_data f i) < 2 ^ 63" using assms(1) by (simp add: sizes_ok_def off_limit_def)
  ultimately show "length payload < 2 ^ 63" by linarith
  then show "unat (word_of_nat (length payload) :: u64) = length payload"
    by (intro unat_of_nat_u64) simp
qed

definition get_post ::
  "FileChunkStore \<Rightarrow> GetChunkRequest \<Rightarrow> 'o ChunkOutputStream \<Rightarrow> 'o \<Rightarrow> os \<Rightarrow> Status \<Rightarrow> 'o \<Rightarrow> os \<Rightarrow> bool" where
  "get_post store req O' out s st out' s' \<longleftrightarrow>
     quiet s s' \<and> sched_tail s s' \<and>
     (case chunk_at store (fsys s) (get_chunk_id req) of
        None \<Rightarrow> \<not> status_ok st \<and> out' = out
      | Some (c, payload) \<Rightarrow>
          if status_ok (ValidateByteRange (get_range req) (word_of_nat (length payload))) then
            (\<exists>blocks. out' = feed O' out blocks \<and>
               pieces blocks (range_of (get_range req) payload) (status_ok st)) \<and>
            (smooth s \<and> accepting O' \<and> storable (get_chunk_id req) \<longrightarrow> status_ok st)
          else \<not> status_ok st \<and> out' = out)"

text \<open>Opening, transferring and closing, once the header has been accepted and the range checked.\<close>

lemma get_open_transfers:
  assumes o: "sys_open_rd (PathFor store cid) s = (fd, s1)" and fd: "0 \<le> fd"
    and c: "chunk_at store (fsys s) cid = Some (c, payload)" and sz: "sizes_ok (fsys s)"
    and v: "status_ok (ValidateByteRange rg (word_of_nat (length payload)))"
    and g: "get_loop P O' fd (range_size rg) (range_offset rg + word_of_nat kHeaderSize) out s1 =
              (st, out', s2)"
  shows "transfers O' (range_of rg payload) out s st out' (ufd_destroy (ufd_make fd) s2)"
proof -
  obtain i where i: "fs_dir (fsys s) (PathFor store cid) = Some i"
    "drop kHeaderSize (fs_data (fsys s) i) = payload"
    "length (fs_data (fsys s) i) = kHeaderSize + length payload"
    using chunk_at_stored [OF c] by blast
  let ?d = "fs_data (fsys s) i"
  have len: "length ?d < 2 ^ 63" using sz by (simp add: sizes_ok_def off_limit_def)
  have s1: "fd_top fd (OFile i 0) (fds s) s1" "fsys s1 = fsys s" "trace s1 = trace s" "sched_tail s s1"
    using sys_open_rd_cases [OF o] fd i(1) by auto
  have le: "unat (range_offset rg) + unat (range_size rg) \<le> length payload"
    using v len i(3) by (simp add: ValidateByteRange_ok_iff unat_of_nat_u64)
  then have off: "unat (range_offset rg + word_of_nat kHeaderSize) = unat (range_offset rg) + kHeaderSize"
    using len i(3) by (simp add: unat_word_ariths kHeaderSize_eq)
  have "transfers O' (take (unat (range_size rg)) (drop (unat (range_offset rg) + kHeaderSize) ?d))
      out s1 st out' s2"
    using get_loop_transfers [OF g s1(1) _ _ len] s1(2) le off i(3) by simp
  moreover have "drop (unat (range_offset rg) + kHeaderSize) ?d = drop (unat (range_offset rg)) payload"
    using i(2) by (metis drop_drop)
  ultimately have t: "transfers O' (range_of rg payload) out s1 st out' s2"
    by (simp add: range_of_def)
  have "fd_top fd (OFile i 0) (fds s) s2" "fsys s2 = fsys s" "trace s2 = trace s" "sched_tail s1 s2"
    using t s1 by (simp_all add: transfers_def quiet_def fd_top_def)
  then have "quiet s (ufd_destroy (ufd_make fd) s2)" "sched_tail s (ufd_destroy (ufd_make fd) s2)"
    using destroy_restores [of fd "OFile i 0" s s2] fd s1(4) by (auto dest: sched_tail_trans)
  with t s1(4) show ?thesis
    unfolding transfers_def by (auto dest: sched_tail_gentle)
qed

text \<open>The ways a \<open>Get\<close> can go, as a rule for case analysis.\<close>

lemma Get_paths:
  assumes g: "FileChunkStore_Get P store req O' out s = (st, out', s')"
  obtains (headless) h s1 where "FileChunkStore_Head P store (get_chunk_id req) s = (h, s1)" "so_opt h = None"
      "st = so_status h" "out' = out" "s' = s1"
    | (outside) h s1 v where "FileChunkStore_Head P store (get_chunk_id req) s = (h, s1)" "so_opt h = Some v"
      "\<not> status_ok (ValidateByteRange (get_range req) (resp_size v))" "st = ValidateByteRange (get_range req) (resp_size v)"
      "out' = out" "s' = s1"
    | (vanished) h s1 v fd s2 where "FileChunkStore_Head P store (get_chunk_id req) s = (h, s1)" "so_opt h = Some v"
      "status_ok (ValidateByteRange (get_range req) (resp_size v))" "sys_open_rd (PathFor store (get_chunk_id req)) s1 = (fd, s2)" "fd < 0"
      "st = (if os_errno s2 = ENOENT then mk_Status kNotFound (''chunk not found: '' @ chunk_id_value (get_chunk_id req))
             else IoError P ''open'' (PathFor store (get_chunk_id req)) s2)" "out' = out" "s' = s2"
    | (sent) h s1 v fd s2 s3 where "FileChunkStore_Head P store (get_chunk_id req) s = (h, s1)" "so_opt h = Some v"
      "status_ok (ValidateByteRange (get_range req) (resp_size v))" "sys_open_rd (PathFor store (get_chunk_id req)) s1 = (fd, s2)" "0 \<le> fd"
      "get_loop P O' fd (range_size (get_range req)) (range_offset (get_range req) + word_of_nat kHeaderSize) out s2 = (st, out', s3)"
      "s' = ufd_destroy (ufd_make fd) s3"
proof -
  let ?rg = "get_range req"
  obtain h s1 where h: "FileChunkStore_Head P store (get_chunk_id req) s = (h, s1)" by fastforce
  obtain fd s2 where o: "sys_open_rd (PathFor store (get_chunk_id req)) s1 = (fd, s2)" by fastforce
  obtain st1 out1 s3 where l: "get_loop P O' fd (range_size ?rg) (range_offset ?rg + word_of_nat kHeaderSize) out s2 = (st1, out1, s3)"
    by (metis surj_pair)
  note g' = g [unfolded FileChunkStore_Get_def Let_def] and eqs = h o l
  consider "so_opt h = None" | v where "so_opt h = Some v" "\<not> status_ok (ValidateByteRange ?rg (resp_size v))"
    | v where "so_opt h = Some v" "status_ok (ValidateByteRange ?rg (resp_size v))" "fd < 0"
    | v where "so_opt h = Some v" "status_ok (ValidateByteRange ?rg (resp_size v))" "0 \<le> fd" by (cases "so_opt h") force+
  then show thesis
  proof cases
    case 1
    then show ?thesis using g' eqs by (intro headless [OF h]) auto
  next
    case (2 v)
    then show ?thesis using g' eqs by (intro outside [OF h]) auto
  next
    case (3 v)
    then show ?thesis using g' eqs by (intro vanished [OF h _ _ o]) (auto simp: ufd_destroy_make)
  next
    case (4 v)
    then show ?thesis using g' eqs by (intro sent [OF h _ _ o]) auto
  qed
qed

text \<open>A chunk that \<open>Head\<close> has found can be opened again.\<close>

lemma chunk_opens:
  assumes "sys_open_rd (PathFor store cid) s = (fd, s')" and "fd < 0" and "storable cid" and "chunk_at store (fsys s) cid \<noteq> None"
  shows "quiet s s' \<and> sched_tail s s' \<and> \<not> smooth s"
proof -
  obtain i where "fs_dir (fsys s) (PathFor store cid) = Some i" using assms(4) chunk_at_stored by fastforce
  then show ?thesis using sys_open_rd_cases [OF assms(1)] assms(2) storable_not_too_long [OF assms(3), of store] by auto
qed

lemma Get_get_post:
  assumes g: "FileChunkStore_Get P store req O' out s = (st, out', s')" and sz: "sizes_ok (fsys s)"
  shows "get_post store req O' out s st out' s'"
proof -
  let ?cid = "get_chunk_id req" and ?rg = "get_range req"
  have found: "\<exists>c payload. storable ?cid \<and> chunk_at store (fsys s) ?cid = Some (c, payload) \<and> chunk_at store (fsys s1) ?cid = Some (c, payload) \<and>
      resp_size v = word_of_nat (length payload) \<and> sizes_ok (fsys s1) \<and> quiet s s1 \<and> sched_tail s s1"
    if h: "FileChunkStore_Head P store ?cid s = (h, s1)" "so_opt h = Some v" for h s1 v
  proof -
    note r = Head_reads [OF h(1) sz]
    have q: "quiet s s1" "sched_tail s s1" "fsys s1 = fsys s" using readsD(1,2) [OF r] by (simp_all add: quiet_def)
    obtain c payload where p: "storable ?cid" "chunk_at store (fsys s) ?cid = Some (c, payload)" "unat (resp_size v) = length payload"
      using readsD(4) [OF r h(2)] by (auto simp: head_value_iff)
    have "resp_size v = word_of_nat (length payload)" by (simp flip: p(3))
    then show ?thesis using p(1,2) q sz by simp
  qed
  from g show ?thesis
  proof (cases rule: Get_paths)
    case (headless h s1)
    note r = Head_reads [OF headless(1) sz]
    have "\<not> status_ok st" using headless(2,3) readsD(3) [OF r] by (simp add: statusor_inv_def so_ok_def)
    moreover have "\<not> (smooth s \<and> storable ?cid \<and> chunk_at store (fsys s) ?cid \<noteq> None)"
      using readsD(5) [OF r headless(2)]
      by (auto simp: head_errs_def chunk_at_def storable_def split: option.splits if_splits)
    ultimately show ?thesis
      using readsD(1,2) [OF r] headless(4,5) by (auto simp: get_post_def split: option.splits intro!: exI [of _ "[]"])
  next
    case (outside h s1 v)
    then show ?thesis using found [OF outside(1,2)] by (auto simp: get_post_def)
  next
    case (vanished h s1 v fd s2)
    obtain c payload where v: "storable ?cid" "chunk_at store (fsys s) ?cid = Some (c, payload)" "chunk_at store (fsys s1) ?cid = Some (c, payload)"
      "resp_size v = word_of_nat (length payload)" and q: "quiet s s1" "sched_tail s s1" using found [OF vanished(1,2)] by blast
    have "quiet s1 s2 \<and> sched_tail s1 s2 \<and> \<not> smooth s1" by (rule chunk_opens [OF vanished(4,5) v(1)]) (simp add: v(3))
    then have "quiet s s2" "sched_tail s s2" "\<not> smooth s" using q quiet_trans sched_tail_trans sched_tail_smooth by blast+
    moreover have "\<not> status_ok st" using vanished(6) by (simp add: IoError_def)
    ultimately show ?thesis using v(2,4) vanished(3,7,8) unfolding get_post_def by (auto intro!: exI [of _ "[]"])
  next
    case (sent h s1 v fd s2 s3)
    obtain c payload where v: "storable ?cid" "chunk_at store (fsys s) ?cid = Some (c, payload)" "chunk_at store (fsys s1) ?cid = Some (c, payload)"
      "resp_size v = word_of_nat (length payload)" "sizes_ok (fsys s1)" and q: "quiet s s1" "sched_tail s s1" using found [OF sent(1,2)] by blast
    have "transfers O' (range_of ?rg payload) out s1 st out' s'"
      unfolding sent(7) by (rule get_open_transfers [OF sent(4,5) v(3,5) sent(3) [unfolded v(4)] sent(6)])
    then show ?thesis
      using q v sent(3) unfolding get_post_def transfers_def
      by (auto dest: quiet_trans sched_tail_trans sched_tail_smooth smooth_gentle)
  qed
qed

text \<open>What goes to the stream, in a form that does not distinguish why a transfer failed.\<close>

lemma get_post_blocks:
  assumes "get_post store req O' out s st out' s'" and "sizes_ok (fsys s)"
  shows "\<exists>blocks. out' = feed O' out blocks \<and> (\<forall>b \<in> set blocks. length b \<le> kBufferSize) \<and>
    (status_ok st \<longrightarrow> (\<exists>c payload. chunk_at store (fsys s) (get_chunk_id req) = Some (c, payload) \<and>
       unat (range_offset (get_range req)) + unat (range_size (get_range req)) \<le> length payload \<and>
       concat blocks = range_of (get_range req) payload))"
proof (cases "chunk_at store (fsys s) (get_chunk_id req)")
  case None
  then show ?thesis using assms(1) by (auto simp: get_post_def intro!: exI [of _ "[] :: byte list list"])
next
  case (Some cp)
  obtain c payload where cp: "cp = (c, payload)" by fastforce
  note len = chunk_at_length(2) [OF assms(2) Some [unfolded cp]]
  show ?thesis
  proof (cases "status_ok (ValidateByteRange (get_range req) (word_of_nat (length payload)))")
    case True
    then obtain blocks where "out' = feed O' out blocks"
      "pieces blocks (range_of (get_range req) payload) (status_ok st)"
      using assms(1) Some cp by (auto simp: get_post_def)
    then show ?thesis
      using True len Some cp by (intro exI [of _ blocks]) (auto simp: pieces_def ValidateByteRange_ok_iff)
  next
    case False
    then show ?thesis
      using assms(1) Some cp by (auto simp: get_post_def intro!: exI [of _ "[] :: byte list list"])
  qed
qed

end
