(* ===== verification/Store_Invariant.thy ===== *)
theory Store_Invariant
  imports Store_Reading
begin

text \<open>
  The invariant of the storage root: whatever name a chunk identifier is encoded to, if it is
  bound, in the running system or on disk, then to a complete file, synchronised, whose payload
  has the recorded size and BLAKE3 digest. The file system operations the store performs keep
  it one by one, and it survives a crash.
\<close>

section \<open>The invariant\<close>

text \<open>A complete chunk file with a correct checksum.\<close>

definition good_file :: "'h platform \<Rightarrow> byte list \<Rightarrow> bool" where
  "good_file P d \<longleftrightarrow>
     (case parse_chunk d of
        None \<Rightarrow> False
      | Some (n, c) \<Rightarrow> checksum_value c = blake3_hex P (drop kHeaderSize d))"

text \<open>Some chunk name refers to inode \<open>i\<close>, now or possibly after a crash.\<close>

definition chunk_ref :: "FileChunkStore \<Rightarrow> fs \<Rightarrow> inode \<Rightarrow> bool" where
  "chunk_ref store f i \<longleftrightarrow>
     (\<exists>cid. fs_dir f (PathFor store cid) = Some i \<or> Some i \<in> fs_had f (PathFor store cid))"

definition store_inv :: "'h platform \<Rightarrow> FileChunkStore \<Rightarrow> fs \<Rightarrow> bool" where
  "store_inv P store f \<longleftrightarrow>
     (\<forall>i. chunk_ref store f i \<longrightarrow>
        good_file P (fs_data f i) \<and> dur_data f i = fs_data f i \<and> i < fs_next f)"

text \<open>The name \<open>p\<close> is not the name of a chunk.\<close>

definition no_chunk_name :: "FileChunkStore \<Rightarrow> path \<Rightarrow> bool" where
  "no_chunk_name store p \<longleftrightarrow> (\<forall>cid. p \<noteq> PathFor store cid)"

lemma good_file_chunk_bytes:
  assumes "status_ok (ValidateChecksum c)" and "length payload < 2 ^ 64"
    and "checksum_value c = blake3_hex P payload"
  shows "good_file P (chunk_bytes c payload)"
proof -
  have "length (checksum_value c) = 64" using assms(1) by (simp add: ValidateChecksum_ok_iff)
  then show ?thesis
    using assms by (simp add: good_file_def parse_chunk_bytes drop_chunk_bytes)
qed

section \<open>Steps that keep it\<close>

text \<open>
  A step keeps the invariant if it adds no chunk name and leaves the files behind the existing
  ones alone (synchronising them is allowed).
\<close>

lemma store_inv_step:
  assumes "store_inv P store f" and "fs_next f \<le> fs_next g"
    and "\<And>i. chunk_ref store g i \<Longrightarrow> i < fs_next f \<Longrightarrow> chunk_ref store f i \<Longrightarrow>
           fs_data g i = fs_data f i \<and> dur_data g i \<in> {dur_data f i, fs_data f i}"
    and "\<And>i. chunk_ref store g i \<Longrightarrow> chunk_ref store f i"
  shows "store_inv P store g"
  unfolding store_inv_def
proof (intro allI impI)
  fix i
  assume r: "chunk_ref store g i"
  then have "chunk_ref store f i" by (rule assms(4))
  then have "good_file P (fs_data f i)" "dur_data f i = fs_data f i" "i < fs_next f"
    using assms(1) by (auto simp: store_inv_def)
  with assms(2) assms(3) [OF r _ \<open>chunk_ref store f i\<close>]
  show "good_file P (fs_data g i) \<and> dur_data g i = fs_data g i \<and> i < fs_next g" by auto
qed

lemma chunk_ref_writes_to: "writes_to i f g \<Longrightarrow> chunk_ref store g j \<longleftrightarrow> chunk_ref store f j"
  unfolding chunk_ref_def writes_to_def by auto

lemma store_inv_mkdir: "store_inv P store f \<Longrightarrow> store_inv P store (f\<lparr>fs_dirs := D\<rparr>)"
  by (simp add: store_inv_def chunk_ref_def)

lemma store_inv_create:
  assumes "store_inv P store f" and "no_chunk_name store p"
  shows "store_inv P store (new_file p f)"
proof (rule store_inv_step [OF assms(1)], goal_cases)
  case (3 i)
  then show ?case
    using assms(2) by (auto simp: chunk_ref_def no_chunk_name_def split: if_splits)
qed auto

lemma store_inv_writes_to:
  assumes "store_inv P store f" and "\<not> chunk_ref store f i" and "writes_to i f g"
  shows "store_inv P store g"
proof (rule store_inv_step [OF assms(1)])
  show "fs_next f \<le> fs_next g" using assms(3) by (auto simp: writes_to_def)
next
  fix j
  assume "chunk_ref store f j"
  with assms(2,3) show "fs_data g j = fs_data f j \<and> dur_data g j \<in> {dur_data f j, fs_data f j}"
    by (auto simp: writes_to_def)
qed (simp add: chunk_ref_writes_to [OF assms(3)])

lemma store_inv_unlink: "store_inv P store f \<Longrightarrow> store_inv P store (rebind p None f)"
  by (rule store_inv_step) (auto simp: chunk_ref_def dest: sym split: if_splits)

lemma store_inv_fdatasync:
  "store_inv P store f \<Longrightarrow> store_inv P store (f\<lparr>dur_data := (dur_data f)(i := fs_data f i)\<rparr>)"
  by (rule store_inv_step) (auto simp: chunk_ref_def split: if_splits)

lemma store_inv_link:
  assumes "store_inv P store f" and "good_file P (fs_data f i)" and "dur_data f i = fs_data f i"
    and "i < fs_next f"
  shows "store_inv P store (rebind p (Some i) f)"
proof -
  have "chunk_ref store (rebind p (Some i) f) j \<Longrightarrow> j = i \<or> chunk_ref store f j" for j
    by (auto simp: chunk_ref_def split: if_splits)
  with assms show ?thesis unfolding store_inv_def by auto
qed

lemma store_inv_fsync:
  "store_inv P store f \<Longrightarrow>
     store_inv P store (f\<lparr>fs_had := (\<lambda>p. if in_dir r p then {} else fs_had f p)\<rparr>)"
  by (rule store_inv_step) (auto simp: chunk_ref_def split: if_splits)

section \<open>Crashes\<close>

lemma crash_chunk_ref: "crash f g \<Longrightarrow> chunk_ref store g i \<Longrightarrow> chunk_ref store f i"
  unfolding crash_def chunk_ref_def by (metis empty_iff)

lemma store_inv_crash:
  assumes "store_inv P store f" and "crash f g"
  shows "store_inv P store g"
proof -
  have "fs_data g i = fs_data f i" if "chunk_ref store f i" for i
    using that assms by (auto simp: store_inv_def crash_def)
  moreover have "dur_data g = fs_data g" "fs_next g = fs_next f"
    using assms(2) by (auto simp: crash_def)
  ultimately show ?thesis
    using assms crash_chunk_ref [OF assms(2)] unfolding store_inv_def by metis
qed

section \<open>Keeping the invariant at every moment\<close>

text \<open>
  \<open>I\<close> holds in every file system state recorded between \<open>s\<close> and \<open>s'\<close>, and in the last one.
\<close>

definition keeps :: "(fs \<Rightarrow> bool) \<Rightarrow> os \<Rightarrow> os \<Rightarrow> bool" where
  "keeps I s s' \<longleftrightarrow> (\<exists>new. trace s' = new @ trace s \<and> (\<forall>g \<in> set new. I g)) \<and> I (fsys s')"

lemma keeps_quiet: "fsys s' = fsys s \<Longrightarrow> trace s' = trace s \<Longrightarrow> I (fsys s) \<Longrightarrow> keeps I s s'"
  by (simp add: keeps_def)

lemma keeps_set_fs: "fsys s' = f \<Longrightarrow> trace s' = f # trace s \<Longrightarrow> I f \<Longrightarrow> keeps I s s'"
  by (simp add: keeps_def)

lemma keeps_trans: "keeps I s s1 \<Longrightarrow> keeps I s1 s2 \<Longrightarrow> keeps I s s2"
  unfolding keeps_def by (elim conjE exE) (auto intro!: exI)

lemma keeps_last: "keeps I s s' \<Longrightarrow> I (fsys s')"
  by (simp add: keeps_def)

lemma keeps_moments: "keeps I s s' \<Longrightarrow> trace s' = new @ trace s \<Longrightarrow> g \<in> set new \<Longrightarrow> I g"
  by (auto simp: keeps_def)

lemma keeps_appended:
  assumes "appended fd i t bs s s'" and "store_inv P store (fsys s)" and "\<not> chunk_ref store (fsys s) i"
  shows "keeps (store_inv P store) s s'"
  using assms appended_writes_to [OF assms(1)] store_inv_writes_to [OF assms(2,3)]
  unfolding appended_def keeps_def by blast

end
