(* ===== verification/Syscall_Effects.thy ===== *)
theory Syscall_Effects
  imports Store_Invariant
begin

text \<open>
  What the single system calls of the writing operations can do to the system, under every
  schedule: one case lemma per call, which says that it either failed and left everything alone,
  or made exactly one change to the file system; and why it may have failed if the schedule is
  smooth.
\<close>

section \<open>Shared facts\<close>

text \<open>The call changed the file system to \<open>g\<close> and nothing else of the system but \<open>errno\<close>.\<close>

definition changes :: "fs \<Rightarrow> os \<Rightarrow> os \<Rightarrow> bool" where
  "changes g s s' \<longleftrightarrow> fsys s' = g \<and> trace s' = g # trace s \<and> fds s' = fds s"

lemma changes_keeps: "changes g s s' \<Longrightarrow> I g \<Longrightarrow> keeps I s s'"
  by (simp add: changes_def keeps_def)

lemma quiet_keeps: "quiet s s' \<Longrightarrow> I (fsys s) \<Longrightarrow> keeps I s s'"
  by (simp add: quiet_def keeps_def)

lemma changes_set_fs: "quiet s s1 \<Longrightarrow> changes g s (set_fs g s1)"
  by (simp add: changes_def quiet_def set_fs_def)

lemma sched_tail_fields:
  "sched s2 = sched s1 \<Longrightarrow> sched_tail s s1 \<Longrightarrow> sched_tail s s2"
  by (simp add: sched_tail_def)

lemma set_fs_sched [simp]: "sched (set_fs g s) = sched s"
  by (simp add: set_fs_def)

text \<open>Every call starts by taking an outcome from the schedule.\<close>

lemma take_outcome:
  obtains x s1 where "next_outcome s = (x, s1)" and "quiet s s1" and "sched_tail s s1"
    and "smooth s \<Longrightarrow> smooth_outcome x"
  using quiet_next_outcome sched_tail_next smooth_next by (metis surj_pair)

section \<open>The calls\<close>

lemma create_directories_cases:
  assumes "create_directories p s = (e, s')"
  shows "sched_tail s s' \<and>
    ((e \<noteq> None \<and> quiet s s' \<and> \<not> smooth s) \<or>
     (e = None \<and> changes ((fsys s)\<lparr>fs_dirs := insert p (fs_dirs (fsys s))\<rparr>) s s'))"
proof -
  obtain x s1 where n: "next_outcome s = (x, s1)"
    and q: "quiet s s1" "sched_tail s s1" "smooth s \<Longrightarrow> smooth_outcome x"
    using take_outcome [of s] by blast
  show ?thesis
    using assms n q changes_set_fs [OF q(1)] sched_tail_fields [OF _ q(2)]
    by (auto simp: create_directories_def Let_def quiet_def smooth_outcome_def split: outcome.splits)
qed

lemma sys_open_excl_cases:
  assumes "sys_open_excl p s = (fd, s')"
  defines "g \<equiv> new_file p (fsys s)"
  shows "sched_tail s s' \<and>
    ((fd < 0 \<and> quiet s s' \<and> (smooth s \<longrightarrow> name_too_long p \<or> fs_dir (fsys s) p \<noteq> None)) \<or>
     (0 \<le> fd \<and> \<not> name_too_long p \<and> fs_dir (fsys s) p = None \<and> fsys s' = g \<and> trace s' = g # trace s \<and>
      fd_top fd (OFile (fs_next (fsys s)) 0) (fds s) s'))"
proof -
  obtain x s1 where n: "next_outcome s = (x, s1)"
    and q: "quiet s s1" "sched_tail s s1" "smooth s \<Longrightarrow> smooth_outcome x"
    using take_outcome [of s] by blast
  have f: "fsys s1 = fsys s" "fds s1 = fds s" "trace s1 = trace s" using q(1) by (simp_all add: quiet_def)
  show ?thesis
  proof (cases "(\<exists>e. x = Fail e) \<or> name_too_long p \<or> fs_dir (fsys s) p \<noteq> None")
    case True
    with assms(1) n q f show ?thesis
      by (auto simp: sys_open_excl_def sys_fail_def quiet_def smooth_outcome_def sched_tail_def
          split: outcome.splits if_splits)
  next
    case False
    then have "fd_alloc (OFile (fs_next (fsys s)) 0) (set_fs g s1) = (fd, s')"
      using assms(1) n f by (cases x) (auto simp: sys_open_excl_def Let_def g_def)
    note a = fd_alloc_top [OF this]
    then have "fsys s' = g" "trace s' = g # trace s" "sched s' = sched s1"
      using f by (auto simp: set_fs_def)
    with a f False q(2) show ?thesis by (auto simp: set_fs_def sched_tail_def)
  qed
qed

lemma open_excl_too_long:
  assumes "name_too_long p" and "smooth s"
  shows "\<exists>s'. sys_open_excl p s = (-1, s') \<and> os_errno s' = ENAMETOOLONG"
proof -
  obtain x s1 where n: "next_outcome s = (x, s1)"
    and q: "quiet s s1" "sched_tail s s1" "smooth s \<Longrightarrow> smooth_outcome x"
    using take_outcome [of s] by blast
  then show ?thesis
    using assms by (auto simp: sys_open_excl_def sys_fail_def smooth_outcome_def split: outcome.splits)
qed

lemma sys_fdatasync_cases:
  assumes "sys_fdatasync fd s = (rc, s')" and "fd_top fd (OFile i pos) t s"
  shows "sched_tail s s' \<and>
    ((rc \<noteq> 0 \<and> quiet s s' \<and> \<not> smooth s) \<or>
     (rc = 0 \<and> changes ((fsys s)\<lparr>dur_data := (dur_data (fsys s))(i := fs_data (fsys s) i)\<rparr>) s s'))"
proof -
  obtain x s1 where n: "next_outcome s = (x, s1)"
    and q: "quiet s s1" "sched_tail s s1" "smooth s \<Longrightarrow> smooth_outcome x"
    using take_outcome [of s] by blast
  have "fsys s1 = fsys s" "map_of (fds s1) fd = Some (OFile i pos)"
    using q(1) fd_top_lookup [OF assms(2)] by (simp_all add: quiet_def)
  then show ?thesis
    using assms(1) n q changes_set_fs [OF q(1)] sched_tail_fields [OF _ q(2)]
    by (auto simp: sys_fdatasync_def sys_fail_def Let_def smooth_outcome_def split: outcome.splits)
qed

lemma sys_link_cases:
  assumes "sys_link old new s = (rc, s')"
  shows "sched_tail s s' \<and>
    ((rc \<noteq> 0 \<and> quiet s s' \<and>
        (smooth s \<longrightarrow> name_too_long old \<or> name_too_long new \<or> fs_dir (fsys s) old = None \<or>
           (os_errno s' = EEXIST \<and> fs_dir (fsys s) new \<noteq> None))) \<or>
     (rc = 0 \<and> \<not> name_too_long new \<and> fs_dir (fsys s) new = None \<and>
        (\<exists>i. fs_dir (fsys s) old = Some i \<and>
             changes (rebind new (Some i) (fsys s)) s s')))"
proof -
  obtain x s1 where n: "next_outcome s = (x, s1)"
    and q: "quiet s s1" "sched_tail s s1" "smooth s \<Longrightarrow> smooth_outcome x"
    using take_outcome [of s] by blast
  have f: "fsys s1 = fsys s" using q(1) by (simp add: quiet_def)
  show ?thesis
    using assms(1) n q f changes_set_fs [OF q(1)] sched_tail_fields [OF _ q(2)]
    by (auto simp: sys_link_def sys_fail_def Let_def smooth_outcome_def
        split: outcome.splits option.splits if_splits)
qed

lemma sys_unlink_cases:
  assumes "sys_unlink p s = (rc, s')"
  shows "sched_tail s s' \<and>
    ((rc \<noteq> 0 \<and> quiet s s' \<and>
        (smooth s \<longrightarrow> os_errno s' = (if name_too_long p then ENAMETOOLONG else ENOENT)) \<and>
        (smooth s \<longrightarrow> name_too_long p \<or> fs_dir (fsys s) p = None)) \<or>
     (rc = 0 \<and> \<not> name_too_long p \<and> fs_dir (fsys s) p \<noteq> None \<and>
        changes (rebind p None (fsys s)) s s'))"
proof -
  obtain x s1 where n: "next_outcome s = (x, s1)"
    and q: "quiet s s1" "sched_tail s s1" "smooth s \<Longrightarrow> smooth_outcome x"
    using take_outcome [of s] by blast
  have f: "fsys s1 = fsys s" using q(1) by (simp add: quiet_def)
  show ?thesis
    using assms(1) n q f changes_set_fs [OF q(1)] sched_tail_fields [OF _ q(2)]
    by (auto simp: sys_unlink_def sys_fail_def Let_def smooth_outcome_def
        split: outcome.splits option.splits if_splits)
qed

lemma sys_open_dir_cases:
  assumes "sys_open_dir p s = (fd, s')"
  shows "sched_tail s s' \<and>
    ((fd < 0 \<and> quiet s s' \<and> (smooth s \<longrightarrow> p \<notin> fs_dirs (fsys s))) \<or>
     (0 \<le> fd \<and> fsys s' = fsys s \<and> trace s' = trace s \<and> fd_top fd (ODir p) (fds s) s'))"
proof -
  obtain x s1 where n: "next_outcome s = (x, s1)"
    and q: "quiet s s1" "sched_tail s s1" "smooth s \<Longrightarrow> smooth_outcome x"
    using take_outcome [of s] by blast
  have f: "fsys s1 = fsys s" "fds s1 = fds s" "trace s1 = trace s" using q(1) by (simp_all add: quiet_def)
  show ?thesis
  proof (cases "(\<exists>e. x = Fail e) \<or> p \<notin> fs_dirs (fsys s)")
    case True
    with assms(1) n q f show ?thesis
      by (auto simp: sys_open_dir_def sys_fail_def quiet_def smooth_outcome_def sched_tail_def
          split: outcome.splits if_splits)
  next
    case False
    then have "fd_alloc (ODir p) s1 = (fd, s')"
      using assms(1) n f by (cases x) (auto simp: sys_open_dir_def)
    note a = fd_alloc_top [OF this]
    then have "fsys s' = fsys s" "trace s' = trace s" "sched s' = sched s1" using f by auto
    with a f q(2) show ?thesis by (auto simp: sched_tail_def)
  qed
qed

lemma sys_fsync_dir_cases:
  assumes "sys_fsync_dir fd s = (rc, s')" and "fd_top fd (ODir r) t s"
  shows "sched_tail s s' \<and>
    ((rc \<noteq> 0 \<and> quiet s s' \<and> \<not> smooth s) \<or>
     (rc = 0 \<and> changes ((fsys s)\<lparr>fs_had := (\<lambda>p. if in_dir r p then {} else fs_had (fsys s) p)\<rparr>) s s'))"
proof -
  obtain x s1 where n: "next_outcome s = (x, s1)"
    and q: "quiet s s1" "sched_tail s s1" "smooth s \<Longrightarrow> smooth_outcome x"
    using take_outcome [of s] by blast
  have "fsys s1 = fsys s" "map_of (fds s1) fd = Some (ODir r)"
    using q(1) fd_top_lookup [OF assms(2)] by (simp_all add: quiet_def)
  then show ?thesis
    using assms(1) n q changes_set_fs [OF q(1)] sched_tail_fields [OF _ q(2)]
    by (auto simp: sys_fsync_dir_def sys_fail_def Let_def smooth_outcome_def split: outcome.splits)
qed

end
