(* ===== verification/Store_Writing.thy ===== *)
theory Store_Writing
  imports Syscall_Effects
begin

text \<open>
  Properties of the operations of the store that write. \<open>Put\<close> works on a temporary name that
  is never the name of a chunk; the theory follows it through its phases (writing the temporary
  file, giving up, committing) and shows which file systems can be observed at every moment in
  between, whatever the schedule of failures.
\<close>

section \<open>Temporary names\<close>

definition temp_path_of :: "'h platform \<Rightarrow> FileChunkStore \<Rightarrow> u64 \<Rightarrow> ChunkId \<Rightarrow> path" where
  "temp_path_of P store addr cid =
     path_append (store_root store) (temp_filename P addr (PathFor store cid))"

lemma temp_filename_no_slash: "slash \<notin> set (temp_filename P addr (PathFor store cid))"
proof -
  have "slash \<notin> set (to_string_nat n)" for n
    using to_string_nat_digits [of n] digit_not_slash by (auto simp: list_all_iff)
  then show ?thesis
    using chunk_filename_no_slash [of cid] by (auto simp: temp_filename_def slash_def)
qed

text \<open>A temporary name ends in a digit, the name of a chunk in the letter k.\<close>

lemma temp_no_chunk_name: "no_chunk_name store (temp_path_of P store addr cid)"
  unfolding no_chunk_name_def
proof (intro allI notI)
  fix cid'
  assume "temp_path_of P store addr cid = PathFor store cid'"
  then have "temp_filename P addr (PathFor store cid) = chunk_filename cid'"
    unfolding temp_path_of_def
    by (metis path_filename_append path_filename_PathFor temp_filename_no_slash)
  then have "last (temp_filename P addr (PathFor store cid)) = CHR ''k''"
    by (simp add: chunk_filename_def)
  moreover have "is_digit (last (temp_filename P addr (PathFor store cid)))"
    using last_to_string_nat [of "unat addr"] by (simp add: temp_filename_def)
  ultimately show False by (simp add: is_digit_def)
qed

section \<open>Input streams\<close>

text \<open>Reads return well-formed values, which every \<open>StatusOr\<close> is by construction.\<close>

definition stream_ok :: "'s ChunkInputStream \<Rightarrow> bool" where
  "stream_ok I \<longleftrightarrow> (\<forall>inp n. statusor_inv (fst (in_read I inp n)))"

text \<open>Read with the store's buffer, the stream delivers \<open>blocks\<close> and then its end.\<close>

inductive drains :: "'s ChunkInputStream \<Rightarrow> 's \<Rightarrow> byte list list \<Rightarrow> 's \<Rightarrow> bool" for I where
  finished: "in_read I inp kBufferSize = (StatusOr_value [], inp') \<Longrightarrow> drains I inp [] inp'"
| block: "in_read I inp kBufferSize = (StatusOr_value b, inp1) \<Longrightarrow> b \<noteq> [] \<Longrightarrow>
     length b \<le> kBufferSize \<Longrightarrow> drains I inp1 blocks inp' \<Longrightarrow> drains I inp (b # blocks) inp'"

inductive_cases drains_NilE: "drains I inp [] inp'"
inductive_cases drains_ConsE: "drains I inp (b # blocks) inp'"

lemma stream_ok_value:
  "stream_ok I \<Longrightarrow> in_read I inp n = (r, inp') \<Longrightarrow> so_opt r = Some b \<Longrightarrow> r = StatusOr_value b"
  unfolding stream_ok_def by (metis fst_conv statusor_inv_cases StatusOr_error_value
      StatusOr_value_simps(2) option.distinct(1) option.inject)

lemma stream_ok_error:
  "stream_ok I \<Longrightarrow> in_read I inp n = (r, inp') \<Longrightarrow> so_opt r = None \<Longrightarrow> \<not> status_ok (so_status r)"
  unfolding stream_ok_def by (metis fst_conv statusor_inv_def so_ok_def)

section \<open>File systems during a Put\<close>

text \<open>
  \<open>f\<close> with a temporary file in a new inode: \<open>b\<close> is the binding of its name, \<open>d\<close> its contents,
  \<open>dd\<close> what of them is durable.
\<close>

definition temp_fs :: "fs \<Rightarrow> path \<Rightarrow> inode option \<Rightarrow> byte list \<Rightarrow> byte list \<Rightarrow> fs" where
  "temp_fs f p b d dd =
     \<lparr>fs_dir = (fs_dir f)(p := b), fs_data = (fs_data f)(fs_next f := d), fs_dirs = fs_dirs f,
      fs_next = Suc (fs_next f), fs_had = (fs_had f)(p := {None, Some (fs_next f)} \<union> fs_had f p),
      dur_data = (dur_data f)(fs_next f := dd)\<rparr>"

text \<open>Some such file system: the temporary file at some stage, or removed again.\<close>

definition scratch :: "fs \<Rightarrow> path \<Rightarrow> fs \<Rightarrow> bool" where
  "scratch f p g \<longleftrightarrow>
     (\<exists>b d dd. g = temp_fs f p b d dd \<and> (b = None \<or> b = Some (fs_next f)) \<and> length d < off_limit)"

text \<open>\<open>f\<close> with a new file of contents \<open>d\<close>, synchronised, under the name \<open>final\<close>.\<close>

definition commit_fs :: "fs \<Rightarrow> path \<Rightarrow> inode option \<Rightarrow> path \<Rightarrow> byte list \<Rightarrow> (path \<Rightarrow> inode option set) \<Rightarrow> fs" where
  "commit_fs f p b final d D =
     \<lparr>fs_dir = (fs_dir f)(p := b, final := Some (fs_next f)),
      fs_data = (fs_data f)(fs_next f := d), fs_dirs = fs_dirs f, fs_next = Suc (fs_next f),
      fs_had = D, dur_data = (dur_data f)(fs_next f := d)\<rparr>"

definition committed :: "fs \<Rightarrow> path \<Rightarrow> path \<Rightarrow> byte list \<Rightarrow> fs \<Rightarrow> bool" where
  "committed f p final d g \<longleftrightarrow>
     (\<exists>b D. g = commit_fs f p b final d D \<and> length d < off_limit \<and>
        (\<forall>q. q \<noteq> p \<longrightarrow> D q \<subseteq> {None, Some (fs_next f)} \<union> fs_had f q))"

lemma temp_fs_simps [simp]:
  "fs_dir (temp_fs f p b d dd) = (fs_dir f)(p := b)"
  "fs_data (temp_fs f p b d dd) = (fs_data f)(fs_next f := d)"
  "fs_next (temp_fs f p b d dd) = Suc (fs_next f)" 
  "fs_had (temp_fs f p b d dd) = (fs_had f)(p := {None, Some (fs_next f)} \<union> fs_had f p)"
  "dur_data (temp_fs f p b d dd) = (dur_data f)(fs_next f := dd)"
  "fs_dirs (temp_fs f p b d dd) = fs_dirs f"
  by (simp_all add: temp_fs_def)

text \<open>The steps of a \<open>Put\<close> on the temporary file.\<close>

lemma temp_fs_steps [simp]:
  "b = None \<or> b = Some (fs_next f) \<Longrightarrow> rebind p None (temp_fs f p b d dd) = temp_fs f p None d dd"
  "(temp_fs f p b d dd)\<lparr>fs_data := (fs_data f)(fs_next f := d')\<rparr> = temp_fs f p b d' dd"
  "(temp_fs f p b d dd)\<lparr>dur_data := (dur_data f)(fs_next f := d)\<rparr> = temp_fs f p b d d"
  by (auto simp: temp_fs_def rebind_def insert_commute)

lemma scratch_temp_fs:
  "length d < off_limit \<Longrightarrow> b = None \<or> b = Some (fs_next f) \<Longrightarrow> scratch f p (temp_fs f p b d dd)"
  by (auto simp only: scratch_def)

lemma scratch_sizes: "scratch f p g \<Longrightarrow> sizes_ok f \<Longrightarrow> sizes_ok g"
  by (auto simp: scratch_def sizes_ok_def)

lemma committed_sizes: "committed f p final d g \<Longrightarrow> sizes_ok f \<Longrightarrow> sizes_ok g"
  by (auto simp: committed_def commit_fs_def sizes_ok_def)

lemma scratch_store_inv:
  assumes "scratch f p g" and "store_inv P store f" and "no_chunk_name store p"
  shows "store_inv P store g"
proof (rule store_inv_step [OF assms(2)])
  show "fs_next f \<le> fs_next g" using assms(1) by (auto simp: scratch_def)
next
  fix i
  assume "i < fs_next f"
  with assms(1) show "fs_data g i = fs_data f i \<and> dur_data g i \<in> {dur_data f i, fs_data f i}"
    by (auto simp: scratch_def)
next
  fix i
  assume "chunk_ref store g i"
  with assms(1,3) show "chunk_ref store f i"
    by (auto simp: scratch_def chunk_ref_def no_chunk_name_def split: if_splits)
qed

lemma committed_store_inv:
  assumes c: "committed f p final d g" and inv: "store_inv P store f"
    and p: "no_chunk_name store p" and d: "good_file P d"
  shows "store_inv P store g"
  unfolding store_inv_def
proof (intro allI impI)
  fix i
  assume r: "chunk_ref store g i"
  have "i = fs_next f \<or> chunk_ref store f i"
    using r c p unfolding chunk_ref_def committed_def commit_fs_def no_chunk_name_def
    by (fastforce split: if_splits)
  then show "good_file P (fs_data g i) \<and> dur_data g i = fs_data g i \<and> i < fs_next g"
    using c d inv by (auto simp: committed_def commit_fs_def store_inv_def)
qed

text \<open>What the store sees of these file systems.\<close>

lemma scratch_stored:
  assumes "scratch f p g" and "store_inv P store f" and "no_chunk_name store p"
  shows "stored store g = stored store f"
proof
  fix cid
  have "i < fs_next f" if "fs_dir f (PathFor store cid) = Some i" for i
    using assms(2) that by (auto simp: store_inv_def chunk_ref_def)
  with assms(1,3) show "stored store g cid = stored store f cid"
    by (cases "fs_dir f (PathFor store cid)")
      (auto simp: scratch_def stored_def no_chunk_name_def)
qed

lemma committed_stored:
  assumes "committed f p (PathFor store c) d g" and "store_inv P store f" and "no_chunk_name store p"
  shows "stored store g = (stored store f)(c \<mapsto> d)"
proof
  fix cid
  have "i < fs_next f" if "fs_dir f (PathFor store cid) = Some i" for i
    using assms(2) that by (auto simp: store_inv_def chunk_ref_def)
  with assms(1,3) show "stored store g cid = ((stored store f)(c \<mapsto> d)) cid"
    by (cases "fs_dir f (PathFor store cid)")
      (auto simp: committed_def commit_fs_def stored_def no_chunk_name_def dest: PathFor_inj)
qed

section \<open>Phases of a Put\<close>

text \<open>
  The temporary file holds \<open>d\<close> and the descriptor on it stands at its end; \<open>t\<close> is the table of
  the descriptors opened before.
\<close>

definition writing :: "fs \<Rightarrow> path \<Rightarrow> int \<Rightarrow> (int \<times> ofile) list \<Rightarrow> byte list \<Rightarrow> os \<Rightarrow> bool" where
  "writing f p fd t d s \<longleftrightarrow>
     fsys s = temp_fs f p (Some (fs_next f)) d [] \<and> length d < off_limit \<and> at_end fd (fs_next f) t s"

text \<open>The file has been given up or removed; the descriptor is still open.\<close>

definition given_up :: "fs \<Rightarrow> path \<Rightarrow> int \<Rightarrow> (int \<times> ofile) list \<Rightarrow> os \<Rightarrow> os \<Rightarrow> bool" where
  "given_up f p fd t s s' \<longleftrightarrow> keeps (scratch f p) s s' \<and> (\<exists>g. fd_top fd g t s')"

lemma writing_scratch: "writing f p fd t d s \<Longrightarrow> scratch f p (fsys s)"
  by (auto simp: writing_def scratch_def)

lemma writing_top: "writing f p fd t d s \<Longrightarrow> \<exists>g. fd_top fd g t s"
  by (auto simp: writing_def at_end_def)

lemma writes_to_scratch:
  assumes "writing f p fd t d s" and "writes_to (fs_next f) (fsys s) g"
  shows "scratch f p g"
proof -
  obtain d' where "g = (fsys s)\<lparr>fs_data := (fs_data (fsys s))(fs_next f := d')\<rparr>" "length d' < off_limit"
    using assms by (auto simp: writes_to_def writing_def)
  moreover have "fsys s = temp_fs f p (Some (fs_next f)) d []" using assms(1) by (simp add: writing_def)
  ultimately show ?thesis by (simp add: scratch_temp_fs)
qed

lemma writing_appended:
  assumes "writing f p fd t d s" and "appended fd (fs_next f) t bs s s'"
  shows "writing f p fd t (d @ bs) s'" and "keeps (scratch f p) s s'"
proof -
  show k: "keeps (scratch f p) s s'"
    using assms writes_to_scratch [OF assms(1)] unfolding appended_def keeps_def by blast
  have "length (d @ bs) < off_limit"
    using appended_writes_to [OF assms(2)] assms
    by (auto simp: writes_to_def writing_def appended_def temp_fs_def dest!: fun_cong [of _ _ "fs_next f"])
  then show "writing f p fd t (d @ bs) s'"
    using assms by (simp add: writing_def appended_def temp_fs_def)
qed

text \<open>Removing the temporary name; a failure to do so leaves the file behind.\<close>

lemma cleanup_cases:
  obtains "quiet s (cleanup p s)" and "smooth s \<Longrightarrow> name_too_long p \<or> fs_dir (fsys s) p = None"
    and "sched_tail s (cleanup p s)"
  | "changes (rebind p None (fsys s)) s (cleanup p s)"
    and "sched_tail s (cleanup p s)"
proof -
  obtain rc s' where u: "sys_unlink p s = (rc, s')" by fastforce
  then have "cleanup p s = s'" by (simp add: cleanup_def)
  with sys_unlink_cases [OF u] show thesis using that by blast
qed

lemma cleanup_scratch:
  assumes "scratch f p (fsys s)"
  shows "keeps (scratch f p) s (cleanup p s)" and "fds (cleanup p s) = fds s"
proof -
  obtain b d dd where "fsys s = temp_fs f p b d dd" "b = None \<or> b = Some (fs_next f)" "length d < off_limit"
    using assms by (auto simp: scratch_def)
  then have *: "scratch f p (rebind p None (fsys s))"
    by (simp add: scratch_temp_fs)
  show "keeps (scratch f p) s (cleanup p s)"
    by (rule cleanup_cases [of s p]) (simp_all add: quiet_keeps changes_keeps assms *)
  show "fds (cleanup p s) = fds s"
    by (rule cleanup_cases [of s p]) (simp_all add: quiet_def changes_def)
qed

lemma writing_given_up: "writing f p fd t d s \<Longrightarrow> given_up f p fd t s (cleanup p s)"
  using writing_scratch writing_top cleanup_scratch by (metis given_up_def fd_top_def)

lemma given_up_after: "keeps (scratch f p) s s1 \<Longrightarrow> given_up f p fd t s1 s' \<Longrightarrow> given_up f p fd t s s'"
  by (auto simp: given_up_def intro: keeps_trans)

lemma given_up_destroy:
  assumes "given_up f p fd t s s'" and "0 \<le> fd"
  shows "keeps (scratch f p) s (ufd_destroy (ufd_make fd) s') \<and> fds (ufd_destroy (ufd_make fd) s') = t"
  using assms by (auto simp: given_up_def ufd_destroy_top keeps_def)

subsection \<open>The receive loop\<close>

text \<open>One turn of the receive loop, as a rule for case analysis.\<close>

lemma put_loop_turn:
  assumes l: "put_loop P I p fd e r h inp s = (res, inp', s')"
  obtains (failed) c where "in_read I inp kBufferSize = (c, inp')" "so_opt c = None" "res = Inl (so_status c)" "s' = cleanup p s"
    | (finished) c where "in_read I inp kBufferSize = (c, inp')" "so_opt c = Some []" "res = Inr (r, h)" "s' = s"
    | (over) c b where "in_read I inp kBufferSize = (c, inp')" "so_opt c = Some b" "b \<noteq> []"
      "length b > kBufferSize \<or> r > e \<or> word_of_nat (length b) > e - r"
      "res = Inl (mk_Status kCorruption ''received more bytes than expected'')" "s' = cleanup p s"
    | (unwritten) c b st s1 where "in_read I inp kBufferSize = (c, inp')" "so_opt c = Some b" "b \<noteq> []"
      "\<not> (length b > kBufferSize \<or> r > e \<or> word_of_nat (length b) > e - r)" "WriteAll P fd b s = (st, s1)" "\<not> status_ok st"
      "res = Inl st" "s' = cleanup p s1"
    | (more) c inp1 b st s1 where "in_read I inp kBufferSize = (c, inp1)" "so_opt c = Some b" "b \<noteq> []"
      "\<not> (length b > kBufferSize \<or> r > e \<or> word_of_nat (length b) > e - r)" "WriteAll P fd b s = (st, s1)" "status_ok st"
      "put_loop P I p fd e (r + word_of_nat (length b)) (b3_update P h b) inp1 s1 = (res, inp', s')"
proof -
  note l' = l [unfolded put_loop.simps [of P I p fd e r h inp s]]
  obtain c inp1 where rd: "in_read I inp kBufferSize = (c, inp1)" by fastforce
  show thesis
  proof (cases "so_opt c")
    case None
    then show ?thesis using l' rd by (intro failed [of c]) auto
  next
    case (Some b)
    obtain st s1 where w: "WriteAll P fd b s = (st, s1)" by fastforce
    note l2 = l' [unfolded rd prod.case Some option.case w]
    consider "b = []" | "b \<noteq> []" "length b > kBufferSize \<or> r > e \<or> word_of_nat (length b) > e - r"
      | "b \<noteq> []" "\<not> (length b > kBufferSize \<or> r > e \<or> word_of_nat (length b) > e - r)" "\<not> status_ok st"
      | "b \<noteq> []" "\<not> (length b > kBufferSize \<or> r > e \<or> word_of_nat (length b) > e - r)" "status_ok st" by blast
    then show ?thesis
    proof cases
      case 1
      then show ?thesis using l2 rd Some by (intro finished [of c]) auto
    next
      case 2
      then show ?thesis using l2 rd Some by (intro over [of c b]) auto
    next
      case 3
      then show ?thesis using l2 rd Some w by (intro unwritten [of c b st s1]) auto
    next
      case 4
      then show ?thesis using l2 rd Some w by (intro more [of c inp1 b st s1]) auto
    qed
  qed
qed

text \<open>
  Whatever the stream and the schedule do, the loop either gives up, with an error, or has
  drained the stream, and then the file, the hasher and the counter agree on what came.
\<close>

definition received_all ::
  "'h platform \<Rightarrow> 's ChunkInputStream \<Rightarrow> fs \<Rightarrow> path \<Rightarrow> int \<Rightarrow> (int \<times> ofile) list \<Rightarrow> byte list \<Rightarrow> u64 \<Rightarrow> 'h \<Rightarrow>
     's \<Rightarrow> os \<Rightarrow> u64 \<Rightarrow> 'h \<Rightarrow> 's \<Rightarrow> os \<Rightarrow> bool" where
  "received_all P I f p fd t d r h inp s r' h' inp' s' \<longleftrightarrow>
     (\<exists>blocks. drains I inp blocks inp' \<and> writing f p fd t (d @ concat blocks) s' \<and>
        keeps (scratch f p) s s' \<and> h' = foldl (b3_update P) h blocks \<and>
        unat r' = unat r + length (concat blocks))"

lemma received_all_step:
  assumes "in_read I inp kBufferSize = (StatusOr_value b, inp1)" and "b \<noteq> []" and "length b \<le> kBufferSize"
    and "keeps (scratch f p) s s1" and "unat r1 = unat r + length b"
    and "received_all P I f p fd t (d @ b) r1 (b3_update P h b) inp1 s1 r' h' inp' s'"
  shows "received_all P I f p fd t d r h inp s r' h' inp' s'"
proof -
  obtain blocks where "drains I inp1 blocks inp'" "writing f p fd t (d @ b @ concat blocks) s'"
    "keeps (scratch f p) s1 s'" "h' = foldl (b3_update P) (b3_update P h b) blocks"
    "unat r' = unat r1 + length (concat blocks)"
    using assms(6) by (auto simp: received_all_def)
  then show ?thesis
    unfolding received_all_def using assms(1-5)
    by (intro exI [of _ "b # blocks"]) (auto intro: drains.block keeps_trans)
qed

text \<open>The guard of the loop keeps the counter from wrapping.\<close>

lemma received_exact:
  fixes r e :: u64
  assumes "r \<le> e" and "n \<le> kBufferSize" and "\<not> word_of_nat n > e - r"
  shows "unat (r + word_of_nat n) = unat r + n" and "r + word_of_nat n \<le> e"
proof -
  have n: "unat (word_of_nat n :: u64) = n"
    using assms(2) by (intro unat_of_nat_u64) (simp add: kBufferSize_def)
  have "n \<le> unat e - unat r"
    using assms(1,3) n by (simp add: word_less_nat_alt unat_sub not_less)
  then have le: "unat r + n \<le> unat e" using assms(1) by (simp add: word_le_nat_alt)
  moreover have "unat e < 2 ^ 64" using unsigned_less [of e, where ?'a = nat] by simp
  ultimately show u: "unat (r + word_of_nat n) = unat r + n"
    using n by (simp add: unat_word_ariths)
  show "r + word_of_nat n \<le> e" using le u by (simp add: word_le_nat_alt)
qed

lemma put_loop_phases:
  assumes "put_loop P I p fd e r h inp s = (res, inp', s')" and "stream_ok I"
    and "writing f p fd t d s" and "r \<le> e"
  shows "case res of
           Inl st \<Rightarrow> \<not> status_ok st \<and> given_up f p fd t s s'
         | Inr (r', h') \<Rightarrow> received_all P I f p fd t d r h inp s r' h' inp' s'"
  using assms
proof (induction P I p fd e r h inp s arbitrary: d rule: put_loop.induct)
  case (1 P I p fd e r h inp s)
  note w = "1.prems"(3) and I = "1.prems"(2)
  have e: "at_end fd (fs_next f) t s" using w by (simp add: writing_def)
  from "1.prems"(1) show ?case
  proof (cases rule: put_loop_turn)
    case (failed c)
    then show ?thesis using writing_given_up [OF w] stream_ok_error [OF I failed(1,2)] by simp
  next
    case (finished c)
    then show ?thesis using w stream_ok_value [OF I finished(1,2)]
      by (auto simp: received_all_def intro!: exI [of _ "[]"] drains.finished quiet_keeps writing_scratch)
  next
    case (over c b)
    then show ?thesis using writing_given_up [OF w] by simp
  next
    case (unwritten c b st s1)
    obtain n where "appended fd (fs_next f) t (take n b) s s1" using WriteAll_appended [OF unwritten(5) e] by blast
    note a = writing_appended [OF w this]
    show ?thesis using unwritten(6-8) given_up_after [OF a(2) writing_given_up [OF a(1)]] by simp
  next
    case (more c inp1 b st s1)
    note a = writing_appended [OF w WriteAll_ok_appended [OF more(5) e more(6)]]
    note x = received_exact [of r e "length b"] and v = more(1) [unfolded stream_ok_value [OF I more(1,2)]]
    have "case res of
       Inl st \<Rightarrow> \<not> status_ok st \<and> given_up f p fd t s1 s'
     | Inr (r', h') \<Rightarrow>
         received_all P I f p fd t (d @ b) (r + word_of_nat (length b)) (b3_update P h b) inp1 s1 r' h' inp' s'"
      by (rule "1.IH" [OF more(1) [symmetric] more(2-4) more(5) [symmetric] _ more(7) I a(1)])
        (use more(4,6) x "1.prems"(4) in auto)
    then show ?thesis
      using given_up_after [OF a(2)] received_all_step [OF v more(3) _ a(2)] x more(4) "1.prems"(4)
      by (auto split: sum.splits prod.splits)
  qed
qed

subsection \<open>The commit\<close>

lemma commit_fs_simps [simp]:
  "fs_dir (commit_fs f p b final d D) = (fs_dir f)(p := b, final := Some (fs_next f))"
  "fs_data (commit_fs f p b final d D) = (fs_data f)(fs_next f := d)"
  "fs_had (commit_fs f p b final d D) = D" "fs_dirs (commit_fs f p b final d D) = fs_dirs f"
  "dur_data (commit_fs f p b final d D) = (dur_data f)(fs_next f := d)"
  "fs_next (commit_fs f p b final d D) = Suc (fs_next f)"
  by (simp_all add: commit_fs_def)

lemma committed_link:
  assumes "fsys s = temp_fs f p (Some (fs_next f)) d d" and "length d < off_limit" and "fs_dir f final = None" and "p \<noteq> final"
  shows "committed f p final d (rebind final (Some (fs_next f)) (fsys s))"
proof -
  let ?g = "rebind final (Some (fs_next f)) (fsys s)"
  have "?g = commit_fs f p (Some (fs_next f)) final d (fs_had ?g)"
    using assms(1) by (simp add: temp_fs_def commit_fs_def rebind_def)
  moreover have "\<forall>q. q \<noteq> p \<longrightarrow> fs_had ?g q \<subseteq> {None, Some (fs_next f)} \<union> fs_had f q" using assms by auto
  ultimately show ?thesis using assms(2) unfolding committed_def by blast
qed

lemma committed_unlink:
  assumes "committed f p final d g" and "p \<noteq> final"
  shows "committed f p final d (rebind p None g)"
proof -
  obtain b D where g: "g = commit_fs f p b final d D" "length d < off_limit"
    "\<forall>q. q \<noteq> p \<longrightarrow> D q \<subseteq> {None, Some (fs_next f)} \<union> fs_had f q"
    using assms(1) unfolding committed_def by blast
  have "rebind p None g = commit_fs f p None final d (fs_had (rebind p None g))"
    using assms(2) g(1) by (simp add: commit_fs_def rebind_def fun_upd_twist)
  moreover have "\<forall>q. q \<noteq> p \<longrightarrow> fs_had (rebind p None g) q \<subseteq> {None, Some (fs_next f)} \<union> fs_had f q" using g(1,3) by auto
  ultimately show ?thesis using g(2) unfolding committed_def by blast
qed

lemma committed_fsync:
  assumes "committed f p final d g"
  shows "committed f p final d (g\<lparr>fs_had := (\<lambda>q. if in_dir r q then {} else fs_had g q)\<rparr>)"
proof -
  obtain b D where g: "g = commit_fs f p b final d D" "length d < off_limit"
    "\<forall>q. q \<noteq> p \<longrightarrow> D q \<subseteq> {None, Some (fs_next f)} \<union> fs_had f q"
    using assms(1) unfolding committed_def by blast
  let ?D = "\<lambda>q. if in_dir r q then {} else fs_had g q"
  have "g\<lparr>fs_had := ?D\<rparr> = commit_fs f p b final d ?D"
    using g(1) by (simp add: commit_fs_def)
  moreover have "\<forall>q. q \<noteq> p \<longrightarrow> ?D q \<subseteq> {None, Some (fs_next f)} \<union> fs_had f q"
    using g by auto
  ultimately show ?thesis using g(2) unfolding committed_def by blast
qed

lemma committed_final: "committed f p final d g \<Longrightarrow> fs_dir g final = Some (fs_next f)"
  by (auto simp: committed_def)

lemma committed_dirs: "committed f p final d g \<Longrightarrow> fs_dirs g = fs_dirs f"
  by (auto simp: committed_def)

lemma cleanup_committed:
  assumes "committed f p final d (fsys s)" and "p \<noteq> final"
  shows "keeps (committed f p final d) s (cleanup p s)" and "fds (cleanup p s) = fds s"
    and "sched_tail s (cleanup p s)"
proof -
  show "keeps (committed f p final d) s (cleanup p s)"
    by (rule cleanup_cases [of s p])
      (simp_all add: quiet_keeps changes_keeps assms committed_unlink)
  show "fds (cleanup p s) = fds s" "sched_tail s (cleanup p s)"
    by (rule cleanup_cases [of s p]; simp add: quiet_def changes_def)+
qed

lemma put_publish_phases:
  assumes pp: "put_publish P store p s = (st, s')" and c: "committed f p final d (fsys s)"
    and ne: "p \<noteq> final" and dir: "in_dir (store_root store) final"
  shows "keeps (committed f p final d) s s'" and "fds s' = fds s"
    and "(st = Status_Ok \<and> fs_had (fsys s') final = {}) \<or> st_code st = kIoError"
    and "smooth s \<Longrightarrow> store_root store \<in> fs_dirs f \<Longrightarrow> st = Status_Ok"
proof -
  let ?C = "committed f p final d"
  define s1 where "s1 = cleanup p s"
  note c1 = cleanup_committed [OF c ne, folded s1_def]
  have C1: "?C (fsys s1)" by (rule keeps_last [OF c1(1)])
  obtain dfd s2 where o: "sys_open_dir (store_root store) s1 = (dfd, s2)" by fastforce
  have sm: "smooth s \<Longrightarrow> smooth s1" by (rule sched_tail_smooth [OF c1(3)])
  have "keeps ?C s s' \<and> fds s' = fds s \<and>
    ((st = Status_Ok \<and> fs_had (fsys s') final = {}) \<or> st_code st = kIoError) \<and>
    (smooth s \<longrightarrow> store_root store \<in> fs_dirs f \<longrightarrow> st = Status_Ok)"
  proof (cases "0 \<le> dfd")
    case False
    with sys_open_dir_cases [OF o] have q: "quiet s1 s2" "smooth s1 \<longrightarrow> store_root store \<notin> fs_dirs (fsys s1)"
      by auto
    have e: "st = IoError P ''fsync directory'' (store_root store) s2" "s' = s2"
      using pp o False by (auto simp: put_publish_def s1_def Let_def ufd_destroy_make)
    have "keeps ?C s1 s2" using q(1) C1 by (simp add: quiet_keeps)
    then have "keeps ?C s s2" by (rule keeps_trans [OF c1(1)])
    with q sm c1(2) committed_dirs [OF C1] show ?thesis
      unfolding e by (auto simp: IoError_def quiet_def)
  next
    case True
    with sys_open_dir_cases [OF o] have o2: "fsys s2 = fsys s1" "trace s2 = trace s1"
      "fd_top dfd (ODir (store_root store)) (fds s1) s2" "sched_tail s1 s2" by auto
    obtain rc s3 where y: "sys_fsync_dir dfd s2 = (rc, s3)" by fastforce
    note y3 = sys_fsync_dir_cases [OF y o2(3)]
    have e: "st = (if rc \<noteq> 0 then IoError P ''fsync directory'' (store_root store) s3 else Status_Ok)"
      "s' = ufd_destroy (ufd_make dfd) s3"
      using pp o True y by (auto simp: put_publish_def s1_def Let_def split: if_splits)
    have "fds s3 = fds s2" using y3 by (auto simp: quiet_def changes_def)
    then have "fd_top dfd (ODir (store_root store)) (fds s1) s3" using o2(3) by (simp add: fd_top_def)
    then have s': "s' = s3\<lparr>fds := fds s1\<rparr>" using e(2) True by (simp add: ufd_destroy_top)
    have "keeps ?C s1 s2" using C1 o2 by (simp add: keeps_def)
    moreover have "keeps ?C s2 s3"
      using y3 C1 o2(1) committed_fsync [OF C1] quiet_keeps changes_keeps by metis
    ultimately have "keeps ?C s s3" using c1(1) by (blast intro: keeps_trans)
    then have "keeps ?C s s'" by (simp add: s' keeps_def)
    moreover have "rc = 0 \<Longrightarrow> fs_had (fsys s') final = {}"
      using y3 dir o2(1) committed_final [OF C1] by (auto simp: s' changes_def)
    moreover have "rc \<noteq> 0 \<Longrightarrow> \<not> smooth s"
      using y3 sm o2(4) sched_tail_smooth by blast
    ultimately show ?thesis using c1(2) by (auto simp: e(1) s' IoError_def)
  qed
  then show "keeps ?C s s'" "fds s' = fds s"
    "(st = Status_Ok \<and> fs_had (fsys s') final = {}) \<or> st_code st = kIoError"
    "smooth s \<Longrightarrow> store_root store \<in> fs_dirs f \<Longrightarrow> st = Status_Ok"
    by blast+
qed

text \<open>A file system seen during a \<open>Put\<close> that reaches its commit.\<close>

definition put_moment :: "fs \<Rightarrow> path \<Rightarrow> path \<Rightarrow> byte list \<Rightarrow> fs \<Rightarrow> bool" where
  "put_moment f p final d g \<longleftrightarrow> scratch f p g \<or> committed f p final d g"

lemma keeps_mono: "keeps I s s' \<Longrightarrow> (\<And>g. I g \<Longrightarrow> J g) \<Longrightarrow> keeps J s s'"
  unfolding keeps_def by blast

text \<open>The outcome of a \<open>Put\<close> after the temporary file was made: not committed, or committed.\<close>

definition put_outcome ::
  "fs \<Rightarrow> path \<Rightarrow> path \<Rightarrow> byte list \<Rightarrow> os \<Rightarrow> Status \<Rightarrow> os \<Rightarrow> bool" where
  "put_outcome f p final d s st s' \<longleftrightarrow>
     (\<not> status_ok st \<and> keeps (scratch f p) s s') \<or>
     (fs_dir f final = None \<and> keeps (put_moment f p final d) s s' \<and> committed f p final d (fsys s') \<and>
      ((st = Status_Ok \<and> fs_had (fsys s') final = {}) \<or> st_code st = kIoError))"

lemma put_outcome_after:
  assumes "keeps (scratch f p) s s1" and "put_outcome f p final d s1 st s'"
  shows "put_outcome f p final d s st s'"
proof -
  have "keeps (put_moment f p final d) s s1"
    using assms(1) by (rule keeps_mono) (simp add: put_moment_def)
  with assms show ?thesis unfolding put_outcome_def by (blast intro: keeps_trans)
qed

text \<open>The commit once the data are synchronised and the descriptor is closed.\<close>

definition put_link ::
  "'h platform \<Rightarrow> FileChunkStore \<Rightarrow> ChunkId \<Rightarrow> path \<Rightarrow> path \<Rightarrow> os \<Rightarrow> Status \<times> os" where
  "put_link P store cid p final s =
     (case sys_link p final s of (rc, s) \<Rightarrow>
        if rc \<noteq> 0
        then (let e = os_errno s; s = cleanup p s
              in if e = EEXIST
                 then (mk_Status kAlreadyExists (''chunk already exists: '' @ chunk_id_value cid), s)
                 else (let s = s\<lparr>os_errno := e\<rparr> in (IoError P ''commit'' final s, s)))
        else put_publish P store p s)"

lemma put_link_outcome:
  assumes pl: "put_link P store cid p final s = (st, s')" and len: "length d < off_limit"
    and f: "fsys s = temp_fs f p (Some (fs_next f)) d d"
    and ne: "p \<noteq> final" and dir: "in_dir (store_root store) final"
  shows "put_outcome f p final d s st s'" and "fds s' = fds s"
    and "smooth s \<Longrightarrow> \<not> name_too_long p \<Longrightarrow> \<not> name_too_long final \<Longrightarrow> store_root store \<in> fs_dirs f \<Longrightarrow>
           st_code st = (if fs_dir f final = None then kOk else kAlreadyExists)"
proof -
  obtain rc s1 where l: "sys_link p final s = (rc, s1)" by fastforce
  have sc: "scratch f p (fsys s)" using f len by (simp add: scratch_temp_fs)
  have dirs: "fs_dir (fsys s) p = Some (fs_next f)" "fs_dir (fsys s) final = fs_dir f final"
    using f ne by simp_all
  have "put_outcome f p final d s st s' \<and> fds s' = fds s \<and>
    (smooth s \<longrightarrow> \<not> name_too_long p \<longrightarrow> \<not> name_too_long final \<longrightarrow> store_root store \<in> fs_dirs f \<longrightarrow>
       st_code st = (if fs_dir f final = None then kOk else kAlreadyExists))"
  proof (cases "rc = 0")
    case False
    with sys_link_cases [OF l] have q: "quiet s s1" by blast
    then have k: "keeps (scratch f p) s s1" "scratch f p (fsys s1)"
      using sc by (auto simp: quiet_def keeps_def)
    note u = cleanup_scratch [OF k(2)]
    have st: "st_code st = (if os_errno s1 = EEXIST then kAlreadyExists else kIoError)"
      "fsys s' = fsys (cleanup p s1)" "trace s' = trace (cleanup p s1)" "fds s' = fds (cleanup p s1)"
      using pl l False by (auto simp: put_link_def Let_def IoError_def split: if_splits)
    have "keeps (scratch f p) s s'"
      using keeps_trans [OF k(1) u(1)] st(2,3) by (simp add: keeps_def)
    with sys_link_cases [OF l] False st u(2) q dirs show ?thesis
      by (auto simp: put_outcome_def status_ok_def quiet_def)
  next
    case True
    with sys_link_cases [OF l] dirs have ch: "changes (rebind final (Some (fs_next f)) (fsys s)) s s1"
      and free: "fs_dir f final = None" and tl: "sched_tail s s1" by auto
    have c: "committed f p final d (fsys s1)"
      using committed_link [OF f len free ne] ch by (simp add: changes_def)
    have pp: "put_publish P store p s1 = (st, s')" using pl l True by (simp add: put_link_def)
    note ph = put_publish_phases [OF pp c ne dir]
    have "keeps (put_moment f p final d) s s1"
      using c ch by (auto simp: changes_def keeps_def put_moment_def)
    moreover have "keeps (put_moment f p final d) s1 s'"
      using ph(1) by (rule keeps_mono) (simp add: put_moment_def)
    ultimately have "put_outcome f p final d s st s'"
      using free ph(3) keeps_last [OF ph(1)] unfolding put_outcome_def by (blast intro: keeps_trans)
    moreover have "fds s' = fds s" using ph(2) ch by (simp add: changes_def)
    ultimately show ?thesis
      using ph(4) sched_tail_smooth [OF tl] free by auto
  qed
  then show "put_outcome f p final d s st s'" "fds s' = fds s"
    "smooth s \<Longrightarrow> \<not> name_too_long p \<Longrightarrow> \<not> name_too_long final \<Longrightarrow> store_root store \<in> fs_dirs f \<Longrightarrow>
       st_code st = (if fs_dir f final = None then kOk else kAlreadyExists)"
    by blast+
qed

lemma put_commit_eq:
  assumes "received = expected_size request" and "FinalizeHex P h = checksum_value (expected_checksum request)"
    and "sys_fdatasync fd s = (0, s1)" and "0 \<le> fd"
  shows "put_commit P store request p final (ufd_make fd) received h s =
    put_link P store (put_chunk_id request) p final (sys_close fd s1)"
  using assms
  by (auto simp: put_commit_def put_link_def Let_def ufd_reset_def ufd_destroy_def ufd_make_def
      ufd_get_def split: prod.splits)

lemma writing_quiet: "writing f p fd t d s \<Longrightarrow> quiet s s1 \<Longrightarrow> writing f p fd t d s1"
  by (simp add: writing_def quiet_def at_end_def fd_top_def)

lemma put_commit_phases:
  assumes pc: "put_commit P store req p final (ufd_make fd) r h s = (st, s')" and fd: "0 \<le> fd"
    and w: "writing f p fd t d s" and ne: "p \<noteq> final" and dir: "in_dir (store_root store) final"
  defines "bad \<equiv> r \<noteq> expected_size req \<or> FinalizeHex P h \<noteq> checksum_value (expected_checksum req)"
  shows "fds s' = t" and "bad \<Longrightarrow> st_code st = kCorruption \<and> keeps (scratch f p) s s'"
    and "put_outcome f p final d s st s'"
    and "smooth s \<Longrightarrow> \<not> name_too_long p \<Longrightarrow> \<not> name_too_long final \<Longrightarrow> store_root store \<in> fs_dirs f \<Longrightarrow>
           \<not> bad \<Longrightarrow> st_code st = (if fs_dir f final = None then kOk else kAlreadyExists)"
proof -
  obtain rc s1 where y: "sys_fdatasync fd s = (rc, s1)" by fastforce
  have top: "fd_top fd (OFile (fs_next f) (length d)) t s" and len: "length d < off_limit"
    and fs: "fsys s = temp_fs f p (Some (fs_next f)) d []"
    using w by (auto simp: writing_def at_end_def)
  note y1 = sys_fdatasync_cases [OF y top]
  consider (bad) bad | (nosync) "\<not> bad" "rc \<noteq> 0" | (sync) "\<not> bad" "rc = 0" by blast
  then have "fds s' = t \<and> (bad \<longrightarrow> st_code st = kCorruption \<and> keeps (scratch f p) s s') \<and>
    put_outcome f p final d s st s' \<and>
    (smooth s \<longrightarrow> \<not> name_too_long p \<longrightarrow> \<not> name_too_long final \<longrightarrow> store_root store \<in> fs_dirs f \<longrightarrow>
       \<not> bad \<longrightarrow> st_code st = (if fs_dir f final = None then kOk else kAlreadyExists))"
  proof cases
    case bad
    then have "st_code st = kCorruption" "s' = ufd_destroy (ufd_make fd) (cleanup p s)"
      using pc by (auto simp: bad_def put_commit_def split: if_splits)
    with bad given_up_destroy [OF writing_given_up [OF w] fd] show ?thesis
      by (simp add: put_outcome_def status_ok_def)
  next
    case nosync
    with y1 have q: "quiet s s1" "\<not> smooth s" by blast+
    have "st_code st = kIoError" "s' = ufd_destroy (ufd_make fd) (cleanup p s1)"
      using pc nosync y by (auto simp: bad_def put_commit_def IoError_def split: if_splits)
    moreover have "keeps (scratch f p) s s1" using q(1) writing_scratch [OF w] by (simp add: quiet_keeps)
    ultimately show ?thesis
      using q nosync given_up_destroy [OF given_up_after [OF _ writing_given_up [OF writing_quiet [OF w q(1)]]] fd]
      by (simp add: put_outcome_def status_ok_def)
  next
    case sync
    with y1 have ch: "changes (temp_fs f p (Some (fs_next f)) d d) s s1" and tl: "sched_tail s s1"
      using fs by auto
    then have fs1: "fsys s1 = temp_fs f p (Some (fs_next f)) d d" and top1: "fd_top fd (OFile (fs_next f) (length d)) t s1"
      using top by (simp_all add: changes_def fd_top_def)
    let ?s2 = "s1\<lparr>fds := t\<rparr>"
    have pl: "put_link P store (put_chunk_id req) p final ?s2 = (st, s')"
      using pc sync y put_commit_eq [of r req P h fd s s1 store p final] fd fd_top_close [OF top1]
      by (simp add: bad_def)
    note lo = put_link_outcome [OF pl len _ ne dir, of f]
    have "keeps (scratch f p) s ?s2"
      using ch scratch_temp_fs [OF len] by (simp add: changes_def keeps_def)
    then show ?thesis
      using lo fs1 sync put_outcome_after sched_tail_smooth [OF tl] by (simp add: smooth_def)
  qed
  then show "fds s' = t" "bad \<Longrightarrow> st_code st = kCorruption \<and> keeps (scratch f p) s s'"
    "put_outcome f p final d s st s'"
    "smooth s \<Longrightarrow> \<not> name_too_long p \<Longrightarrow> \<not> name_too_long final \<Longrightarrow> store_root store \<in> fs_dirs f \<Longrightarrow>
       \<not> bad \<Longrightarrow> st_code st = (if fs_dir f final = None then kOk else kAlreadyExists)"
    by blast+
qed

section \<open>Put\<close>

definition mkdir :: "path \<Rightarrow> fs \<Rightarrow> fs" where
  "mkdir r f = f\<lparr>fs_dirs := insert r (fs_dirs f)\<rparr>"

text \<open>A file system seen during a \<open>Put\<close> that does not commit.\<close>

definition untouched :: "path \<Rightarrow> path \<Rightarrow> fs \<Rightarrow> fs \<Rightarrow> bool" where
  "untouched r p f g \<longleftrightarrow> g = f \<or> g = mkdir r f \<or> scratch (mkdir r f) p g"

lemma keeps_scratch_untouched:
  assumes "changes (mkdir r f) s s1" and "f = fsys s" and "keeps (scratch (mkdir r f) p) s1 s'"
  shows "keeps (untouched r p f) s s'"
proof (rule keeps_trans)
  show "keeps (untouched r p f) s s1"
    using assms(1) by (simp add: changes_def keeps_def untouched_def)
  show "keeps (untouched r p f) s1 s'"
    using assms(3) by (rule keeps_mono) (simp add: untouched_def)
qed

text \<open>The contents of the file a \<open>Put\<close> that received \<open>payload\<close> commits.\<close>

definition put_bytes :: "PutChunkRequest \<Rightarrow> byte list \<Rightarrow> byte list" where
  "put_bytes req payload = MakeHeader (expected_size req) (expected_checksum req) @ payload"

text \<open>The stream delivered what the request announced.\<close>

definition delivered :: "'h platform \<Rightarrow> PutChunkRequest \<Rightarrow> byte list list \<Rightarrow> bool" where
  "delivered P req blocks \<longleftrightarrow>
     length (concat blocks) = unat (expected_size req) \<and>
     FinalizeHex P (foldl (b3_update P) (b3_init P) blocks) = checksum_value (expected_checksum req)"

definition put_valid :: "PutChunkRequest \<Rightarrow> bool" where
  "put_valid req \<longleftrightarrow>
     status_ok (ValidateId (put_chunk_id req)) \<and> status_ok (ValidateChecksum (expected_checksum req))"

text \<open>Opening the temporary file succeeded: the protocol from there on.\<close>

lemma open_excl_writing:
  assumes "sys_open_excl p s = (fd, s1)" and "0 \<le> fd"
  shows "writing (fsys s) p fd (fds s) [] s1" and "keeps (scratch (fsys s) p) s s1"
proof -
  let ?g = "temp_fs (fsys s) p (Some (fs_next (fsys s))) [] []"
  have "new_file p (fsys s) = ?g" if "fs_dir (fsys s) p = None"
    using that by (simp add: temp_fs_def new_file_def rebind_def Let_def)
  with sys_open_excl_cases [OF assms(1)] assms(2) have s1: "fsys s1 = ?g" "trace s1 = ?g # trace s"
    "fd_top fd (OFile (fs_next (fsys s)) 0) (fds s) s1" by auto
  have z: "length ([] :: byte list) < off_limit" by (simp add: off_limit_def)
  show "writing (fsys s) p fd (fds s) [] s1"
    using s1 z by (simp add: writing_def at_end_def)
  show "keeps (scratch (fsys s) p) s s1"
    using s1 scratch_temp_fs [OF z] by (simp add: keeps_def)
qed

lemma writing_WriteAll:
  assumes "WriteAll P fd bs s = (st, s1)" and "writing f p fd t d s"
  shows "keeps (scratch f p) s s1" and "\<exists>d'. writing f p fd t d' s1"
    and "status_ok st \<Longrightarrow> writing f p fd t (d @ bs) s1"
proof -
  have e: "at_end fd (fs_next f) t s" using assms(2) by (simp add: writing_def)
  obtain n where n: "appended fd (fs_next f) t (take n bs) s s1" "status_ok st \<longrightarrow> n = length bs"
    using WriteAll_appended [OF assms(1) e] by blast
  note a = writing_appended [OF assms(2) n(1)]
  from a n(2) show "keeps (scratch f p) s s1" "\<exists>d'. writing f p fd t d' s1"
    "status_ok st \<Longrightarrow> writing f p fd t (d @ bs) s1" by auto
qed

text \<open>The ways an upload can go, as a rule for case analysis.\<close>

lemma Put_paths:
  assumes put: "FileChunkStore_Put P store req I inp s = (st, inp', s')"
    and p: "p = temp_path_of P store (in_address I) (put_chunk_id req)"
  obtains (invalid) "\<not> put_valid req" "\<not> status_ok st" "inp' = inp" "s' = s"
      "st = (if status_ok (ValidateId (put_chunk_id req)) then ValidateChecksum (expected_checksum req)
             else ValidateId (put_chunk_id req))"
    | (rootless) e s1 where "put_valid req" "create_directories (store_root store) s = (Some e, s1)"
      "st = mk_Status kIoError (''create storage root failed: '' @ strerror P e)" "inp' = inp" "s' = s1"
    | (refused) fd s1 s2 where "put_valid req" "create_directories (store_root store) s = (None, s1)"
      "sys_open_excl p s1 = (fd, s2)" "fd < 0" "inp' = inp" "s' = s2"
      "st = (if os_errno s2 = EEXIST then mk_Status kUnavailable ''temporary file collision'' else IoError P ''create'' p s2)"
    | (headless) fd s1 s2 s3 where "put_valid req" "create_directories (store_root store) s = (None, s1)"
      "sys_open_excl p s1 = (fd, s2)" "0 \<le> fd"
      "WriteAll P fd (MakeHeader (expected_size req) (expected_checksum req)) s2 = (st, s3)" "\<not> status_ok st"
      "inp' = inp" "s' = ufd_destroy (ufd_make fd) (cleanup p s3)"
    | (broken) fd s1 s2 wst s3 s4 where "put_valid req" "create_directories (store_root store) s = (None, s1)"
      "sys_open_excl p s1 = (fd, s2)" "0 \<le> fd"
      "WriteAll P fd (MakeHeader (expected_size req) (expected_checksum req)) s2 = (wst, s3)" "status_ok wst"
      "put_loop P I p fd (expected_size req) 0 (b3_init P) inp s3 = (Inl st, inp', s4)" "s' = ufd_destroy (ufd_make fd) s4"
    | (received) fd s1 s2 wst s3 s4 r h where "put_valid req" "create_directories (store_root store) s = (None, s1)"
      "sys_open_excl p s1 = (fd, s2)" "0 \<le> fd"
      "WriteAll P fd (MakeHeader (expected_size req) (expected_checksum req)) s2 = (wst, s3)" "status_ok wst"
      "put_loop P I p fd (expected_size req) 0 (b3_init P) inp s3 = (Inr (r, h), inp', s4)"
      "put_commit P store req p (PathFor store (put_chunk_id req)) (ufd_make fd) r h s4 = (st, s')"
proof (cases "put_valid req")
  case False
  then show thesis using put by (intro invalid) (auto simp: FileChunkStore_Put_def put_valid_def split: if_splits)
next
  case v: True
  note v' = v [unfolded put_valid_def] and put' = put [unfolded FileChunkStore_Put_def Let_def, folded temp_path_of_def, folded p]
  obtain e s1 where m: "create_directories (store_root store) s = (e, s1)" by fastforce
  obtain fd s2 where o: "sys_open_excl p s1 = (fd, s2)" by fastforce
  obtain wst s3 where w: "WriteAll P fd (MakeHeader (expected_size req) (expected_checksum req)) s2 = (wst, s3)" by fastforce
  obtain res inp1 s4 where l: "put_loop P I p fd (expected_size req) 0 (b3_init P) inp s3 = (res, inp1, s4)" by (metis surj_pair)
  note eqs = v' m o w l
  consider x where "e = Some x" | "e = None" "fd < 0" | "e = None" "0 \<le> fd" "\<not> status_ok wst"
    | lst where "e = None" "0 \<le> fd" "status_ok wst" "res = Inl lst" | rh where "e = None" "0 \<le> fd" "status_ok wst" "res = Inr rh"
    by (cases e; cases res) force+
  then show thesis
  proof cases
    case 1
    then show ?thesis using put' eqs by (intro rootless [OF v]) auto
  next
    case 2
    then show ?thesis using put' eqs by (intro refused [OF v _ o]) (auto simp: ufd_destroy_make)
  next
    case 3
    then show ?thesis using put' eqs by (intro headless [OF v _ o]) auto
  next
    case (4 lst)
    then show ?thesis using put' eqs by (intro broken [OF v _ o _ w]) auto
  next
    case (5 rh)
    then show ?thesis using put' eqs by (cases rh, intro received [OF v _ o _ w]) (auto split: prod.splits)
  qed
qed

text \<open>
  The whole of \<open>Put\<close>: whatever the stream and the schedule do, it gives back the descriptors and
  either fails, without commit, or has received all that was announced and commits.
\<close>

definition put_result ::
  "'h platform \<Rightarrow> FileChunkStore \<Rightarrow> PutChunkRequest \<Rightarrow> 's ChunkInputStream \<Rightarrow> path \<Rightarrow> 's \<Rightarrow> os \<Rightarrow>
     Status \<Rightarrow> 's \<Rightarrow> os \<Rightarrow> bool" where
  "put_result P store req I p inp s st inp' s' \<longleftrightarrow>
     (let r = store_root store; f = fsys s; final = PathFor store (put_chunk_id req) in
       (\<not> status_ok st \<and> keeps (untouched r p f) s s') \<or>
       (put_valid req \<and>
        (\<exists>blocks. drains I inp blocks inp' \<and> delivered P req blocks \<and>
           (\<exists>s1. changes (mkdir r f) s s1 \<and> put_outcome (mkdir r f) p final
                  (put_bytes req (concat blocks)) s1 st s'))))"

text \<open>After the temporary file has been created and its header written.\<close>

lemma Put_header_writing:
  assumes c: "changes g s s1" and o: "sys_open_excl p s1 = (fd, s2)" "0 \<le> fd" and wr: "WriteAll P fd bs s2 = (wst, s3)"
  shows "keeps (scratch g p) s1 s3" and "\<exists>d. writing g p fd (fds s) d s3" and "status_ok wst \<Longrightarrow> writing g p fd (fds s) bs s3"
proof -
  have f1: "fsys s1 = g" "fds s1 = fds s" using c by (simp_all add: changes_def)
  note w2 = open_excl_writing [OF o, unfolded f1]
  note w3 = writing_WriteAll [OF wr w2(1)]
  show "keeps (scratch g p) s1 s3" by (rule keeps_trans [OF w2(2) w3(1)])
  show "\<exists>d. writing g p fd (fds s) d s3" by (rule w3(2))
  show "writing g p fd (fds s) bs s3" if "status_ok wst" using w3(3) [OF that] by simp
qed

lemma Put_open_result:
  assumes o: "sys_open_excl p s1 = (fd, s2)" and fd: "0 \<le> fd" and I: "stream_ok I"
    and p: "p = temp_path_of P store (in_address I) (put_chunk_id req)" and v: "put_valid req"
    and c: "changes (mkdir (store_root store) (fsys s)) s s1"
    and wr: "WriteAll P fd (MakeHeader (expected_size req) (expected_checksum req)) s2 = (wst, s3)"
    and ok: "status_ok wst"
    and l: "put_loop P I p fd (expected_size req) 0 (b3_init P) inp s3 = (Inr (r, h), inp', s4)"
    and pc: "put_commit P store req p (PathFor store (put_chunk_id req)) (ufd_make fd) r h s4 = (st, s')"
  shows "put_result P store req I p inp s st inp' s' \<and> fds s' = fds s"
proof -
  let ?f = "mkdir (store_root store) (fsys s)" and ?final = "PathFor store (put_chunk_id req)"
  note w3 = Put_header_writing [OF c o fd wr]
  obtain blocks where b: "drains I inp blocks inp'" "h = foldl (b3_update P) (b3_init P) blocks"
    "unat r = length (concat blocks)" "keeps (scratch ?f p) s3 s4"
    "writing ?f p fd (fds s) (put_bytes req (concat blocks)) s4"
    using put_loop_phases [OF l I w3(3) [OF ok]] by (auto simp: received_all_def put_bytes_def)
  have ne: "p \<noteq> ?final" using temp_no_chunk_name unfolding p no_chunk_name_def by blast
  note ph = put_commit_phases [OF pc fd b(5) ne PathFor_in_dir]
  have k4: "keeps (scratch ?f p) s1 s4" by (rule keeps_trans [OF w3(1) b(4)])
  show ?thesis
  proof (cases "delivered P req blocks")
    case True
    then show ?thesis
      using v b(1) c ph(1) put_outcome_after [OF k4 ph(3)] by (auto simp: put_result_def Let_def)
  next
    case False
    then have "r \<noteq> expected_size req \<or> FinalizeHex P h \<noteq> checksum_value (expected_checksum req)"
      using b(2,3) by (auto simp: delivered_def)
    note bad = ph(2) [OF this]
    then have "keeps (untouched (store_root store) p (fsys s)) s s'"
      using keeps_scratch_untouched [OF c refl] keeps_trans [OF k4] by blast
    then show ?thesis using bad ph(1) by (simp add: put_result_def Let_def status_ok_def)
  qed
qed

lemma Put_result:
  assumes put: "FileChunkStore_Put P store req I inp s = (st, inp', s')" and I: "stream_ok I"
  defines "p \<equiv> temp_path_of P store (in_address I) (put_chunk_id req)"
  shows "put_result P store req I p inp s st inp' s' \<and> fds s' = fds s"
proof -
  let ?r = "store_root store" and ?f = "fsys s"
  have fail: "put_result P store req I p inp s st inp' s'"
    if "\<not> status_ok st" "keeps (untouched ?r p ?f) s s'"
    using that by (simp add: put_result_def)
  have root: "changes (mkdir ?r ?f) s s1" if "create_directories ?r s = (None, s1)" for s1
    using create_directories_cases [OF that] by (simp add: mkdir_def)
  have gone: "put_result P store req I p inp s st inp' s'" if "changes (mkdir ?r ?f) s s1" "\<not> status_ok st" "keeps (scratch (mkdir ?r ?f) p) s1 s'" for s1
    using fail [OF that(2) keeps_scratch_untouched [OF that(1) refl that(3)]] .
  from put p_def [THEN meta_eq_to_obj_eq] show ?thesis
  proof (cases rule: Put_paths)
    case invalid
    then show ?thesis using fail by (simp add: keeps_def untouched_def)
  next
    case (rootless e s1)
    then have "quiet s s1" "\<not> status_ok st" using create_directories_cases [of ?r s "Some e" s1] by auto
    then show ?thesis using fail rootless by (simp add: quiet_def keeps_def untouched_def)
  next
    case (refused fd s1 s2)
    then have "quiet s1 s2" "\<not> status_ok st" using sys_open_excl_cases [OF refused(3)] by (auto simp: IoError_def)
    then show ?thesis using fail root [OF refused(2)] refused(6) by (simp add: quiet_def changes_def keeps_def untouched_def)
  next
    case (headless fd s1 s2 s3)
    note c = root [OF headless(2)]
    note w3 = Put_header_writing [OF c headless(3-5)]
    obtain d' where "writing (mkdir ?r ?f) p fd (fds s) d' s3" using w3(2) by blast
    from given_up_destroy [OF given_up_after [OF w3(1) writing_given_up [OF this]] headless(4)]
    show ?thesis using gone [OF c headless(6)] headless(8) by simp
  next
    case (broken fd s1 s2 wst s3 s4)
    note c = root [OF broken(2)]
    note w3 = Put_header_writing [OF c broken(3-5)]
    have "\<not> status_ok st" "given_up (mkdir ?r ?f) p fd (fds s) s3 s4"
      using put_loop_phases [OF broken(7) I w3(3) [OF broken(6)]] by auto
    then show ?thesis using gone [OF c] given_up_destroy [OF given_up_after [OF w3(1)] broken(4)] broken(8) by simp
  next
    case (received fd s1 s2 wst s3 s4 r h)
    then show ?thesis using Put_open_result [OF received(3,4) I p_def [THEN meta_eq_to_obj_eq] received(1) root [OF received(2)] received(5-8)] by simp
  qed
qed

section \<open>Put on a smooth schedule\<close>

lemma drains_cases_read:
  "drains I inp blocks inp' \<Longrightarrow>
     (blocks = [] \<and> in_read I inp kBufferSize = (StatusOr_value [], inp')) \<or>
     (\<exists>b inp1 rest. blocks = b # rest \<and> in_read I inp kBufferSize = (StatusOr_value b, inp1) \<and>
        b \<noteq> [] \<and> length b \<le> kBufferSize \<and> drains I inp1 rest inp')"
  by (erule drains.cases) auto

lemma over_expected_iff:
  fixes r e :: u64
  assumes "r \<le> e" and "n \<le> kBufferSize"
  shows "word_of_nat n > e - r \<longleftrightarrow> unat e < unat r + n"
proof -
  have "unat (word_of_nat n :: u64) = n"
    using assms(2) by (intro unat_of_nat_u64) (simp add: kBufferSize_def)
  then show ?thesis
    using assms(1) by (auto simp: word_less_nat_alt word_le_nat_alt unat_sub)
qed

lemma put_loop_smooth:
  assumes "drains I inp blocks inp'" and "writing f p fd t d s" and "gentle s" and "r \<le> e"
    and "length d + length (concat blocks) < off_limit"
  shows "if unat r + length (concat blocks) \<le> unat e
         then \<exists>r' h' s'. put_loop P I p fd e r h inp s = (Inr (r', h'), inp', s') \<and> sched_tail s s'
         else \<exists>st inp1 s'. put_loop P I p fd e r h inp s = (Inl st, inp1, s') \<and> st_code st = kCorruption"
  using assms
proof (induction arbitrary: d r h s rule: drains.induct)
  case (finished inp inp')
  then show ?case
    by (simp add: put_loop.simps [of P I p fd e r h inp s] word_le_nat_alt)
next
  case (block inp b inp1 blocks inp')
  note unf = put_loop.simps [of P I p fd e r h inp s]
  note ov = over_expected_iff [OF block.prems(3) block.hyps(3)]
  show ?case
  proof (cases "unat e < unat r + length b")
    case True
    then show ?thesis using block.hyps block.prems(3) ov by (auto simp: unf)
  next
    case False
    have "at_end fd (fs_next f) t s" "length (fs_data (fsys s) (fs_next f)) + length b < off_limit"
      using block.prems(1,4) by (auto simp: writing_def)
    then obtain s1 where wr: "WriteAll P fd b s = (Status_Ok, s1)"
      "appended fd (fs_next f) t b s s1" "sched_tail s s1"
      using WriteAll_gentle block.prems(2) by metis
    note w1 = writing_appended(1) [OF block.prems(1) wr(2)]
    have x: "unat (r + word_of_nat (length b)) = unat r + length b" "r + word_of_nat (length b) \<le> e"
      using received_exact [OF block.prems(3) block.hyps(3)] False ov by auto
    have rec: "put_loop P I p fd e r h inp s =
        put_loop P I p fd e (r + word_of_nat (length b)) (b3_update P h b) inp1 s1"
      using block.hyps block.prems(3) False ov wr(1) by (auto simp: unf)
    have len: "length (d @ b) + length (concat blocks) < off_limit" using block.prems(4) by simp
    show ?thesis
      using block.IH [OF w1 sched_tail_gentle [OF wr(3) block.prems(2)] x(2) len, of "b3_update P h b"]
        sched_tail_trans [OF wr(3)] unfolding rec x(1)
      by (fastforce split: if_splits simp: add.assoc)
  qed
qed

lemma drains_deterministic:
  "drains I inp bs1 i1 \<Longrightarrow> drains I inp bs2 i2 \<Longrightarrow> bs1 = bs2 \<and> i1 = i2"
proof (induction arbitrary: bs2 i2 rule: drains.induct)
  case (finished inp inp')
  then show ?case using drains_cases_read [OF finished.prems] by auto
next
  case (block inp b inp1 blocks inp')
  obtain rest where "bs2 = b # rest" "drains I inp1 rest i2"
    using drains_cases_read [OF block.prems] block.hyps by auto
  with block.IH show ?case by blast
qed

text \<open>
  Without failures, and where the names fit and the temporary name is free, the outcome is
  determined by the stream and by whether the chunk exists.
\<close>

lemma Put_smooth:
  assumes put: "FileChunkStore_Put P store req I inp s = (st, inp', s')" and sm: "smooth s"
    and v: "put_valid req" and dr: "drains I inp blocks inp1"
    and p: "p = temp_path_of P store (in_address I) (put_chunk_id req)"
    and free: "fs_dir (fsys s) p = None" and n1: "\<not> name_too_long p"
    and n2: "\<not> name_too_long (PathFor store (put_chunk_id req))"
    and len: "kHeaderSize + length (concat blocks) < off_limit" and I: "stream_ok I"
  shows "st_code st = (if \<not> delivered P req blocks then kCorruption
           else if stored store (fsys s) (put_chunk_id req) = None then kOk else kAlreadyExists)"
proof -
  let ?r = "store_root store" and ?f = "mkdir (store_root store) (fsys s)"
    and ?final = "PathFor store (put_chunk_id req)"
    and ?hd = "MakeHeader (expected_size req) (expected_checksum req)"
  note put' = put [unfolded FileChunkStore_Put_def Let_def, folded temp_path_of_def, folded p]
  note v' = v [unfolded put_valid_def]
  obtain e s1 where cd: "create_directories ?r s = (e, s1)" by fastforce
  with create_directories_cases [OF cd] sm have c: "e = None" "fsys s1 = ?f" "smooth s1" "fds s1 = fds s"
    by (auto simp: mkdir_def changes_def dest: sched_tail_smooth)
  obtain fd s2 where o: "sys_open_excl p s1 = (fd, s2)" by fastforce
  with sys_open_excl_cases [OF o] c n1 free have fd: "0 \<le> fd" "smooth s2"
    by (auto simp: mkdir_def dest: sched_tail_smooth)
  note w2 = open_excl_writing(1) [OF o fd(1), unfolded c(2,4)]
  have hd: "length ?hd = kHeaderSize"
    using v' by (intro length_MakeHeader) (simp add: ValidateChecksum_ok_iff)
  obtain s3 where wr: "WriteAll P fd ?hd s2 = (Status_Ok, s3)"
    "appended fd (fs_next ?f) (fds s) ?hd s2 s3" "sched_tail s2 s3"
    using WriteAll_gentle [of fd "fs_next ?f" "fds s" s2 ?hd P] w2 smooth_gentle [OF fd(2)] len hd
    by (auto simp: writing_def)
  note w3 = writing_appended(1) [OF w2 wr(2)] and sm3 = sched_tail_smooth [OF wr(3) fd(2)]
  obtain res inp2 s4 where l: "put_loop P I p fd (expected_size req) 0 (b3_init P) inp s3 = (res, inp2, s4)"
    by (metis surj_pair)
  note lp = put_loop_smooth [OF dr w3 smooth_gentle [OF sm3], of 0 "expected_size req" P "b3_init P",
      unfolded l, simplified, unfolded hd, OF len]
  show ?thesis
  proof (cases "length (concat blocks) \<le> unat (expected_size req)")
    case False
    with lp obtain lst where "res = Inl lst" "st_code lst = kCorruption" by auto
    moreover have "\<not> delivered P req blocks" using False by (simp add: delivered_def)
    ultimately show ?thesis using put' cd c o fd v' wr(1) l by (auto split: sum.splits)
  next
    case True
    with lp obtain r h where rh: "res = Inr (r, h)" "sched_tail s3 s4" by auto
    obtain bl where bl: "drains I inp bl inp2" "h = foldl (b3_update P) (b3_init P) bl"
      "unat r = length (concat bl)" "writing ?f p fd (fds s) (?hd @ concat bl) s4"
      using put_loop_phases [OF l I w3] rh(1) by (auto simp: received_all_def)
    have "bl = blocks" using drains_deterministic [OF bl(1) dr] by blast
    then have good: "delivered P req blocks \<longleftrightarrow>
        \<not> (r \<noteq> expected_size req \<or> FinalizeHex P h \<noteq> checksum_value (expected_checksum req))"
      using bl(2,3) by (auto simp: delivered_def word_unat_eq_iff)
    obtain cst s5 where pc: "put_commit P store req p ?final (ufd_make fd) r h s4 = (cst, s5)" by fastforce
    have "p \<noteq> ?final" using temp_no_chunk_name unfolding p no_chunk_name_def by blast
    note ph = put_commit_phases [OF pc fd(1) bl(4) this PathFor_in_dir]
    have st: "st = cst" using put' cd c o fd v' wr(1) l rh pc by auto
    have "smooth s4" by (rule sched_tail_smooth [OF rh(2) sm3])
    then show ?thesis
      using ph(2,4) good n1 n2 unfolding st by (auto simp: mkdir_def stored_def)
  qed
qed

section \<open>Put only consumes the schedule\<close>

lemma ufd_destroy_sched [simp]: "sched (ufd_destroy u s) = sched s"
  by (simp add: ufd_destroy_def ufd_reset_def sys_close_def)

lemma sched_tail_destroy: "sched_tail s s' \<Longrightarrow> sched_tail s (ufd_destroy u s')"
  by (simp add: sched_tail_def)

lemma cleanup_tail: "sched_tail s (cleanup p s)"
  by (rule cleanup_cases [of s p])

lemmas sched_tail_steps = sched_tail_destroy sched_tail_trans [OF _ cleanup_tail]

lemma put_loop_tail:
  "put_loop P I p fd e r h inp s = (res, inp', s') \<Longrightarrow> sched_tail s s'"
proof (induction P I p fd e r h inp s rule: put_loop.induct)
  case (1 P I p fd e r h inp s)
  from "1.prems" show ?case
  proof (cases rule: put_loop_turn)
    case (unwritten c b st s1)
    then show ?thesis using WriteAll_status [OF unwritten(5)] sched_tail_trans [OF _ cleanup_tail] by blast
  next
    case (more c inp1 b st s1)
    have "sched_tail s1 s'" by (rule "1.IH" [OF more(1) [symmetric] more(2-4) more(5) [symmetric] _ more(7)]) (use more(6) in simp)
    then show ?thesis using WriteAll_status [OF more(5)] sched_tail_trans by blast
  qed (simp_all add: cleanup_tail)
qed

lemma put_commit_tail:
  assumes pc: "put_commit P store req p final (ufd_make fd) r h s = (st, s')" and fd: "0 \<le> fd"
    and w: "writing f p fd t d s"
  shows "sched_tail s s'"
proof -
  obtain rc s1 where y: "sys_fdatasync fd s = (rc, s1)" by fastforce
  have t1: "sched_tail s s1"
    using sys_fdatasync_cases [OF y] w by (auto simp: writing_def at_end_def)
  obtain lrc s2 where l: "sys_link p final (sys_close fd s1) = (lrc, s2)" by fastforce
  have "sched_tail (sys_close fd s1) s2" using sys_link_cases [OF l] by blast
  then have t2: "sched_tail s s2" using t1 by (auto simp: sched_tail_def sys_close_def)
  obtain pst s3 where pp: "put_publish P store p s2 = (pst, s3)" by fastforce
  have "sched_tail s2 s3"
  proof -
    obtain dfd s4 where o: "sys_open_dir (store_root store) (cleanup p s2) = (dfd, s4)" by fastforce
    have o': "sched_tail s2 s4" using sys_open_dir_cases [OF o] cleanup_tail sched_tail_trans by blast
    obtain frc s5 where y: "sys_fsync_dir dfd s4 = (frc, s5)" by fastforce
    have "0 \<le> dfd \<Longrightarrow> sched_tail s2 s5"
      using sys_open_dir_cases [OF o] sys_fsync_dir_cases [OF y] o' sched_tail_trans by fastforce
    then show ?thesis
      using pp o y o' by (auto simp: put_publish_def Let_def intro: sched_tail_destroy split: if_splits)
  qed
  then have t3: "sched_tail s s3" by (rule sched_tail_trans [OF t2])
  show ?thesis
  proof (cases "r = expected_size req \<and> FinalizeHex P h = checksum_value (expected_checksum req) \<and> rc = 0")
    case True
    then have "put_link P store (put_chunk_id req) p final (sys_close fd s1) = (st, s')"
      using pc y put_commit_eq [of r req P h fd s s1 store p final] fd by simp
    then show ?thesis
      using l pp t3 sched_tail_trans [OF t2 cleanup_tail]
      by (auto simp: put_link_def Let_def sched_tail_def split: if_splits)
  next
    case False
    then show ?thesis
      using pc y sched_tail_trans [OF t1 cleanup_tail] cleanup_tail
      by (auto simp: put_commit_def Let_def intro!: sched_tail_destroy split: if_splits)
  qed
qed

lemma Put_tail:
  assumes put: "FileChunkStore_Put P store req I inp s = (st, inp', s')" and I: "stream_ok I"
  shows "sched_tail s s'"
proof -
  have t1: "sched_tail s s1" if "create_directories (store_root store) s = (e, s1)" for e s1
    using create_directories_cases [OF that] by blast
  have t2: "sched_tail s s2" if "create_directories (store_root store) s = (e, s1)" "sys_open_excl p s1 = (fd, s2)" for e s1 p fd s2
    using sys_open_excl_cases [OF that(2)] t1 [OF that(1)] sched_tail_trans by blast
  have t3: "sched_tail s s3" if "create_directories (store_root store) s = (e, s1)" "sys_open_excl p s1 = (fd, s2)"
    "WriteAll P fd bs s2 = (wst, s3)" for e s1 p fd s2 bs wst s3
    using WriteAll_status [OF that(3)] t2 [OF that(1,2)] sched_tail_trans by blast
  from put refl show ?thesis
  proof (cases rule: Put_paths)
    case invalid
    then show ?thesis by simp
  next
    case (rootless e s1)
    then show ?thesis using t1 by simp
  next
    case (refused fd s1 s2)
    then show ?thesis using t2 by simp
  next
    case (headless fd s1 s2 s3)
    then show ?thesis using sched_tail_destroy [OF sched_tail_trans [OF t3 cleanup_tail]] by simp
  next
    case (broken fd s1 s2 wst s3 s4)
    show ?thesis unfolding broken(8)
      by (rule sched_tail_destroy [OF sched_tail_trans [OF t3 [OF broken(2,3,5)] put_loop_tail [OF broken(7)]]])
  next
    case (received fd s1 s2 wst s3 s4 r h)
    note w = writing_WriteAll(3) [OF received(5) open_excl_writing(1) [OF received(3,4)] received(6)]
    have "sched_tail s s4" by (rule sched_tail_trans [OF t3 [OF received(2,3,5)] put_loop_tail [OF received(7)]])
    then show ?thesis
      using put_loop_phases [OF received(7) I w] put_commit_tail [OF received(8,4)] sched_tail_trans by (auto simp: received_all_def)
  qed
qed

lemma Put_smooth_kept:
  "FileChunkStore_Put P store req I inp s = (st, inp', s') \<Longrightarrow> stream_ok I \<Longrightarrow> smooth s \<Longrightarrow> smooth s'"
  by (rule sched_tail_smooth [OF Put_tail])

end
