(* ===== verification/Store_Contract.thy ===== *)
theory Store_Contract
  imports Store_Writing
begin

text \<open>
  The contract of \<open>ChunkStore\<close> (\<open>include/storage/storage/worker/chunk_store.h\<close>) as a locale:
  an abstract view of the store as a map from identifiers to checksum and payload, an invariant,
  and what every operation does to the view. The clients of the interface are verified against
  the locale; \<open>FileChunkStore\<close> is shown to satisfy it under every schedule of failures.
\<close>

section \<open>What a Put of the file store does to the view\<close>

definition platform_ok :: "'h platform \<Rightarrow> FileChunkStore \<Rightarrow> os \<Rightarrow> bool" where
  "platform_ok P store s \<longleftrightarrow> blake3_laws P \<and> store_inv P store (fsys s) \<and> sizes_ok (fsys s)"

definition store_view :: "FileChunkStore \<Rightarrow> os \<Rightarrow> ChunkId \<Rightarrow> (Checksum \<times> byte list) option" where
  "store_view store s = chunk_at store (fsys s)"

lemma chunk_at_cong: "stored store g = stored store f \<Longrightarrow> chunk_at store g = chunk_at store f"
  by (simp add: chunk_at_def fun_eq_iff)

lemma chunk_at_update:
  "stored store g = (stored store f)(cid \<mapsto> d) \<Longrightarrow> parse_chunk d = Some (n, c) \<Longrightarrow>
     chunk_at store g = (chunk_at store f)(cid \<mapsto> (c, drop kHeaderSize d))"
  by (auto simp: chunk_at_def fun_eq_iff)

text \<open>Under the invariant the view is undefined only where there is no file.\<close>

lemma chunk_at_None_iff:
  assumes "store_inv P store f"
  shows "chunk_at store f cid = None \<longleftrightarrow> stored store f cid = None"
proof (cases "fs_dir f (PathFor store cid)")
  case None
  then show ?thesis by (simp add: chunk_at_def stored_def)
next
  case (Some i)
  then have "good_file P (fs_data f i)" using assms by (auto simp: store_inv_def chunk_ref_def)
  with Some show ?thesis by (auto simp: chunk_at_def stored_def good_file_def split: option.splits)
qed

lemma chunk_at_digest:
  assumes "store_inv P store f" and "chunk_at store f cid = Some (c, payload)"
  shows "c = blake3_checksum P payload"
proof -
  obtain i where i: "fs_dir f (PathFor store cid) = Some i" "drop kHeaderSize (fs_data f i) = payload"
    "parse_chunk (fs_data f i) = Some (word_of_nat (length payload), c)"
    using chunk_at_stored [OF assms(2)] by metis
  then have "good_file P (fs_data f i)" using assms(1) by (auto simp: store_inv_def chunk_ref_def)
  then have "checksum_value c = blake3_hex P payload" using i by (simp add: good_file_def)
  then show ?thesis using checksum_eta [of c] by (simp add: blake3_checksum_def)
qed

lemma blake3_FinalizeHex:
  "blake3_laws P \<Longrightarrow> FinalizeHex P (foldl (b3_update P) (b3_init P) blocks) = blake3_hex P (concat blocks)"
  by (simp add: blake3_laws_def FinalizeHex_def blake3_hex_def)

text \<open>What was announced and delivered is a well-formed chunk file.\<close>

lemma delivered_chunk:
  assumes "blake3_laws P" and "put_valid req" and "delivered P req blocks"
  shows "put_bytes req (concat blocks) = chunk_bytes (expected_checksum req) (concat blocks)"
    and "good_file P (put_bytes req (concat blocks))"
    and "expected_checksum req = blake3_checksum P (concat blocks)"
    and "parse_chunk (put_bytes req (concat blocks)) = Some (expected_size req, expected_checksum req)"
    and "drop kHeaderSize (put_bytes req (concat blocks)) = concat blocks"
proof -
  let ?b = "concat blocks" and ?c = "expected_checksum req"
  have len: "length ?b = unat (expected_size req)" using assms(3) by (simp add: delivered_def)
  have lt: "length ?b < 2 ^ 64"
    unfolding len using unsigned_less [of "expected_size req", where ?'a = nat] by simp
  have v: "status_ok (ValidateChecksum ?c)" "length (checksum_value ?c) = 64"
    using assms(2) by (simp_all add: put_valid_def ValidateChecksum_ok_iff)
  have hex: "checksum_value ?c = blake3_hex P ?b"
    using assms(1,3) by (simp add: delivered_def blake3_FinalizeHex)
  have w: "word_of_nat (length ?b) = expected_size req" unfolding len by simp
  show eq: "put_bytes req ?b = chunk_bytes ?c ?b" unfolding put_bytes_def chunk_bytes_def w ..
  show "good_file P (put_bytes req ?b)" unfolding eq by (rule good_file_chunk_bytes [OF v(1) lt hex])
  show "?c = blake3_checksum P ?b" using checksum_eta [of ?c] hex by (simp add: blake3_checksum_def)
  show "parse_chunk (put_bytes req ?b) = Some (expected_size req, ?c)"
    unfolding eq using parse_chunk_bytes [OF v(1) lt] w by simp
  show "drop kHeaderSize (put_bytes req ?b) = ?b" unfolding eq by (rule drop_chunk_bytes [OF v(2)])
qed

text \<open>The file systems a \<open>Put\<close> passes through, as the store sees them.\<close>

lemma mkdir_store_inv: "store_inv P store f \<Longrightarrow> store_inv P store (mkdir r f)"
  unfolding mkdir_def by (rule store_inv_mkdir)

lemma mkdir_sizes: "sizes_ok f \<Longrightarrow> sizes_ok (mkdir r f)"
  by (simp add: mkdir_def sizes_ok_def)

lemma mkdir_stored: "stored store (mkdir r f) = stored store f"
  by (simp add: mkdir_def stored_def fun_eq_iff)

definition before_commit :: "'h platform \<Rightarrow> FileChunkStore \<Rightarrow> fs \<Rightarrow> fs \<Rightarrow> bool" where
  "before_commit P store f g \<longleftrightarrow> store_inv P store g \<and> sizes_ok g \<and> chunk_at store g = chunk_at store f"

definition after_commit ::
  "'h platform \<Rightarrow> FileChunkStore \<Rightarrow> ChunkId \<Rightarrow> Checksum \<Rightarrow> byte list \<Rightarrow> fs \<Rightarrow> fs \<Rightarrow> bool" where
  "after_commit P store cid c payload f g \<longleftrightarrow>
     store_inv P store g \<and> sizes_ok g \<and> chunk_at store g = (chunk_at store f)(cid \<mapsto> (c, payload))"

lemma untouched_before:
  assumes "store_inv P store f" and "sizes_ok f" and "no_chunk_name store p" and "untouched r p f g"
  shows "before_commit P store f g"
proof -
  note inv = assms(1) mkdir_store_inv [OF assms(1), of r]
  consider "g = f" | "g = mkdir r f" | "scratch (mkdir r f) p g" using assms(4) by (auto simp: untouched_def)
  then show ?thesis
  proof cases
    case 3
    have "stored store g = stored store f"
      using scratch_stored [OF 3 inv(2) assms(3)] mkdir_stored [of store r f] by simp
    then show ?thesis
      using scratch_store_inv [OF 3 inv(2) assms(3)] scratch_sizes [OF 3 mkdir_sizes [OF assms(2)]]
      by (auto simp: before_commit_def intro: chunk_at_cong)
  qed (use assms inv chunk_at_cong [OF mkdir_stored] mkdir_sizes in \<open>auto simp: before_commit_def\<close>)
qed

lemma committed_after:
  assumes "store_inv P store f" and "sizes_ok f" and "no_chunk_name store p"
    and "blake3_laws P" and "put_valid req" and "delivered P req blocks"
    and "committed (mkdir r f) p (PathFor store cid) (put_bytes req (concat blocks)) g"
  shows "after_commit P store cid (expected_checksum req) (concat blocks) f g"
proof -
  note inv = mkdir_store_inv [OF assms(1), of r] and dc = delivered_chunk [OF assms(4-6)]
  have "stored store g = (stored store f)(cid \<mapsto> put_bytes req (concat blocks))"
    using committed_stored [OF assms(7) inv assms(3)] by (simp add: mkdir_stored)
  from chunk_at_update [OF this dc(4)]
  have "chunk_at store g = (chunk_at store f)(cid \<mapsto> (expected_checksum req, concat blocks))"
    by (simp add: dc(5))
  then show ?thesis
    using committed_store_inv [OF assms(7) inv assms(3) dc(2)]
      committed_sizes [OF assms(7) mkdir_sizes [OF assms(2)]]
    by (simp add: after_commit_def)
qed

text \<open>
  The effect of a \<open>Put\<close> on the view, at every moment and at its end.
\<close>

lemma Put_moments:
  assumes put: "FileChunkStore_Put P store req I inp s = (st, inp', s')" and I: "stream_ok I"
    and ok: "platform_ok P store s"
  shows "(\<not> status_ok st \<and> keeps (before_commit P store (fsys s)) s s') \<or>
    (\<exists>blocks. put_valid req \<and> drains I inp blocks inp' \<and> delivered P req blocks \<and>
       chunk_at store (fsys s) (put_chunk_id req) = None \<and>
       keeps (\<lambda>g. before_commit P store (fsys s) g \<or>
                  after_commit P store (put_chunk_id req) (expected_checksum req) (concat blocks) (fsys s) g) s s' \<and>
       after_commit P store (put_chunk_id req) (expected_checksum req) (concat blocks) (fsys s) (fsys s') \<and>
       ((st = Status_Ok \<and> fs_had (fsys s') (PathFor store (put_chunk_id req)) = {}) \<or> st_code st = kIoError))"
proof -
  define p where "p = temp_path_of P store (in_address I) (put_chunk_id req)"
  let ?r = "store_root store" and ?f = "fsys s" and ?cid = "put_chunk_id req"
  note inv = ok [unfolded platform_ok_def]
  have np: "no_chunk_name store p" unfolding p_def by (rule temp_no_chunk_name)
  have before: "untouched ?r p ?f g \<Longrightarrow> before_commit P store ?f g" for g
    using untouched_before np inv by blast
  have sc: "scratch (mkdir ?r ?f) p g \<Longrightarrow> before_commit P store ?f g" for g
    by (rule before) (simp add: untouched_def)
  have "put_result P store req I p inp s st inp' s'" using Put_result [OF put I] by (simp add: p_def)
  then consider (fail) "\<not> status_ok st" "keeps (untouched ?r p ?f) s s'"
    | (full) blocks s1 where "put_valid req" "drains I inp blocks inp'" "delivered P req blocks"
      "changes (mkdir ?r ?f) s s1"
      "put_outcome (mkdir ?r ?f) p (PathFor store ?cid) (put_bytes req (concat blocks)) s1 st s'"
    by (auto simp: put_result_def Let_def)
  then show ?thesis
  proof cases
    case fail
    then show ?thesis using keeps_mono [OF fail(2)] before by blast
  next
    case full
    let ?A = "after_commit P store ?cid (expected_checksum req) (concat blocks) ?f"
    have after: "committed (mkdir ?r ?f) p (PathFor store ?cid) (put_bytes req (concat blocks)) g \<Longrightarrow> ?A g" for g
      using committed_after np inv full(1,3) by blast
    have k1: "keeps (before_commit P store ?f) s s1"
      using full(4) before [of "mkdir ?r ?f"] by (simp add: changes_def keeps_def untouched_def)
    from full(5) consider (lost) "\<not> status_ok st" "keeps (scratch (mkdir ?r ?f) p) s1 s'"
      | (won) "fs_dir ?f (PathFor store ?cid) = None"
        "keeps (put_moment (mkdir ?r ?f) p (PathFor store ?cid) (put_bytes req (concat blocks))) s1 s'"
        "committed (mkdir ?r ?f) p (PathFor store ?cid) (put_bytes req (concat blocks)) (fsys s')"
        "(st = Status_Ok \<and> fs_had (fsys s') (PathFor store ?cid) = {}) \<or> st_code st = kIoError"
      by (auto simp: put_outcome_def mkdir_def)
    then show ?thesis
    proof cases
      case lost
      then show ?thesis using keeps_trans [OF k1 keeps_mono [OF lost(2) sc]] by blast
    next
      case won
      have "keeps (\<lambda>g. before_commit P store ?f g \<or> ?A g) s s'"
      proof (rule keeps_trans)
        show "keeps (\<lambda>g. before_commit P store ?f g \<or> ?A g) s s1" using k1 by (rule keeps_mono) blast
        show "keeps (\<lambda>g. before_commit P store ?f g \<or> ?A g) s1 s'"
          using won(2) by (rule keeps_mono) (auto simp: put_moment_def sc after)
      qed
      moreover have "chunk_at store ?f ?cid = None" using won(1) by (simp add: chunk_at_def stored_def)
      moreover have "fs_dir (fsys s') (PathFor store ?cid) = Some (fs_next ?f)"
        using committed_final [OF won(3)] by (simp add: mkdir_def)
      ultimately show ?thesis using full(1-3) after [OF won(3)] won(4) by auto
    qed
  qed
qed

text \<open>Every file system that can be seen during a \<open>Put\<close>, whether it commits or not.\<close>

definition put_visible :: "'h platform \<Rightarrow> FileChunkStore \<Rightarrow> PutChunkRequest \<Rightarrow> fs \<Rightarrow> fs \<Rightarrow> bool" where
  "put_visible P store req f g \<longleftrightarrow>
     before_commit P store f g \<or>
     (\<exists>payload. chunk_at store f (put_chunk_id req) = None \<and>
        after_commit P store (put_chunk_id req) (expected_checksum req) payload f g \<and>
        length payload = unat (expected_size req) \<and> expected_checksum req = blake3_checksum P payload)"

lemma put_visible_store_inv: "put_visible P store req f g \<Longrightarrow> store_inv P store g"
  by (auto simp: put_visible_def before_commit_def after_commit_def)

lemma Put_keeps:
  assumes "FileChunkStore_Put P store req I inp s = (st, inp', s')" and "stream_ok I"
    and ok: "platform_ok P store s"
  shows "keeps (put_visible P store req (fsys s)) s s'"
  using Put_moments [OF assms]
proof (elim disjE exE conjE)
  assume "keeps (before_commit P store (fsys s)) s s'"
  then show ?thesis by (rule keeps_mono) (simp add: put_visible_def)
next
  fix blocks
  assume v: "put_valid req" "delivered P req blocks" "chunk_at store (fsys s) (put_chunk_id req) = None"
    and k: "keeps (\<lambda>g. before_commit P store (fsys s) g \<or>
      after_commit P store (put_chunk_id req) (expected_checksum req) (concat blocks) (fsys s) g) s s'"
  have "length (concat blocks) = unat (expected_size req)"
    "expected_checksum req = blake3_checksum P (concat blocks)"
    using delivered_chunk(3) [OF _ v(1,2)] v(2) ok by (simp_all add: platform_ok_def delivered_def)
  with v(3) show "keeps (put_visible P store req (fsys s)) s s'"
    by (intro keeps_mono [OF k]) (auto simp: put_visible_def)
  then show "keeps (put_visible P store req (fsys s)) s s'" .
qed

section \<open>Delete\<close>

lemma unlink_stored:
  "stored store (rebind (PathFor store cid) None f) = (stored store f)(cid := None)"
  by (auto simp: stored_def fun_eq_iff dest: PathFor_inj)

text \<open>Either nothing happens, or the chunk was there and is gone; other chunks are unaffected.\<close>

lemma Delete_effect:
  assumes del: "FileChunkStore_Delete P store cid s = (st, s')" and inv: "platform_ok P store s"
  shows "(\<not> status_ok st \<and> quiet s s') \<or>
    (st = Status_Ok \<and> platform_ok P store s' \<and> chunk_at store (fsys s) cid \<noteq> None \<and>
     chunk_at store (fsys s') = (chunk_at store (fsys s))(cid := None) \<and> fds s' = fds s \<and>
     trace s' = fsys s' # trace s)"
proof -
  obtain rc s1 where u: "sys_unlink (PathFor store cid) s = (rc, s1)" by fastforce
  show ?thesis
  proof (cases "status_ok (ValidateId cid) \<and> rc = 0")
    case False
    then have "\<not> status_ok st" "quiet s s'"
      using del u sys_unlink_cases [OF u]
      by (auto simp: FileChunkStore_Delete_def Let_def IoError_def split: if_splits)
    then show ?thesis by blast
  next
    case True
    let ?g = "rebind (PathFor store cid) None (fsys s)"
    have e: "st = Status_Ok" "s' = s1"
      using del u True by (auto simp: FileChunkStore_Delete_def Let_def)
    have c: "changes ?g s s1" "fs_dir (fsys s) (PathFor store cid) \<noteq> None"
      using sys_unlink_cases [OF u] True by auto
    have "store_inv P store (fsys s)" "sizes_ok (fsys s)" "blake3_laws P"
      using inv by (simp_all add: platform_ok_def)
    moreover from this(1) c(2) have "chunk_at store (fsys s) cid \<noteq> None"
      by (simp add: chunk_at_None_iff stored_def)
    moreover have "chunk_at store ?g = (chunk_at store (fsys s))(cid := None)"
      by (auto simp: chunk_at_def unlink_stored fun_eq_iff)
    ultimately show ?thesis
      using c e store_inv_unlink [of P store "fsys s" "PathFor store cid"]
      by (simp add: changes_def platform_ok_def sizes_ok_def)
  qed
qed

lemma Delete_frame:
  assumes "FileChunkStore_Delete P store cid s = (st, s')" and "status_ok st"
  shows "fsys s' = rebind (PathFor store cid) None (fsys s)"
proof -
  obtain rc s1 where u: "sys_unlink (PathFor store cid) s = (rc, s1)" by fastforce
  show ?thesis
    using assms u sys_unlink_cases [OF u]
    by (auto simp: FileChunkStore_Delete_def Let_def IoError_def changes_def split: if_splits)
qed

lemma Delete_smooth:
  assumes "FileChunkStore_Delete P store cid s = (st, s')" and "smooth s" and "storable cid"
  shows "st_code st = (if stored store (fsys s) cid = None then kNotFound else kOk)"
proof -
  obtain rc s1 where u: "sys_unlink (PathFor store cid) s = (rc, s1)" by fastforce
  have "status_ok (ValidateId cid)" "\<not> name_too_long (PathFor store cid)"
    using assms(3) storable_not_too_long by (auto simp: storable_def)
  with assms(1,2) sys_unlink_cases [OF u] u show ?thesis
    by (auto simp: FileChunkStore_Delete_def Let_def stored_def split: if_splits)
qed

section \<open>The contract\<close>

type_synonym chunk_view = "ChunkId \<Rightarrow> (Checksum \<times> byte list) option"

text \<open>
  \<open>Put\<close>: without success nothing has changed, except that an I/O error may be reported after the
  commit; otherwise a new chunk holds all that the stream delivered, which is what was announced.
\<close>

definition put_stored ::
  "(byte list \<Rightarrow> Checksum) \<Rightarrow> PutChunkRequest \<Rightarrow> byte list \<Rightarrow> chunk_view \<Rightarrow> chunk_view \<Rightarrow> bool" where
  "put_stored digest req payload v v' \<longleftrightarrow>
     v (put_chunk_id req) = None \<and> v' = v(put_chunk_id req \<mapsto> (expected_checksum req, payload)) \<and>
     length payload = unat (expected_size req) \<and> expected_checksum req = digest payload"

definition put_spec ::
  "(byte list \<Rightarrow> Checksum) \<Rightarrow> PutChunkRequest \<Rightarrow> 's ChunkInputStream \<Rightarrow> 's \<Rightarrow> Status \<Rightarrow> 's \<Rightarrow>
     chunk_view \<Rightarrow> chunk_view \<Rightarrow> bool" where
  "put_spec digest req I inp st inp' v v' \<longleftrightarrow>
     (\<not> status_ok st \<and> v' = v) \<or>
     (\<exists>blocks. drains I inp blocks inp' \<and> put_stored digest req (concat blocks) v v' \<and>
        (status_ok st \<or> st_code st = kIoError))"

definition get_spec ::
  "GetChunkRequest \<Rightarrow> 'o ChunkOutputStream \<Rightarrow> 'o \<Rightarrow> Status \<Rightarrow> 'o \<Rightarrow> chunk_view \<Rightarrow> bool" where
  "get_spec req O' out st out' v \<longleftrightarrow>
     (case v (get_chunk_id req) of
        None \<Rightarrow> \<not> status_ok st \<and> out' = out
      | Some (c, payload) \<Rightarrow>
          if status_ok (ValidateByteRange (get_range req) (word_of_nat (length payload))) then
            \<exists>blocks. out' = feed O' out blocks \<and>
               pieces blocks (range_of (get_range req) payload) (status_ok st)
          else \<not> status_ok st \<and> out' = out)"

definition head_spec :: "ChunkId \<Rightarrow> HeadChunkResponse StatusOr \<Rightarrow> chunk_view \<Rightarrow> bool" where
  "head_spec cid res v \<longleftrightarrow>
     statusor_inv res \<and>
     (\<forall>h. so_opt res = Some h \<longrightarrow> resp_chunk_id h = cid \<and>
        (\<exists>payload. v cid = Some (resp_checksum h, payload) \<and> unat (resp_size h) = length payload))"

definition delete_spec :: "ChunkId \<Rightarrow> Status \<Rightarrow> chunk_view \<Rightarrow> chunk_view \<Rightarrow> bool" where
  "delete_spec cid st v v' \<longleftrightarrow> (if status_ok st then v cid \<noteq> None \<and> v' = v(cid := None) else v' = v)"

locale chunk_store =
  fixes cs :: "('s, 'o, 'w) ChunkStore"
    and view :: "'w \<Rightarrow> chunk_view"
    and inv :: "'w \<Rightarrow> bool"
    and digest :: "byte list \<Rightarrow> Checksum"
  assumes put_law: "inv w \<Longrightarrow> stream_ok I \<Longrightarrow> cs_Put cs req I inp w = (st, inp', w') \<Longrightarrow>
      inv w' \<and> put_spec digest req I inp st inp' (view w) (view w')"
    and get_law: "inv w \<Longrightarrow> cs_Get cs greq O' out w = (st, out', w') \<Longrightarrow>
      inv w' \<and> view w' = view w \<and> get_spec greq O' out st out' (view w)"
    and head_law: "inv w \<Longrightarrow> cs_Head cs cid w = (res, w') \<Longrightarrow>
      inv w' \<and> view w' = view w \<and> head_spec cid res (view w)"
    and delete_law: "inv w \<Longrightarrow> cs_Delete cs cid w = (st, w') \<Longrightarrow>
      inv w' \<and> delete_spec cid st (view w) (view w')"
    and view_law: "inv w \<Longrightarrow> view w cid = Some (c, payload) \<Longrightarrow> c = digest payload"
begin

text \<open>What follows from the laws alone.\<close>

lemma put_then_head:
  assumes "inv w" and "stream_ok I" and "cs_Put cs req I inp w = (st, inp', w1)" and "status_ok st"
    and "cs_Head cs (put_chunk_id req) w1 = (res, w2)" and "so_opt res = Some h"
  shows "resp_size h = expected_size req \<and> resp_checksum h = expected_checksum req"
proof -
  from put_law [OF assms(1-3)] assms(4) obtain payload where
    i: "inv w1" and p: "put_stored digest req payload (view w) (view w1)"
    by (auto simp: put_spec_def)
  from head_law [OF i assms(5)] assms(6) p show ?thesis
    by (auto simp: head_spec_def put_stored_def word_unat_eq_iff)
qed

lemma put_then_get:
  assumes "inv w" and "stream_ok I" and "cs_Put cs req I inp w = (st, inp', w1)" and "status_ok st"
    and "cs_Get cs \<lparr>get_chunk_id = put_chunk_id req, get_range = rg\<rparr> O' out w1 = (gst, out', w2)"
    and "status_ok gst"
  shows "\<exists>payload blocks. drains I inp payload inp' \<and>
           concat blocks = range_of rg (concat payload) \<and> out' = feed O' out blocks"
proof -
  from put_law [OF assms(1-3)] assms(4) obtain payload where
    i: "inv w1" and p: "drains I inp payload inp'" "put_stored digest req (concat payload) (view w) (view w1)"
    by (auto simp: put_spec_def)
  from get_law [OF i assms(5)] assms(6) p show ?thesis
    by (auto simp: get_spec_def put_stored_def pieces_def split: if_splits)
qed

lemma put_no_overwrite:
  assumes "inv w" and "stream_ok I" and "cs_Put cs req I inp w = (st, inp', w1)"
    and "view w (put_chunk_id req) \<noteq> None"
  shows "\<not> status_ok st \<and> view w1 = view w"
  using put_law [OF assms(1-3)] assms(4) by (auto simp: put_spec_def put_stored_def)

lemma delete_then_get:
  assumes "inv w" and "cs_Delete cs cid w = (st, w1)" and "status_ok st"
    and "cs_Get cs \<lparr>get_chunk_id = cid, get_range = rg\<rparr> O' out w1 = (gst, out', w2)"
  shows "\<not> status_ok gst \<and> out' = out"
  using delete_law [OF assms(1,2)] assms(3) get_law [OF _ assms(4)]
  by (auto simp: delete_spec_def get_spec_def)

text \<open>A full read that succeeds delivers bytes with the digest \<open>Head\<close> reports.\<close>

lemma get_matches_head:
  assumes "inv w" and "cs_Head cs cid w = (res, w1)" and "so_opt res = Some h"
    and "cs_Get cs \<lparr>get_chunk_id = cid, get_range = \<lparr>range_offset = 0, range_size = resp_size h\<rparr>\<rparr> O' out w1 =
           (st, out', w2)" and "status_ok st"
  shows "\<exists>blocks. out' = feed O' out blocks \<and> digest (concat blocks) = resp_checksum h \<and>
           length (concat blocks) = unat (resp_size h)"
proof -
  from head_law [OF assms(1,2)] assms(3) obtain payload where
    i: "inv w1" "view w1 = view w" and p: "view w cid = Some (resp_checksum h, payload)"
      "unat (resp_size h) = length payload"
    by (auto simp: head_spec_def)
  have "range_of \<lparr>range_offset = 0, range_size = resp_size h\<rparr> payload = payload"
    using p(2) by (simp add: range_of_def)
  with get_law [OF i(1) assms(4)] assms(5) i(2) p view_law [OF assms(1) p(1)] show ?thesis
    by (auto simp: get_spec_def pieces_def split: if_splits)
qed

end

text \<open>The file store satisfies the contract, whatever the operating system does.\<close>

lemma quiet_platform_ok: "quiet s s' \<Longrightarrow> platform_ok P store s \<Longrightarrow> platform_ok P store s'"
  by (simp add: quiet_def platform_ok_def)

lemma quiet_store_view: "quiet s s' \<Longrightarrow> store_view store s' = store_view store s"
  by (simp add: quiet_def store_view_def)

lemma Put_satisfies:
  assumes "FileChunkStore_Put P store req I inp s = (st, inp', s')" and "stream_ok I"
    and ok: "platform_ok P store s"
  shows "platform_ok P store s' \<and>
    put_spec (blake3_checksum P) req I inp st inp' (store_view store s) (store_view store s')"
  using Put_moments [OF assms]
proof (elim disjE exE conjE)
  assume "\<not> status_ok st" and k: "keeps (before_commit P store (fsys s)) s s'"
  then show ?thesis
    using keeps_last [OF k] ok
    by (simp add: before_commit_def platform_ok_def put_spec_def store_view_def)
next
  fix blocks
  assume v: "put_valid req" and d: "drains I inp blocks inp'" "delivered P req blocks"
    and n: "chunk_at store (fsys s) (put_chunk_id req) = None"
    and a: "after_commit P store (put_chunk_id req) (expected_checksum req) (concat blocks) (fsys s) (fsys s')"
    and st: "st = Status_Ok"
  have "expected_checksum req = blake3_checksum P (concat blocks)"
    using delivered_chunk(3) [OF _ v d(2)] ok by (simp add: platform_ok_def)
  with v d n a st ok show ?thesis
    by (auto simp: after_commit_def platform_ok_def put_spec_def put_stored_def store_view_def delivered_def)
next
  fix blocks
  assume v: "put_valid req" and d: "drains I inp blocks inp'" "delivered P req blocks"
    and n: "chunk_at store (fsys s) (put_chunk_id req) = None"
    and a: "after_commit P store (put_chunk_id req) (expected_checksum req) (concat blocks) (fsys s) (fsys s')"
    and st: "st_code st = kIoError"
  have "expected_checksum req = blake3_checksum P (concat blocks)"
    using delivered_chunk(3) [OF _ v d(2)] ok by (simp add: platform_ok_def)
  with v d n a st ok show ?thesis
    by (auto simp: after_commit_def platform_ok_def put_spec_def put_stored_def store_view_def delivered_def)
qed

lemma Get_satisfies:
  assumes "FileChunkStore_Get P store req O' out s = (st, out', s')" and ok: "platform_ok P store s"
  shows "platform_ok P store s' \<and> store_view store s' = store_view store s \<and>
    get_spec req O' out st out' (store_view store s)"
proof -
  have "get_post store req O' out s st out' s'"
    using Get_get_post [OF assms(1)] ok by (simp add: platform_ok_def)
  then show ?thesis
    using ok quiet_platform_ok [of s s'] quiet_store_view [of s s']
    by (auto simp: get_post_def get_spec_def store_view_def split: option.splits if_splits)
qed

lemma Head_satisfies:
  assumes "FileChunkStore_Head P store cid s = (res, s')" and ok: "platform_ok P store s"
  shows "platform_ok P store s' \<and> store_view store s' = store_view store s \<and>
    head_spec cid res (store_view store s)"
proof -
  have r: "reads s res s' (head_value store (fsys s) cid) (head_errs store cid s)"
    using Head_reads [OF assms(1)] ok by (simp add: platform_ok_def)
  show ?thesis
    using readsD(1,3,4) [OF r] ok quiet_platform_ok [of s s'] quiet_store_view [of s s']
    by (auto simp: head_spec_def head_value_iff store_view_def)
qed

lemma Delete_satisfies:
  assumes "FileChunkStore_Delete P store cid s = (st, s')" and ok: "platform_ok P store s"
  shows "platform_ok P store s' \<and> delete_spec cid st (store_view store s) (store_view store s')"
  using Delete_effect [OF assms] ok quiet_platform_ok [of s s'] quiet_store_view [of s s']
  by (auto simp: delete_spec_def store_view_def)

interpretation fcs: chunk_store "FileChunkStore_vtable P store" "store_view store"
  "platform_ok P store" "blake3_checksum P" for P store
proof unfold_locales
qed (use Put_satisfies Get_satisfies Head_satisfies Delete_satisfies chunk_at_digest in
      \<open>fastforce simp: FileChunkStore_vtable_def store_view_def platform_ok_def\<close>)+

end
