(* ===== verification/Data_Plane_Service.thy ===== *)
theory Data_Plane_Service
  imports Store_Contract
begin

text \<open>
  \<open>DataPlaneService\<close> (\<open>src/storage/worker/data_plane_service.cpp\<close>): the checks in front of a
  \<open>ChunkStore\<close>. The service only knows the interface, so its lemmas are proved inside the
  contract \<open>chunk_store\<close>.
\<close>

section \<open>Definitions\<close>

record ('s, 'o, 'w) DataPlaneService =
  service_store :: "('s, 'o, 'w) ChunkStore"

definition DataPlaneService_make :: "('s, 'o, 'w) ChunkStore \<Rightarrow> ('s, 'o, 'w) DataPlaneService" where
  "DataPlaneService_make cs = \<lparr>service_store = cs\<rparr>"

lemma service_store_make [simp]: "service_store (DataPlaneService_make cs) = cs"
  by (simp add: DataPlaneService_make_def)

definition DataPlaneService_PutChunk ::
  "('s, 'o, 'w) DataPlaneService \<Rightarrow> PutChunkRequest \<Rightarrow> 's ChunkInputStream \<Rightarrow> 's \<Rightarrow> 'w \<Rightarrow> Status \<times> 's \<times> 'w" where
  "DataPlaneService_PutChunk this request I inp w =
     (if \<not> ChunkId_valid (put_chunk_id request)
      then (mk_Status kInvalidArgument ''chunk_id cannot be empty'', inp, w)
      else if \<not> status_ok (ValidateChecksum (expected_checksum request))
      then (ValidateChecksum (expected_checksum request), inp, w)
      else cs_Put (service_store this) request I inp w)"

definition DataPlaneService_GetChunk ::
  "('s, 'o, 'w) DataPlaneService \<Rightarrow> GetChunkRequest \<Rightarrow> 'o ChunkOutputStream \<Rightarrow> 'o \<Rightarrow> 'w \<Rightarrow> Status \<times> 'o \<times> 'w" where
  "DataPlaneService_GetChunk this request O' out w =
     (if \<not> ChunkId_valid (get_chunk_id request)
      then (mk_Status kInvalidArgument ''chunk_id cannot be empty'', out, w)
      else cs_Get (service_store this) request O' out w)"

definition DataPlaneService_HeadChunk ::
  "('s, 'o, 'w) DataPlaneService \<Rightarrow> HeadChunkRequest \<Rightarrow> 'w \<Rightarrow> HeadChunkResponse StatusOr \<times> 'w" where
  "DataPlaneService_HeadChunk this request w =
     (if \<not> ChunkId_valid (head_chunk_id request)
      then (StatusOr_error (mk_Status kInvalidArgument ''chunk_id cannot be empty''), w)
      else cs_Head (service_store this) (head_chunk_id request) w)"

definition DataPlaneService_DeleteChunk ::
  "('s, 'o, 'w) DataPlaneService \<Rightarrow> DeleteChunkRequest \<Rightarrow> 'w \<Rightarrow> Status \<times> 'w" where
  "DataPlaneService_DeleteChunk this request w =
     (if \<not> ChunkId_valid (delete_chunk_id request)
      then (mk_Status kInvalidArgument ''chunk_id cannot be empty'', w)
      else cs_Delete (service_store this) (delete_chunk_id request) w)"

section \<open>The service keeps the contract\<close>

lemma get_spec_fail: "\<not> status_ok st \<Longrightarrow> get_spec req O' out st out v"
  by (auto simp: get_spec_def split: option.splits intro!: exI [of _ "[]"])

lemma put_spec_fail: "\<not> status_ok st \<Longrightarrow> put_spec digest req I inp st inp' v v"
  by (simp add: put_spec_def)

lemma head_spec_fail: "head_spec cid (StatusOr_error st) v"
  by (simp add: head_spec_def)

context chunk_store
begin

lemma service_put:
  assumes "inv w" and "stream_ok I" and "DataPlaneService_PutChunk (DataPlaneService_make cs) req I inp w = (st, inp', w')"
  shows "inv w' \<and> put_spec digest req I inp st inp' (view w) (view w')"
  using assms put_law [OF assms(1,2)]
  by (auto simp: DataPlaneService_PutChunk_def put_spec_fail split: if_splits)

lemma service_get:
  assumes "inv w" and "DataPlaneService_GetChunk (DataPlaneService_make cs) req O' out w = (st, out', w')"
  shows "inv w' \<and> view w' = view w \<and> get_spec req O' out st out' (view w)"
  using assms get_law [OF assms(1)]
  by (auto simp: DataPlaneService_GetChunk_def get_spec_fail split: if_splits)

lemma service_head:
  assumes "inv w" and "DataPlaneService_HeadChunk (DataPlaneService_make cs) req w = (res, w')"
  shows "inv w' \<and> view w' = view w \<and> head_spec (head_chunk_id req) res (view w)"
  using assms head_law [OF assms(1)]
  by (auto simp: DataPlaneService_HeadChunk_def head_spec_fail split: if_splits)

lemma service_delete:
  assumes "inv w" and "DataPlaneService_DeleteChunk (DataPlaneService_make cs) req w = (st, w')"
  shows "inv w' \<and> delete_spec (delete_chunk_id req) st (view w) (view w')"
proof (cases "ChunkId_valid (delete_chunk_id req)")
  case True
  then show ?thesis
    using assms(2) delete_law [OF assms(1)] by (simp add: DataPlaneService_DeleteChunk_def)
next
  case False
  then show ?thesis using assms by (auto simp: DataPlaneService_DeleteChunk_def delete_spec_def)
qed

end

text \<open>
  In front of the file store the checks of the service are the store's own: the answers differ at
  most in the message, when the identifier is too long and the checksum malformed as well.
\<close>

lemma service_put_file_store:
  assumes "DataPlaneService_PutChunk (DataPlaneService_make (FileChunkStore_vtable P store)) req I inp s = (st, inp1, s1)"
    and "FileChunkStore_Put P store req I inp s = (st', inp2, s2)"
  shows "st_code st = st_code st' \<and> inp1 = inp2 \<and> s1 = s2"
proof (cases "put_valid req")
  case True
  then show ?thesis
    using assms by (auto simp: DataPlaneService_PutChunk_def FileChunkStore_vtable_def put_valid_def
        ValidateId_ok_iff ChunkId_valid_def)
next
  case False
  have c: "\<not> status_ok (ValidateChecksum c) \<Longrightarrow> st_code (ValidateChecksum c) = kInvalidArgument" for c
    using ValidateChecksum_cases [of c] by auto
  show ?thesis
    using assms False c
    by (auto simp: DataPlaneService_PutChunk_def FileChunkStore_vtable_def FileChunkStore_Put_def
        put_valid_def ValidateId_ok_iff ChunkId_valid_def ValidateId_code split: if_splits)
qed

end
