(* ===== verification/Rpc_Services.thy ===== *)
theory Rpc_Services
  imports Data_Plane_Service
begin

text \<open>
  The gRPC layer of the worker and of the control plane (\<open>src/rpc/services.cpp\<close>): the status
  mappings, the adapters between gRPC streams and the store's streams, and the handlers. The
  gRPC library itself is a parameter: a reader is a function from its state to the next frame,
  or none at the end of the stream, a writer a function that accepts or refuses a frame.
\<close>

section \<open>Messages\<close>

text \<open>The messages of \<open>common.proto\<close> and \<open>worker.proto\<close>; an open enumeration may hold other values.\<close>

datatype RpcStatusCode =
    STATUS_CODE_OK
  | STATUS_CODE_INVALID_ARGUMENT
  | STATUS_CODE_NOT_FOUND
  | STATUS_CODE_ALREADY_EXISTS
  | STATUS_CODE_UNAVAILABLE
  | STATUS_CODE_TIMEOUT
  | STATUS_CODE_IO_ERROR
  | STATUS_CODE_CORRUPTION
  | STATUS_CODE_RESOURCE_EXHAUSTED
  | STATUS_CODE_INTERNAL
  | STATUS_CODE_OTHER int

record RpcStatus =
  rpc_code :: RpcStatusCode
  rpc_message :: string

text \<open>\<open>grpc::StatusCode\<close> and \<open>grpc::Status\<close> of the gRPC library.\<close>

datatype GrpcStatusCode =
    GRPC_OK | CANCELLED | UNKNOWN | INVALID_ARGUMENT | DEADLINE_EXCEEDED | NOT_FOUND
  | ALREADY_EXISTS | PERMISSION_DENIED | RESOURCE_EXHAUSTED | FAILED_PRECONDITION | ABORTED
  | OUT_OF_RANGE | UNIMPLEMENTED | INTERNAL | UNAVAILABLE | DATA_LOSS | UNAUTHENTICATED

record GrpcStatus =
  grpc_code :: GrpcStatusCode
  grpc_message :: string

definition Grpc_Ok :: GrpcStatus where
  "Grpc_Ok = \<lparr>grpc_code = GRPC_OK, grpc_message = []\<rparr>"

record HealthResponse =
  health_status :: RpcStatus
  health_service :: string

record PutChunkMetadata =
  meta_chunk_id :: string
  meta_expected_size :: u64
  meta_expected_checksum :: string

text \<open>The \<open>oneof\<close> of a frame may also be unset.\<close>

datatype PutChunkFrame = FrameMetadata PutChunkMetadata | FrameData "byte list" | FrameUnset

record RpcGetChunkRequest =
  rget_chunk_id :: string
  rget_offset :: u64
  rget_size :: u64

record RpcHeadChunkResponse =
  rhead_status :: RpcStatus
  rhead_chunk_id :: string
  rhead_size :: u64
  rhead_checksum :: string

record OperationResponse =
  op_status :: RpcStatus

section \<open>Status mappings\<close>

definition SetHealthy :: "HealthResponse \<Rightarrow> string \<Rightarrow> HealthResponse" where
  "SetHealthy response service =
     response\<lparr>health_status := \<lparr>rpc_code = STATUS_CODE_OK, rpc_message = ''ok''\<rparr>,
              health_service := service\<rparr>"

fun ToRpcStatusCode :: "StatusCode \<Rightarrow> RpcStatusCode" where
  "ToRpcStatusCode kOk = STATUS_CODE_OK"
| "ToRpcStatusCode kInvalidArgument = STATUS_CODE_INVALID_ARGUMENT"
| "ToRpcStatusCode kNotFound = STATUS_CODE_NOT_FOUND"
| "ToRpcStatusCode kAlreadyExists = STATUS_CODE_ALREADY_EXISTS"
| "ToRpcStatusCode kUnavailable = STATUS_CODE_UNAVAILABLE"
| "ToRpcStatusCode kTimeout = STATUS_CODE_TIMEOUT"
| "ToRpcStatusCode kIoError = STATUS_CODE_IO_ERROR"
| "ToRpcStatusCode kCorruption = STATUS_CODE_CORRUPTION"
| "ToRpcStatusCode kResourceExhausted = STATUS_CODE_RESOURCE_EXHAUSTED"
| "ToRpcStatusCode kInternal = STATUS_CODE_INTERNAL"

definition SetStatus :: "Status \<Rightarrow> RpcStatus" where
  "SetStatus status = \<lparr>rpc_code = ToRpcStatusCode (st_code status), rpc_message = st_message status\<rparr>"

definition ToGrpcStatus :: "Status \<Rightarrow> GrpcStatus" where
  "ToGrpcStatus status =
     (case st_code status of
        kOk \<Rightarrow> Grpc_Ok
      | kInvalidArgument \<Rightarrow> \<lparr>grpc_code = INVALID_ARGUMENT, grpc_message = st_message status\<rparr>
      | kNotFound \<Rightarrow> \<lparr>grpc_code = NOT_FOUND, grpc_message = st_message status\<rparr>
      | kAlreadyExists \<Rightarrow> \<lparr>grpc_code = ALREADY_EXISTS, grpc_message = st_message status\<rparr>
      | kUnavailable \<Rightarrow> \<lparr>grpc_code = UNAVAILABLE, grpc_message = st_message status\<rparr>
      | kTimeout \<Rightarrow> \<lparr>grpc_code = DEADLINE_EXCEEDED, grpc_message = st_message status\<rparr>
      | kResourceExhausted \<Rightarrow> \<lparr>grpc_code = RESOURCE_EXHAUSTED, grpc_message = st_message status\<rparr>
      | kCorruption \<Rightarrow> \<lparr>grpc_code = DATA_LOSS, grpc_message = st_message status\<rparr>
      | kIoError \<Rightarrow> \<lparr>grpc_code = UNKNOWN, grpc_message = st_message status\<rparr>
      | kInternal \<Rightarrow> \<lparr>grpc_code = INTERNAL, grpc_message = st_message status\<rparr>)"

section \<open>Streams\<close>

record 'r ServerReader =
  sr_read :: "'r \<Rightarrow> PutChunkFrame option \<times> 'r"

record 'x ServerWriter =
  sw_write :: "'x \<Rightarrow> byte list \<Rightarrow> bool \<times> 'x"

record 'r RpcInputStream =
  ris_reader :: 'r
  ris_data :: "byte list"
  ris_offset :: nat

definition RpcInputStream_init :: "'r \<Rightarrow> 'r RpcInputStream" where
  "RpcInputStream_init reader = \<lparr>ris_reader = reader, ris_data = [], ris_offset = 0\<rparr>"

text \<open>The next frame (\<open>Inr\<close>), or what \<open>Read\<close> returns without one (\<open>Inl\<close>).\<close>

definition RpcInputStream_frame ::
  "'r ServerReader \<Rightarrow> 'r RpcInputStream \<Rightarrow> byte list StatusOr \<times> 'r RpcInputStream + 'r RpcInputStream" where
  "RpcInputStream_frame R st =
     (case sr_read R (ris_reader st) of (got, reader) \<Rightarrow>
        (let st = st\<lparr>ris_reader := reader\<rparr> in
          (case got of
             None \<Rightarrow> Inl (StatusOr_value [], st)
           | Some (FrameData data) \<Rightarrow>
               (let st = st\<lparr>ris_data := data, ris_offset := 0\<rparr> in
                 if data = []
                 then Inl (StatusOr_error (mk_Status kInvalidArgument ''empty data frame''), st)
                 else Inr st)
           | Some _ \<Rightarrow>
               Inl (StatusOr_error
                      (mk_Status kInvalidArgument ''metadata must be the first frame only''), st))))"

definition RpcInputStream_Read ::
  "'r ServerReader \<Rightarrow> 'r RpcInputStream \<Rightarrow> nat \<Rightarrow> byte list StatusOr \<times> 'r RpcInputStream" where
  "RpcInputStream_Read R st n =
     (if n = 0
      then (StatusOr_error (mk_Status kInvalidArgument ''input buffer cannot be empty''), st)
      else (case (if ris_offset st = length (ris_data st) then RpcInputStream_frame R st else Inr st) of
              Inl result \<Rightarrow> result
            | Inr st \<Rightarrow>
                (let count = min n (length (ris_data st) - ris_offset st)
                 in (StatusOr_value (take count (drop (ris_offset st) (ris_data st))),
                     st\<lparr>ris_offset := ris_offset st + count\<rparr>))))"

definition rpc_input :: "'r ServerReader \<Rightarrow> u64 \<Rightarrow> 'r RpcInputStream ChunkInputStream" where
  "rpc_input R addr = \<lparr>in_read = RpcInputStream_Read R, in_address = addr\<rparr>"

definition RpcOutputStream_Write :: "'x ServerWriter \<Rightarrow> 'x \<Rightarrow> byte list \<Rightarrow> Status \<times> 'x" where
  "RpcOutputStream_Write W out data =
     (case sw_write W out data of (sent, out) \<Rightarrow>
        ((if sent then Status_Ok else mk_Status kUnavailable ''client closed get stream''), out))"

definition rpc_output :: "'x ServerWriter \<Rightarrow> 'x ChunkOutputStream" where
  "rpc_output W = \<lparr>out_write = RpcOutputStream_Write W\<rparr>"

section \<open>Handlers\<close>

definition not_configured :: GrpcStatus where
  "not_configured = \<lparr>grpc_code = FAILED_PRECONDITION, grpc_message = ''data plane is not configured''\<rparr>"

definition ControlPlaneService_Health :: "HealthResponse \<Rightarrow> GrpcStatus \<times> HealthResponse" where
  "ControlPlaneService_Health response = (Grpc_Ok, SetHealthy response ''control-plane'')"

definition WorkerService_Health :: "HealthResponse \<Rightarrow> GrpcStatus \<times> HealthResponse" where
  "WorkerService_Health response = (Grpc_Ok, SetHealthy response ''worker'')"

text \<open>
  The data plane of a worker is absent (\<open>nullptr\<close>) if the service was made by the default
  constructor. In \<open>PutChunk\<close>, \<open>addr\<close> is the address of the local \<open>input\<close>.
\<close>

record ('s, 'o, 'w) WorkerService =
  worker_data_plane :: "('s, 'o, 'w) DataPlaneService option"

definition WorkerService_default :: "('s, 'o, 'w) WorkerService" where
  "WorkerService_default = \<lparr>worker_data_plane = None\<rparr>"

definition WorkerService_make :: "('s, 'o, 'w) DataPlaneService \<Rightarrow> ('s, 'o, 'w) WorkerService" where
  "WorkerService_make data_plane = \<lparr>worker_data_plane = Some data_plane\<rparr>"

lemma worker_data_plane_simps [simp]:
  "worker_data_plane WorkerService_default = None"
  "worker_data_plane (WorkerService_make data_plane) = Some data_plane"
  by (simp_all add: WorkerService_default_def WorkerService_make_def)

text \<open>The service that \<open>worker_main\<close> puts over a store.\<close>

abbreviation worker_over :: "('s, 'o, 'w) ChunkStore \<Rightarrow> ('s, 'o, 'w) WorkerService" where
  "worker_over cs \<equiv> WorkerService_make (DataPlaneService_make cs)"

definition WorkerService_PutChunk ::
  "('r RpcInputStream, 'o, 'w) WorkerService \<Rightarrow> u64 \<Rightarrow> 'r ServerReader \<Rightarrow> 'r \<Rightarrow> OperationResponse \<Rightarrow> 'w \<Rightarrow>
     GrpcStatus \<times> OperationResponse \<times> 'r \<times> 'w" where
  "WorkerService_PutChunk this addr R reader response w =
     (case worker_data_plane this of
        None \<Rightarrow> (not_configured, response, reader, w)
      | Some data_plane \<Rightarrow>
          (case sr_read R reader of
             (Some (FrameMetadata metadata), reader) \<Rightarrow>
               (let request = \<lparr>put_chunk_id = \<lparr>chunk_id_value = meta_chunk_id metadata\<rparr>,
                               expected_size = meta_expected_size metadata,
                               expected_checksum = \<lparr>algorithm = kBlake3,
                                 checksum_value = meta_expected_checksum metadata\<rparr>\<rparr>
                in (case DataPlaneService_PutChunk data_plane request (rpc_input R addr)
                           (RpcInputStream_init reader) w of
                      (status, input, w) \<Rightarrow>
                        (Grpc_Ok, response\<lparr>op_status := SetStatus status\<rparr>, ris_reader input, w)))
           | (_, reader) \<Rightarrow>
               (\<lparr>grpc_code = INVALID_ARGUMENT, grpc_message = ''first put frame must contain metadata''\<rparr>,
                response, reader, w)))"

definition WorkerService_GetChunk ::
  "('s, 'x, 'w) WorkerService \<Rightarrow> RpcGetChunkRequest \<Rightarrow> 'x ServerWriter \<Rightarrow> 'x \<Rightarrow> 'w \<Rightarrow>
     GrpcStatus \<times> 'x \<times> 'w" where
  "WorkerService_GetChunk this request W writer w =
     (case worker_data_plane this of
        None \<Rightarrow> (not_configured, writer, w)
      | Some data_plane \<Rightarrow>
          (case DataPlaneService_GetChunk data_plane
                  \<lparr>get_chunk_id = \<lparr>chunk_id_value = rget_chunk_id request\<rparr>,
                   get_range = \<lparr>range_offset = rget_offset request, range_size = rget_size request\<rparr>\<rparr>
                  (rpc_output W) writer w of
             (status, writer, w) \<Rightarrow> (ToGrpcStatus status, writer, w)))"

definition WorkerService_HeadChunk ::
  "('s, 'o, 'w) WorkerService \<Rightarrow> string \<Rightarrow> RpcHeadChunkResponse \<Rightarrow> 'w \<Rightarrow>
     GrpcStatus \<times> RpcHeadChunkResponse \<times> 'w" where
  "WorkerService_HeadChunk this chunk_id response w =
     (case worker_data_plane this of
        None \<Rightarrow> (not_configured, response, w)
      | Some data_plane \<Rightarrow>
          (case DataPlaneService_HeadChunk data_plane \<lparr>head_chunk_id = \<lparr>chunk_id_value = chunk_id\<rparr>\<rparr> w of
             (result, w) \<Rightarrow>
               (case so_opt result of
                  None \<Rightarrow> (Grpc_Ok, response\<lparr>rhead_status := SetStatus (so_status result)\<rparr>, w)
                | Some value \<Rightarrow>
                    (Grpc_Ok,
                     response\<lparr>rhead_status := SetStatus Status_Ok,
                              rhead_chunk_id := chunk_id_value (resp_chunk_id value),
                              rhead_size := resp_size value,
                              rhead_checksum := checksum_value (resp_checksum value)\<rparr>, w))))"

definition WorkerService_DeleteChunk ::
  "('s, 'o, 'w) WorkerService \<Rightarrow> string \<Rightarrow> OperationResponse \<Rightarrow> 'w \<Rightarrow>
     GrpcStatus \<times> OperationResponse \<times> 'w" where
  "WorkerService_DeleteChunk this chunk_id response w =
     (case worker_data_plane this of
        None \<Rightarrow> (not_configured, response, w)
      | Some data_plane \<Rightarrow>
          (case DataPlaneService_DeleteChunk data_plane \<lparr>delete_chunk_id = \<lparr>chunk_id_value = chunk_id\<rparr>\<rparr> w of
             (status, w) \<Rightarrow> (Grpc_Ok, response\<lparr>op_status := SetStatus status\<rparr>, w)))"

section \<open>The input stream\<close>

lemma rpc_input_simps [simp]:
  "in_read (rpc_input R addr) = RpcInputStream_Read R" "in_address (rpc_input R addr) = addr"
  by (simp_all add: rpc_input_def)

lemma RpcInputStream_Read_inv: "statusor_inv (fst (RpcInputStream_Read R st n))"
  by (auto simp: RpcInputStream_Read_def RpcInputStream_frame_def Let_def
      split: sum.splits prod.splits option.splits PutChunkFrame.splits if_splits)

lemma rpc_input_ok: "stream_ok (rpc_input R addr)"
  by (simp add: stream_ok_def RpcInputStream_Read_inv)

text \<open>The reader delivers the data frames \<open>ds\<close>, none of them empty, and then the end of the stream.\<close>

inductive frames :: "'r ServerReader \<Rightarrow> 'r \<Rightarrow> byte list list \<Rightarrow> 'r \<Rightarrow> bool" for R where
  no_frame: "sr_read R rd = (None, rd') \<Longrightarrow> frames R rd [] rd'"
| next_frame: "sr_read R rd = (Some (FrameData d), rd1) \<Longrightarrow> d \<noteq> [] \<Longrightarrow> frames R rd1 ds rd' \<Longrightarrow>
     frames R rd (d # ds) rd'"

definition pending :: "'r RpcInputStream \<Rightarrow> byte list" where
  "pending st = drop (ris_offset st) (ris_data st)"

lemma pending_init [simp]: "pending (RpcInputStream_init rd) = []"
  by (simp add: pending_def RpcInputStream_init_def)

definition rpc_stream_inv :: "'r RpcInputStream \<Rightarrow> bool" where
  "rpc_stream_inv st \<longleftrightarrow> ris_offset st \<le> length (ris_data st)"

lemma pending_Nil_iff: "rpc_stream_inv st \<Longrightarrow> pending st = [] \<longleftrightarrow> ris_offset st = length (ris_data st)"
  by (auto simp: pending_def rpc_stream_inv_def)

text \<open>A read from pending bytes takes a prefix of them.\<close>

lemma Read_pending:
  assumes "pending st \<noteq> []" and "rpc_stream_inv st" and "n > 0"
  defines "b \<equiv> take n (pending st)"
  shows "\<exists>st'. RpcInputStream_Read R st n = (StatusOr_value b, st') \<and> rpc_stream_inv st' \<and>
    pending st = b @ pending st' \<and> ris_reader st' = ris_reader st"
proof -
  let ?count = "min n (length (ris_data st) - ris_offset st)"
  have b: "take ?count (drop (ris_offset st) (ris_data st)) = b"
    by (simp add: b_def pending_def min_def)
  moreover have "ris_offset st \<noteq> length (ris_data st)" using assms(1,2) pending_Nil_iff by blast
  ultimately have "RpcInputStream_Read R st n = (StatusOr_value b, st\<lparr>ris_offset := ris_offset st + ?count\<rparr>)"
    using assms(3) by (simp add: RpcInputStream_Read_def Let_def)
  moreover have "pending st = b @ drop (ris_offset st + ?count) (ris_data st)"
    using append_take_drop_id [of ?count "pending st"] unfolding pending_def b
    by (simp add: add.commute)
  ultimately show ?thesis
    using assms(2) by (auto simp: rpc_stream_inv_def pending_def)
qed

lemma Read_next:
  assumes "pending st = []" and "rpc_stream_inv st" and "n > 0"
    and "sr_read R (ris_reader st) = (Some (FrameData d), rd1)" and "d \<noteq> []"
  shows "RpcInputStream_Read R st n =
    RpcInputStream_Read R \<lparr>ris_reader = rd1, ris_data = d, ris_offset = 0\<rparr> n"
proof -
  have "ris_offset st = length (ris_data st)" using assms(1,2) pending_Nil_iff by blast
  then show ?thesis
    using assms(3-5) by (auto simp: RpcInputStream_Read_def RpcInputStream_frame_def Let_def)
qed

text \<open>The stream delivers exactly the concatenation of the frames, however they are cut.\<close>

lemma kBufferSize_pos: "kBufferSize > 0"
  by (simp add: kBufferSize_def)

lemma frames_drained_from:
  assumes "frames R (ris_reader st) ds rd'" and "rpc_stream_inv st"
  shows "\<exists>blocks st'. drains (rpc_input R addr) st blocks st' \<and> concat blocks = pending st @ concat ds \<and>
    ris_reader st' = rd'"
  using assms
proof (induction "length (pending st) + length (concat ds) + length ds" arbitrary: st ds rule: less_induct)
  case less
  show ?case
  proof (cases "pending st = []")
    case False
    let ?b = "take kBufferSize (pending st)"
    obtain st1 where r: "RpcInputStream_Read R st kBufferSize = (StatusOr_value ?b, st1)" "rpc_stream_inv st1"
      "pending st = ?b @ pending st1" "ris_reader st1 = ris_reader st"
      using Read_pending [OF False less.prems(2) kBufferSize_pos] by metis
    have b: "?b \<noteq> []" using False kBufferSize_pos by simp
    have "length (pending st) = length ?b + length (pending st1)" by (metis r(3) length_append)
    then have "length (pending st1) < length (pending st)" using b by (cases ?b) auto
    then obtain blocks st' where "drains (rpc_input R addr) st1 blocks st'"
      "concat blocks = pending st1 @ concat ds" "ris_reader st' = rd'"
      using less.hyps [of st1 ds] less.prems(1) r(2,4) by auto
    moreover have "drains (rpc_input R addr) st (?b # blocks) st'"
      using calculation(1) r(1) b by (intro drains.block) auto
    moreover have "concat (?b # blocks) = pending st @ concat ds"
      using calculation(2) by (metis r(3) append.assoc concat.simps(2))
    ultimately show ?thesis by blast
  next
    case True
    show ?thesis
      using less.prems(1)
    proof (cases rule: frames.cases)
      case no_frame
      have "ris_offset st = length (ris_data st)" using True less.prems(2) pending_Nil_iff by blast
      then have "RpcInputStream_Read R st kBufferSize = (StatusOr_value [], st\<lparr>ris_reader := rd'\<rparr>)"
        using no_frame kBufferSize_pos
        by (simp add: RpcInputStream_Read_def RpcInputStream_frame_def)
      then have "drains (rpc_input R addr) st [] (st\<lparr>ris_reader := rd'\<rparr>)"
        by (intro drains.finished) simp
      with True no_frame show ?thesis by (intro exI conjI) auto
    next
      case (next_frame d rd1 ds')
      let ?st = "\<lparr>ris_reader = rd1, ris_data = d, ris_offset = 0\<rparr>"
      have "pending ?st = d" "rpc_stream_inv ?st" by (simp_all add: pending_def rpc_stream_inv_def)
      then obtain blocks st' where d: "drains (rpc_input R addr) ?st blocks st'"
        "concat blocks = d @ concat ds'" "ris_reader st' = rd'"
        using less.hyps [of ?st ds'] next_frame True by auto
      have "in_read (rpc_input R addr) st kBufferSize = in_read (rpc_input R addr) ?st kBufferSize"
        using Read_next [OF True less.prems(2) kBufferSize_pos next_frame(2,3)] by simp
      moreover obtain b rest inp1 where "blocks = b # rest" "in_read (rpc_input R addr) ?st kBufferSize = (StatusOr_value b, inp1)"
        "b \<noteq> []" "length b \<le> kBufferSize" "drains (rpc_input R addr) inp1 rest st'"
        using drains_cases_read [OF d(1)] d(2) next_frame(3) by auto
      ultimately have "drains (rpc_input R addr) st blocks st'" by (simp add: drains.block)
      with d(2,3) next_frame(1) True show ?thesis by auto
    qed
  qed
qed

lemma frames_drained:
  assumes "frames R rd ds rd'"
  obtains blocks st' where "drains (rpc_input R addr) (RpcInputStream_init rd) blocks st'"
    and "concat blocks = concat ds" and "ris_reader st' = rd'"
proof -
  have "rpc_stream_inv (RpcInputStream_init rd)"
    by (simp add: rpc_stream_inv_def RpcInputStream_init_def)
  then show thesis
    using frames_drained_from [of R "RpcInputStream_init rd" ds rd' addr] assms that
    by (auto simp: RpcInputStream_init_def pending_def)
qed

lemma frames_of_drained_from:
  assumes "drains (rpc_input R addr) st blocks st'" and "rpc_stream_inv st"
  shows "\<exists>ds. frames R (ris_reader st) ds (ris_reader st') \<and> concat blocks = pending st @ concat ds"
  using assms
proof (induction rule: drains.induct)
  case (finished st st')
  have r: "RpcInputStream_Read R st kBufferSize = (StatusOr_value [], st')" using finished by simp
  have nil: "pending st = []"
    using r Read_pending [of st kBufferSize R] finished.prems kBufferSize_pos by fastforce
  then have "ris_offset st = length (ris_data st)" using finished.prems pending_Nil_iff by blast
  then have "sr_read R (ris_reader st) = (None, ris_reader st')"
    using r kBufferSize_pos
    by (auto simp: RpcInputStream_Read_def RpcInputStream_frame_def Let_def min_def
        split: prod.splits option.splits PutChunkFrame.splits if_splits)
  with nil show ?case by (auto intro: frames.no_frame)
next
  case (block st b st1 blocks st')
  have r: "RpcInputStream_Read R st kBufferSize = (StatusOr_value b, st1)" using block.hyps by simp
  show ?case
  proof (cases "pending st = []")
    case False
    then obtain st2 where "RpcInputStream_Read R st kBufferSize = (StatusOr_value (take kBufferSize (pending st)), st2)"
      "rpc_stream_inv st2" "pending st = take kBufferSize (pending st) @ pending st2" "ris_reader st2 = ris_reader st"
      using Read_pending [OF False block.prems kBufferSize_pos] by metis
    with r have "rpc_stream_inv st1" "pending st = b @ pending st1" "ris_reader st1 = ris_reader st" by auto
    then show ?thesis using block.IH by auto
  next
    case True
    then have "ris_offset st = length (ris_data st)" using block.prems pending_Nil_iff by blast
    then obtain d rd1 where f: "sr_read R (ris_reader st) = (Some (FrameData d), rd1)" "d \<noteq> []"
      using r block.hyps(2) kBufferSize_pos
      by (auto simp: RpcInputStream_Read_def RpcInputStream_frame_def Let_def
          split: prod.splits option.splits PutChunkFrame.splits if_splits)
    let ?st = "\<lparr>ris_reader = rd1, ris_data = d, ris_offset = 0\<rparr>"
    have p: "pending ?st = d" "rpc_stream_inv ?st" by (simp_all add: pending_def rpc_stream_inv_def)
    have r': "RpcInputStream_Read R ?st kBufferSize = (StatusOr_value b, st1)"
      using r Read_next [OF True block.prems kBufferSize_pos f] by simp
    obtain st2 where "RpcInputStream_Read R ?st kBufferSize = (StatusOr_value (take kBufferSize d), st2)"
      "rpc_stream_inv st2" "d = take kBufferSize d @ pending st2" "ris_reader st2 = rd1"
      using Read_pending [of ?st kBufferSize R] p f(2) kBufferSize_pos by auto
    with r' have st1: "rpc_stream_inv st1" "d = b @ pending st1" "ris_reader st1 = rd1" by auto
    then obtain ds where "frames R rd1 ds (ris_reader st')" "concat blocks = pending st1 @ concat ds"
      using block.IH by auto
    then show ?thesis
      using f st1 True by (intro exI [of _ "d # ds"]) (auto intro: frames.next_frame)
  qed
qed

lemma frames_of_drained:
  assumes "drains (rpc_input R addr) (RpcInputStream_init rd) blocks st'"
  obtains ds where "frames R rd ds (ris_reader st')" and "concat blocks = concat ds"
proof -
  have "rpc_stream_inv (RpcInputStream_init rd)"
    by (simp add: rpc_stream_inv_def RpcInputStream_init_def)
  then show thesis
    using frames_of_drained_from [OF assms] that by (auto simp: RpcInputStream_init_def pending_def)
qed

section \<open>The handlers and the contract\<close>

text \<open>The request a metadata frame stands for.\<close>

definition meta_request :: "PutChunkMetadata \<Rightarrow> PutChunkRequest" where
  "meta_request m =
     \<lparr>put_chunk_id = \<lparr>chunk_id_value = meta_chunk_id m\<rparr>, expected_size = meta_expected_size m,
      expected_checksum = \<lparr>algorithm = kBlake3, checksum_value = meta_expected_checksum m\<rparr>\<rparr>"

lemma ToRpcStatusCode_ok_iff [simp]: "ToRpcStatusCode c = STATUS_CODE_OK \<longleftrightarrow> c = kOk"
  by (cases c) simp_all

lemma SetStatus_ok_iff [simp]: "rpc_code (SetStatus st) = STATUS_CODE_OK \<longleftrightarrow> status_ok st"
  by (simp add: SetStatus_def status_ok_def)

lemma ToGrpcStatus_ok_iff [simp]: "grpc_code (ToGrpcStatus st) = GRPC_OK \<longleftrightarrow> status_ok st"
  by (simp add: ToGrpcStatus_def status_ok_def Grpc_Ok_def split: StatusCode.splits)

text \<open>
  A \<open>PutChunk\<close> call: an answer other than success means that nothing was stored, except for the
  I/O error after the commit; success means that the data frames of the call, in order, are the
  chunk.
\<close>

definition rpc_put_spec ::
  "(byte list \<Rightarrow> Checksum) \<Rightarrow> 'r ServerReader \<Rightarrow> 'r \<Rightarrow> OperationResponse \<Rightarrow> GrpcStatus \<Rightarrow> OperationResponse \<Rightarrow>
     'r \<Rightarrow> chunk_view \<Rightarrow> chunk_view \<Rightarrow> bool" where
  "rpc_put_spec digest R rd resp g resp' rd' v v' \<longleftrightarrow>
     (case sr_read R rd of
        (Some (FrameMetadata m), rd1) \<Rightarrow>
          g = Grpc_Ok \<and>
          ((rpc_code (op_status resp') \<noteq> STATUS_CODE_OK \<and> v' = v) \<or>
           (\<exists>ds. frames R rd1 ds rd' \<and> put_stored digest (meta_request m) (concat ds) v v' \<and>
              rpc_code (op_status resp') \<in> {STATUS_CODE_OK, STATUS_CODE_IO_ERROR}))
      | _ \<Rightarrow> grpc_code g = INVALID_ARGUMENT \<and> resp' = resp \<and> v' = v)"

locale rpc_worker = chunk_store cs view inv digest
  for cs :: "('r RpcInputStream, 'x, 'w) ChunkStore"
    and view :: "'w \<Rightarrow> chunk_view" and inv :: "'w \<Rightarrow> bool" and digest :: "byte list \<Rightarrow> Checksum"
begin

lemma worker_put:
  assumes "inv w" and call: "WorkerService_PutChunk (worker_over cs) addr R rd resp w = (g, resp', rd', w')"
  shows "inv w' \<and> rpc_put_spec digest R rd resp g resp' rd' (view w) (view w')"
proof -
  obtain f rd1 where f: "sr_read R rd = (f, rd1)" by fastforce
  show ?thesis
  proof (cases "\<exists>m. f = Some (FrameMetadata m)")
    case False
    then show ?thesis
      using assms f by (auto simp: WorkerService_PutChunk_def rpc_put_spec_def
          split: option.splits PutChunkFrame.splits)
  next
    case True
    then obtain m where m: "f = Some (FrameMetadata m)" by blast
    obtain st inp' w1 where s: "DataPlaneService_PutChunk (DataPlaneService_make cs) (meta_request m) (rpc_input R addr)
        (RpcInputStream_init rd1) w = (st, inp', w1)" by (metis surj_pair)
    have r: "g = Grpc_Ok" "op_status resp' = SetStatus st" "rd' = ris_reader inp'" "w' = w1"
      using call f m s by (auto simp: WorkerService_PutChunk_def meta_request_def Let_def)
    note p = service_put [OF assms(1) rpc_input_ok s]
    then consider "\<not> status_ok st" "view w' = view w"
      | blocks where "drains (rpc_input R addr) (RpcInputStream_init rd1) blocks inp'"
        "put_stored digest (meta_request m) (concat blocks) (view w) (view w')" "status_ok st \<or> st_code st = kIoError"
      using r(4) by (auto simp: put_spec_def)
    then show ?thesis
    proof cases
      case 1
      then show ?thesis using p r f m by (simp add: rpc_put_spec_def)
    next
      case 2
      from 2(1) obtain ds where ds: "frames R rd1 ds (ris_reader inp')" "concat blocks = concat ds"
        by (rule frames_of_drained)
      have "rpc_code (op_status resp') \<in> {STATUS_CODE_OK, STATUS_CODE_IO_ERROR}"
        using 2(3) r(2) by (auto simp: SetStatus_def status_ok_def)
      with p r f m ds 2(2) show ?thesis by (auto simp: rpc_put_spec_def)
    qed
  qed
qed

lemma worker_get:
  assumes "inv w" and call: "WorkerService_GetChunk (worker_over cs) req W x w = (g, x', w')"
  shows "inv w' \<and> view w' = view w \<and>
    (\<exists>st. g = ToGrpcStatus st \<and>
       get_spec \<lparr>get_chunk_id = \<lparr>chunk_id_value = rget_chunk_id req\<rparr>,
                 get_range = \<lparr>range_offset = rget_offset req, range_size = rget_size req\<rparr>\<rparr>
         (rpc_output W) x st x' (view w))"
  using call service_get [OF assms(1)]
  by (auto simp: WorkerService_GetChunk_def split: prod.splits)

lemma worker_head:
  assumes "inv w" and call: "WorkerService_HeadChunk (worker_over cs) cid resp w = (g, resp', w')"
  shows "inv w' \<and> view w' = view w \<and> g = Grpc_Ok \<and>
    (rpc_code (rhead_status resp') = STATUS_CODE_OK \<longrightarrow>
       rhead_chunk_id resp' = cid \<and>
       (\<exists>c payload. view w \<lparr>chunk_id_value = cid\<rparr> = Some (c, payload) \<and>
          checksum_value c = rhead_checksum resp' \<and> unat (rhead_size resp') = length payload))"
proof -
  obtain res w1 where h: "DataPlaneService_HeadChunk (DataPlaneService_make cs) \<lparr>head_chunk_id = \<lparr>chunk_id_value = cid\<rparr>\<rparr> w = (res, w1)"
    by fastforce
  note s = service_head [OF assms(1) h]
  show ?thesis
  proof (cases "so_opt res")
    case None
    then have "\<not> status_ok (so_status res)" using s by (auto simp: head_spec_def statusor_inv_def so_ok_def)
    then show ?thesis using None call h s by (auto simp: WorkerService_HeadChunk_def)
  next
    case (Some v)
    then show ?thesis using call h s by (auto simp: WorkerService_HeadChunk_def head_spec_def)
  qed
qed

lemma worker_delete:
  assumes "inv w" and call: "WorkerService_DeleteChunk (worker_over cs) cid resp w = (g, resp', w')"
  shows "inv w' \<and> g = Grpc_Ok \<and>
    (if rpc_code (op_status resp') = STATUS_CODE_OK
     then view w \<lparr>chunk_id_value = cid\<rparr> \<noteq> None \<and> view w' = (view w)(\<lparr>chunk_id_value = cid\<rparr> := None)
     else view w' = view w)"
proof -
  obtain st w1 where h: "DataPlaneService_DeleteChunk (DataPlaneService_make cs) \<lparr>delete_chunk_id = \<lparr>chunk_id_value = cid\<rparr>\<rparr> w = (st, w1)"
    by fastforce
  have "g = Grpc_Ok" "op_status resp' = SetStatus st" "w' = w1"
    using call h by (auto simp: WorkerService_DeleteChunk_def)
  with service_delete [OF assms(1) h] show ?thesis by (simp add: delete_spec_def)
qed

end

interpretation fcw: rpc_worker "FileChunkStore_vtable P store" "store_view store"
  "platform_ok P store" "blake3_checksum P" for P store
  by unfold_locales

section \<open>Streams in memory\<close>

text \<open>A reader and a writer that behave as an undisturbed connection does.\<close>

definition list_reader :: "PutChunkFrame list ServerReader" where
  "list_reader = \<lparr>sr_read = (\<lambda>fs. case fs of [] \<Rightarrow> (None, []) | f # fs \<Rightarrow> (Some f, fs))\<rparr>"

definition list_writer :: "byte list list ServerWriter" where
  "list_writer = \<lparr>sw_write = (\<lambda>out d. (True, out @ [d]))\<rparr>"

lemma list_reader_frames: "\<forall>d \<in> set ds. d \<noteq> [] \<Longrightarrow> frames list_reader (map FrameData ds) ds []"
proof (induction ds)
  case Nil
  show ?case by (rule frames.no_frame) (simp add: list_reader_def)
next
  case (Cons d ds)
  then show ?case by (intro frames.next_frame [where ?rd1.0 = "map FrameData ds"]) (auto simp: list_reader_def)
qed

text \<open>Conversely, the frames such a reader delivers are the list.\<close>

lemma frames_list_reader: "frames list_reader fs ds rd \<Longrightarrow> fs = map FrameData ds \<and> (\<forall>d \<in> set ds. d \<noteq> []) \<and> rd = []"
  by (induction rule: frames.induct) (auto simp: list_reader_def split: list.splits)

lemma feed_list_writer: "feed (rpc_output list_writer) out blocks = out @ blocks"
  by (induction blocks arbitrary: out) (simp_all add: rpc_output_def RpcOutputStream_Write_def list_writer_def)

text \<open>The value of a status field that was not set: the first code of the enumeration is OK.\<close>

definition rpc_default_status :: RpcStatus where
  "rpc_default_status = \<lparr>rpc_code = STATUS_CODE_OK, rpc_message = []\<rparr>"

end
