(* ===== verification/Sample_Run.thy ===== *)
theory Sample_Run
  imports Rpc_Services
begin

text \<open>
  A concrete instance of the parameters of the development, on which the properties are
  exercised: a stand-in for the hash library that satisfies \<open>blake3_laws\<close>, an empty disk, a
  stream that delivers a list of blocks, and a small chunk written through it.
\<close>

section \<open>Parameters\<close>

text \<open>The stand-in keeps the bytes it was given and outputs their sum.\<close>

definition sample_platform :: "byte list platform" where
  "sample_platform =
     \<lparr>strerror = (\<lambda>e. ''error''), getpid = 7, b3_init = [], b3_update = (@),
      b3_finalize = (\<lambda>h n. replicate n (sum_list h))\<rparr>"

definition empty_fs :: fs where
  "empty_fs = \<lparr>fs_dir = (\<lambda>p. None), fs_data = (\<lambda>i. []), fs_dirs = {}, fs_next = 0,
     fs_had = (\<lambda>p. {}), dur_data = (\<lambda>i. [])\<rparr>"

definition sample_os :: os where
  "sample_os = \<lparr>fsys = empty_fs, fds = [], os_errno = ENOENT, sched = [], trace = []\<rparr>"

definition sample_store :: FileChunkStore where
  "sample_store = \<lparr>store_root = ''/data''\<rparr>"

definition list_input :: "byte list list ChunkInputStream" where
  "list_input =
     \<lparr>in_read = (\<lambda>bs n. case bs of [] \<Rightarrow> (StatusOr_value [], []) | b # bs \<Rightarrow> (StatusOr_value b, bs)),
      in_address = 42\<rparr>"

text \<open>An output stream that keeps what it is given.\<close>

definition collector :: "byte list ChunkOutputStream" where
  "collector = \<lparr>out_write = (\<lambda>out bs. (Status_Ok, out @ bs))\<rparr>"

definition sample_id :: ChunkId where
  "sample_id = \<lparr>chunk_id_value = ''a''\<rparr>"

definition sample_request :: PutChunkRequest where
  "sample_request =
     \<lparr>put_chunk_id = sample_id, expected_size = 3,
      expected_checksum = blake3_checksum sample_platform [1, 2, 3]\<rparr>"

definition sample_put :: "Status \<times> byte list list \<times> os" where
  "sample_put = FileChunkStore_Put sample_platform sample_store sample_request list_input [[1, 2], [3]] sample_os"

definition sample_stored :: os where
  "sample_stored = snd (snd sample_put)"

section \<open>They satisfy what the properties ask for\<close>

lemma sample_laws: "blake3_laws sample_platform"
proof -
  have "foldl (@) h cs = h @ concat cs" for h :: "byte list" and cs
    by (induction cs arbitrary: h) simp_all
  then show ?thesis by (simp add: blake3_laws_def sample_platform_def)
qed

lemma sample_platform_ok: "platform_ok sample_platform sample_store sample_os"
  using sample_laws
  by (simp add: platform_ok_def store_inv_def chunk_ref_def sizes_ok_def sample_os_def empty_fs_def off_limit_def)

lemma list_input_ok: "stream_ok list_input"
  by (simp add: stream_ok_def list_input_def split: list.splits)

lemma list_input_drains:
  "\<forall>b \<in> set bs. b \<noteq> [] \<and> length b \<le> kBufferSize \<Longrightarrow> drains list_input bs bs []"
proof (induction bs)
  case Nil
  show ?case by (rule drains.finished) (simp add: list_input_def)
next
  case (Cons b bs)
  then show ?case by (intro drains.block [where ?inp1.0 = bs]) (auto simp: list_input_def)
qed

lemma sample_drains: "drains list_input [[1, 2], [3]] [[1, 2], [3]] []"
  by (rule list_input_drains) (simp add: kBufferSize_def)

lemma sample_valid: "put_valid sample_request"
proof -
  have "ValidateChecksum (expected_checksum sample_request) = Status_Ok"
    unfolding sample_request_def blake3_checksum_def blake3_hex_def
    by (simp add: ValidateChecksum_hex sample_platform_def BLAKE3_OUT_LEN_def)
  then show ?thesis
    by (simp add: put_valid_def ValidateId_ok_iff) (simp add: sample_request_def sample_id_def)
qed

lemma sample_delivered: "delivered sample_platform sample_request [[1, 2], [3]]"
proof -
  have "FinalizeHex sample_platform
      (foldl (b3_update sample_platform) (b3_init sample_platform) [[1, 2], [3]]) =
      blake3_hex sample_platform [1, 2, 3]"
    using blake3_FinalizeHex [OF sample_laws, of "[[1, 2], [3]]"] by simp
  then show ?thesis by (simp add: delivered_def sample_request_def blake3_checksum_def)
qed

lemma sample_names:
  "\<not> name_too_long (temp_path_of sample_platform sample_store 42 sample_id)"
  "\<not> name_too_long (PathFor sample_store sample_id)"
proof -
  show "\<not> name_too_long (PathFor sample_store sample_id)"
    by (rule storable_not_too_long) (simp add: storable_iff sample_id_def)
  have "length (temp_filename sample_platform 42 (PathFor sample_store sample_id)) = 17"
    by (simp add: temp_filename_def length_chunk_filename sample_id_def sample_platform_def to_string_nat.simps)
  then show "\<not> name_too_long (temp_path_of sample_platform sample_store 42 sample_id)"
    unfolding temp_path_of_def name_too_long_def
    by (simp add: path_filename_append temp_filename_no_slash NAME_MAX_def)
qed

lemma sample_put_eq:
  "FileChunkStore_Put sample_platform sample_store sample_request list_input [[1, 2], [3]] sample_os =
     (fst sample_put, fst (snd sample_put), sample_stored)"
  by (simp add: sample_put_def sample_stored_def)

lemma sample_put_ok: "status_ok (fst sample_put)"
proof -
  have id: "put_chunk_id sample_request = sample_id" "in_address list_input = 42"
    by (simp_all add: sample_request_def list_input_def)
  have "st_code (fst sample_put) = kOk"
    using Put_smooth [OF sample_put_eq _ sample_valid sample_drains refl _ _ _ _ list_input_ok, unfolded id]
      sample_names sample_delivered
    by (simp add: stored_def sample_os_def empty_fs_def off_limit_def kHeaderSize_eq)
  then show ?thesis by (simp add: status_ok_def)
qed

lemma sample_stored_ok: "platform_ok sample_platform sample_store sample_stored"
  using Put_satisfies [OF sample_put_eq list_input_ok sample_platform_ok] by blast

lemma sample_chunk:
  "chunk_at sample_store (fsys sample_stored) sample_id = Some (expected_checksum sample_request, [1, 2, 3])"
proof -
  obtain blocks where "drains list_input [[1, 2], [3]] blocks (fst (snd sample_put))"
    "chunk_at sample_store (fsys sample_stored) sample_id = Some (expected_checksum sample_request, concat blocks)"
    using Put_satisfies [OF sample_put_eq list_input_ok sample_platform_ok] sample_put_ok
    by (auto simp: put_spec_def put_stored_def store_view_def sample_request_def)
  moreover from this(1) have "blocks = [[1, 2], [3]]" using drains_deterministic [OF _ sample_drains] by blast
  ultimately show ?thesis by simp
qed

text \<open>The contents of a file system may survive a crash as they are.\<close>

lemma crash_as_is: "crash f (f\<lparr>fs_had := (\<lambda>p. {}), dur_data := fs_data f\<rparr>)"
  by (simp add: crash_def)

text \<open>The same request with a stream that delivers something else.\<close>

definition bad_put :: "Status \<times> byte list list \<times> os" where
  "bad_put = FileChunkStore_Put sample_platform sample_store sample_request list_input [[9]] sample_os"

lemma bad_put_eq:
  "FileChunkStore_Put sample_platform sample_store sample_request list_input [[9]] sample_os =
     (fst bad_put, fst (snd bad_put), snd (snd bad_put))"
  by (simp add: bad_put_def)

lemma bad_put_code: "st_code (fst bad_put) = kCorruption"
proof -
  have id: "put_chunk_id sample_request = sample_id" "in_address list_input = 42"
    by (simp_all add: sample_request_def list_input_def)
  have "drains list_input [[9]] [[9]] []"
    by (rule list_input_drains) (simp add: kBufferSize_def)
  moreover have "\<not> delivered sample_platform sample_request [[9]]"
    by (simp add: delivered_def sample_request_def)
  ultimately show ?thesis
    using Put_smooth [OF bad_put_eq _ sample_valid _ refl _ _ _ _ list_input_ok, unfolded id] sample_names
    by (simp add: sample_os_def empty_fs_def off_limit_def kHeaderSize_eq)
qed

text \<open>Reading the sample chunk back, from its second byte on, in a later run without failures.\<close>

definition rested :: os where
  "rested = sample_stored\<lparr>sched := []\<rparr>"

definition sample_range :: GetChunkRequest where
  "sample_range = \<lparr>get_chunk_id = sample_id, get_range = \<lparr>range_offset = 1, range_size = 2\<rparr>\<rparr>"

definition sample_get :: "Status \<times> byte list \<times> os" where
  "sample_get = FileChunkStore_Get sample_platform sample_store sample_range collector [] rested"

lemma sample_get_eq:
  "FileChunkStore_Get sample_platform sample_store sample_range collector [] rested =
     (fst sample_get, fst (snd sample_get), snd (snd sample_get))"
  by (simp add: sample_get_def)

lemma rested_ok: "platform_ok sample_platform sample_store rested"
  using sample_stored_ok by (simp add: rested_def platform_ok_def)

lemma rested_chunk:
  "chunk_at sample_store (fsys rested) sample_id = Some (expected_checksum sample_request, [1, 2, 3])"
  using sample_chunk by (simp add: rested_def)

lemma rested_smooth: "smooth rested"
  by (simp add: rested_def)

lemma feed_collector: "feed collector out blocks = out @ concat blocks"
  by (induction blocks arbitrary: out) (simp_all add: collector_def)

lemma collector_accepting: "accepting collector"
  by (simp add: accepting_def collector_def)

text \<open>Reading the whole sample chunk right after it was stored.\<close>

definition full_get :: "Status \<times> byte list \<times> os" where
  "full_get = FileChunkStore_Get sample_platform sample_store
     \<lparr>get_chunk_id = sample_id, get_range = \<lparr>range_offset = 0, range_size = 3\<rparr>\<rparr> collector [] sample_stored"

lemma full_get_eq:
  "FileChunkStore_Get sample_platform sample_store
     \<lparr>get_chunk_id = sample_id, get_range = \<lparr>range_offset = 0, range_size = 3\<rparr>\<rparr> collector [] sample_stored =
     (fst full_get, fst (snd full_get), snd (snd full_get))"
  by (simp add: full_get_def)

lemma sample_stored_smooth: "smooth sample_stored"
  using Put_smooth_kept [OF sample_put_eq list_input_ok] by (simp add: sample_os_def)

lemma full_get_ok: "status_ok (fst full_get)"
proof -
  have "sizes_ok (fsys sample_stored)" using sample_stored_ok by (simp add: platform_ok_def)
  from Get_get_post [OF full_get_eq this] show ?thesis
    using sample_chunk sample_stored_smooth collector_accepting
    by (auto simp: get_post_def ValidateByteRange_ok_iff storable_iff sample_id_def split: if_splits)
qed

section \<open>A call over gRPC\<close>

definition sample_metadata :: PutChunkMetadata where
  "sample_metadata =
     \<lparr>meta_chunk_id = ''a'', meta_expected_size = 3,
      meta_expected_checksum = blake3_hex sample_platform [1, 2, 3]\<rparr>"

definition sample_frames :: "PutChunkFrame list" where
  "sample_frames = [FrameMetadata sample_metadata, FrameData [1, 2], FrameData [3]]"

definition sample_call :: "GrpcStatus \<times> OperationResponse \<times> PutChunkFrame list \<times> os" where
  "sample_call = WorkerService_PutChunk
     (worker_over (FileChunkStore_vtable sample_platform sample_store :: (_, byte list, os) ChunkStore))
     42 list_reader sample_frames \<lparr>op_status = rpc_default_status\<rparr> sample_os"

lemma sample_call_ok: "rpc_code (op_status (fst (snd sample_call))) = STATUS_CODE_OK"
proof -
  have m: "meta_request sample_metadata = sample_request" "put_chunk_id sample_request = sample_id"
    by (simp_all add: meta_request_def sample_metadata_def sample_request_def sample_id_def blake3_checksum_def)
  let ?inp = "RpcInputStream_init (map FrameData [[1, 2], [3]])"
  obtain st inp' s' where put: "FileChunkStore_Put sample_platform sample_store sample_request
      (rpc_input list_reader 42) ?inp sample_os = (st, inp', s')" by (metis surj_pair)
  have "\<forall>d \<in> set [[1, 2], [3 :: byte]]. d \<noteq> []" by simp
  from frames_drained [OF list_reader_frames [OF this], of 42]
  obtain blocks st' where d: "drains (rpc_input list_reader 42) ?inp blocks st'" "concat blocks = concat [[1, 2], [3]]"
    by metis
  have "delivered sample_platform sample_request blocks"
    using blake3_FinalizeHex [OF sample_laws, of blocks] d(2)
    by (simp add: delivered_def sample_request_def blake3_checksum_def)
  then have "st_code st = kOk"
    using Put_smooth [OF put _ sample_valid d(1) refl _ _ _ _ rpc_input_ok, unfolded m] sample_names d(2)
    by (simp add: stored_def sample_os_def empty_fs_def off_limit_def kHeaderSize_eq)
  moreover have "DataPlaneService_PutChunk (DataPlaneService_make (FileChunkStore_vtable sample_platform sample_store :: (_, byte list, os) ChunkStore))
      sample_request (rpc_input list_reader 42) ?inp sample_os = (st, inp', s')"
    using put sample_valid
    by (simp add: DataPlaneService_PutChunk_def FileChunkStore_vtable_def put_valid_def ChunkId_valid_def ValidateId_ok_iff)
  moreover have "sr_read list_reader (f # fs) = (Some f, fs)" for f fs by (simp add: list_reader_def)
  ultimately show ?thesis
    using m(1) unfolding sample_call_def WorkerService_PutChunk_def sample_frames_def meta_request_def
    by (simp add: SetStatus_def Let_def)
qed

end
