(* ===== verification/Store_Properties.thy ===== *)
theory Store_Properties
  imports Sample_Run
begin

text \<open>
  What the file store promises its users, for every schedule of failures where nothing else is
  said: uploads are atomic, never overwrite, survive a crash once they are acknowledged, and
  succeed when nothing goes wrong; reads return exactly the bytes that were stored; deletion
  removes exactly one chunk. Each property is followed by its application to the sample run.
\<close>

section \<open>Upload\<close>

text \<open>
  C1: atomicity of \<open>FileChunkStore::Put\<close>. Whatever the stream delivers and whichever system calls
  fail or are cut short, in every file system state between the call and its return (and so
  wherever the process is killed) every chunk name refers to a complete file with a correct
  BLAKE3 digest, every other chunk is what it was, and the uploaded one is absent as before or
  there with exactly the announced size and digest, never over an existing chunk. All
  descriptors are given back.
\<close>

theorem put_every_moment:
  assumes "FileChunkStore_Put P store req I inp s = (st, inp', s')" and "stream_ok I"
    and "platform_ok P store s"
  shows "fds s' = fds s \<and>
    (\<exists>new. trace s' = new @ trace s \<and>
      (\<forall>g \<in> set (fsys s' # new). store_inv P store g \<and>
        (\<forall>cid. chunk_at store g cid = chunk_at store (fsys s) cid \<or>
           (cid = put_chunk_id req \<and> chunk_at store (fsys s) cid = None \<and>
            (\<exists>payload. chunk_at store g cid = Some (expected_checksum req, payload) \<and>
               length payload = unat (expected_size req) \<and>
               expected_checksum req = blake3_checksum P payload)))))"
proof -
  obtain new where new: "trace s' = new @ trace s" "\<forall>g \<in> set (fsys s' # new). put_visible P store req (fsys s) g"
    using Put_keeps [OF assms] by (auto simp: keeps_def)
  have "store_inv P store g \<and>
        (\<forall>cid. chunk_at store g cid = chunk_at store (fsys s) cid \<or>
           (cid = put_chunk_id req \<and> chunk_at store (fsys s) cid = None \<and>
            (\<exists>payload. chunk_at store g cid = Some (expected_checksum req, payload) \<and>
               length payload = unat (expected_size req) \<and>
               expected_checksum req = blake3_checksum P payload)))"
    if "put_visible P store req (fsys s) g" for g
    using that put_visible_store_inv [OF that]
    by (auto simp: put_visible_def before_commit_def after_commit_def split: if_splits)
  then show ?thesis using new Put_result [OF assms(1,2)] by blast
qed

theorem put_every_moment_witness:
  "fds sample_stored = fds sample_os \<and>
    (\<exists>new. trace sample_stored = new @ trace sample_os \<and>
      (\<forall>g \<in> set (fsys sample_stored # new). store_inv sample_platform sample_store g))"
  using put_every_moment [OF sample_put_eq list_input_ok sample_platform_ok] by blast

text \<open>
  C2: functional correctness of a successful upload. If \<open>Put\<close> returns OK, the chunk was absent,
  the stream ended normally, the chunk now holds exactly the bytes the stream delivered, their
  number and their BLAKE3 digest are the announced ones, and no other chunk changed.
\<close>

theorem put_success:
  assumes "FileChunkStore_Put P store req I inp s = (st, inp', s')" and "stream_ok I"
    and "platform_ok P store s" and "status_ok st"
  shows "\<exists>blocks. drains I inp blocks inp' \<and>
    length (concat blocks) = unat (expected_size req) \<and>
    expected_checksum req = blake3_checksum P (concat blocks) \<and>
    chunk_at store (fsys s) (put_chunk_id req) = None \<and>
    chunk_at store (fsys s') = (chunk_at store (fsys s))(put_chunk_id req \<mapsto> (expected_checksum req, concat blocks))"
  using Put_satisfies [OF assms(1-3)] assms(4)
  by (auto simp: put_spec_def put_stored_def store_view_def)

theorem put_success_witness:
  "\<exists>blocks. drains list_input [[1, 2], [3]] blocks (fst (snd sample_put)) \<and>
    chunk_at sample_store (fsys sample_stored) sample_id = Some (expected_checksum sample_request, concat blocks)"
  using put_success [OF sample_put_eq list_input_ok sample_platform_ok sample_put_ok]
  by (auto simp: sample_request_def)

text \<open>
  C3: durability. Once \<open>Put\<close> has returned OK, the chunk with its contents is there after a crash
  at any later point before the next operation, whatever of the unsynchronised changes the crash
  loses.
\<close>

theorem put_durable:
  assumes "FileChunkStore_Put P store req I inp s = (st, inp', s')" and "stream_ok I"
    and "platform_ok P store s" and "status_ok st" and "crash (fsys s') g"
  shows "chunk_at store g (put_chunk_id req) = chunk_at store (fsys s') (put_chunk_id req) \<and>
    chunk_at store g (put_chunk_id req) \<noteq> None \<and> store_inv P store g"
proof -
  let ?p = "PathFor store (put_chunk_id req)"
  have inv: "store_inv P store (fsys s')"
    using Put_satisfies [OF assms(1-3)] by (simp add: platform_ok_def)
  have "st_code st \<noteq> kIoError" using assms(4) by (simp add: status_ok_def)
  then have d: "fs_had (fsys s') ?p = {}"
    and c: "chunk_at store (fsys s') (put_chunk_id req) \<noteq> None"
    using Put_moments [OF assms(1-3)] assms(4) by (auto simp: after_commit_def)
  then have "stored store (fsys s') (put_chunk_id req) \<noteq> None" using chunk_at_None_iff [OF inv] by simp
  then obtain i where i: "fs_dir (fsys s') ?p = Some i" by (auto simp: stored_def)
  then have "dur_data (fsys s') i = fs_data (fsys s') i"
    using inv by (auto simp: store_inv_def chunk_ref_def)
  then have "fs_dir g ?p = Some i" "fs_data g i = fs_data (fsys s') i"
    using assms(5) d i unfolding crash_def by (metis empty_iff)+
  then have "stored store g (put_chunk_id req) = stored store (fsys s') (put_chunk_id req)"
    using i by (simp add: stored_def)
  then have "chunk_at store g (put_chunk_id req) = chunk_at store (fsys s') (put_chunk_id req)"
    by (simp add: chunk_at_def)
  then show ?thesis using c store_inv_crash [OF inv assms(5)] by simp
qed

theorem put_durable_witness:
  "\<exists>g. crash (fsys sample_stored) g \<and> chunk_at sample_store g sample_id \<noteq> None"
proof -
  let ?f = "fsys sample_stored"
  let ?g = "?f\<lparr>fs_had := (\<lambda>p. {}), fs_data := dur_data ?f\<rparr>"
  have "crash ?f ?g" by (simp add: crash_def)
  with put_durable [OF sample_put_eq list_input_ok sample_platform_ok sample_put_ok this]
  show ?thesis by (auto simp: sample_request_def)
qed

text \<open>
  C4: crash safety. If the machine stops at any moment of an upload, then in whatever state the
  disk is found, each chunk name that is bound refers to a file that parses as a chunk and whose
  payload has the recorded digest: no partial chunk can ever be read.
\<close>

theorem put_crash_safe:
  assumes "FileChunkStore_Put P store req I inp s = (st, inp', s')" and "stream_ok I"
    and "platform_ok P store s" and "trace s' = new @ trace s" and "f \<in> set (fsys s' # new)" and "crash f g"
    and "fs_dir g (PathFor store cid) = Some i"
  shows "\<exists>n c. parse_chunk (fs_data g i) = Some (n, c) \<and>
    checksum_value c = blake3_hex P (drop kHeaderSize (fs_data g i))"
proof -
  have "keeps (store_inv P store) s s'"
    using Put_keeps [OF assms(1-3)] by (rule keeps_mono) (rule put_visible_store_inv)
  then have "store_inv P store f" using keeps_moments keeps_last assms(4,5) by (metis set_ConsD)
  then have "store_inv P store g" by (rule store_inv_crash [OF _ assms(6)])
  then have "good_file P (fs_data g i)" using assms(7) by (auto simp: store_inv_def chunk_ref_def)
  then show ?thesis by (auto simp: good_file_def split: option.splits)
qed

theorem put_crash_safe_witness:
  "\<exists>g i. crash (fsys sample_stored) g \<and> fs_dir g (PathFor sample_store sample_id) = Some i \<and>
    (\<exists>n c. parse_chunk (fs_data g i) = Some (n, c) \<and>
      checksum_value c = blake3_hex sample_platform (drop kHeaderSize (fs_data g i)))"
proof -
  obtain i where i: "fs_dir (fsys sample_stored) (PathFor sample_store sample_id) = Some i"
    using chunk_at_stored [OF sample_chunk] .
  have "trace sample_stored = trace sample_stored @ trace sample_os" by (simp add: sample_os_def)
  with put_crash_safe [OF sample_put_eq list_input_ok sample_platform_ok _ _ crash_as_is,
      of "trace sample_stored" "fsys sample_stored" sample_id i] i
  show ?thesis
    by (intro exI [of _ "(fsys sample_stored)\<lparr>fs_had := (\<lambda>p. {}),
          dur_data := fs_data (fsys sample_stored)\<rparr>"] exI [of _ i] conjI crash_as_is) auto
qed

text \<open>
  C18: completeness of an upload. When no call fails (transfers may still be cut short), the names
  fit the file system and the temporary name is free, a valid request is answered exactly
  according to what the stream holds: data that do not have the announced size and digest are
  refused with \<open>kCorruption\<close>, an existing chunk with \<open>kAlreadyExists\<close>, everything else is stored.
\<close>

theorem put_complete:
  assumes "FileChunkStore_Put P store req I inp s = (st, inp', s')" and "smooth s" and "stream_ok I"
    and "platform_ok P store s" and "put_valid req" and "drains I inp blocks inp1"
    and "fs_dir (fsys s) (temp_path_of P store (in_address I) (put_chunk_id req)) = None"
    and "\<not> name_too_long (temp_path_of P store (in_address I) (put_chunk_id req))"
    and "\<not> name_too_long (PathFor store (put_chunk_id req))"
    and "kHeaderSize + length (concat blocks) < off_limit"
  shows "st_code st =
    (if length (concat blocks) \<noteq> unat (expected_size req) \<or>
        expected_checksum req \<noteq> blake3_checksum P (concat blocks) then kCorruption
     else if chunk_at store (fsys s) (put_chunk_id req) = None then kOk else kAlreadyExists)"
proof -
  have "delivered P req blocks \<longleftrightarrow>
      length (concat blocks) = unat (expected_size req) \<and>
      expected_checksum req = blake3_checksum P (concat blocks)"
    using assms(4) blake3_FinalizeHex [of P blocks] checksum_eta [of "expected_checksum req"]
    by (auto simp: delivered_def platform_ok_def blake3_checksum_def)
  with Put_smooth [OF assms(1,2,5,6) refl assms(7-10,3)] chunk_at_None_iff [of P store "fsys s"] assms(4)
  show ?thesis by (simp add: platform_ok_def)
qed

theorem put_complete_witness:
  "st_code (fst sample_put) = kOk \<and>
   kHeaderSize + length (concat [[1, 2], [3 :: byte]]) < off_limit"
proof -
  have l: "kHeaderSize + length (concat [[1, 2], [3 :: byte]]) < off_limit"
    by (simp add: kHeaderSize_eq off_limit_def)
  have "smooth sample_os" by (simp add: sample_os_def)
  from put_complete [OF sample_put_eq this list_input_ok sample_platform_ok sample_valid sample_drains _ _ _ l]
  show ?thesis
    using sample_names l
    by (simp add: sample_request_def list_input_def chunk_at_def stored_def sample_os_def empty_fs_def)
qed

text \<open>
  C19: a failed upload has no effect. Any error other than \<open>kIoError\<close> means that no chunk changed;
  after \<open>kIoError\<close> the chunk may have been committed (when the final synchronisation of the
  directory fails), and then it is complete.
\<close>

theorem put_failure:
  assumes "FileChunkStore_Put P store req I inp s = (st, inp', s')" and "stream_ok I"
    and "platform_ok P store s" and "\<not> status_ok st"
  shows "chunk_at store (fsys s') = chunk_at store (fsys s) \<or>
    (st_code st = kIoError \<and> chunk_at store (fsys s) (put_chunk_id req) = None \<and>
     (\<exists>payload. length payload = unat (expected_size req) \<and>
        expected_checksum req = blake3_checksum P payload \<and>
        chunk_at store (fsys s') =
          (chunk_at store (fsys s))(put_chunk_id req \<mapsto> (expected_checksum req, payload))))"
  using Put_satisfies [OF assms(1-3)] assms(4)
  by (auto simp: put_spec_def put_stored_def store_view_def)

theorem put_failure_witness:
  "chunk_at sample_store (fsys (snd (snd bad_put))) = chunk_at sample_store (fsys sample_os) \<and>
   st_code (fst bad_put) = kCorruption"
proof -
  have "\<not> status_ok (fst bad_put)" using bad_put_code by (simp add: status_ok_def)
  with put_failure [OF bad_put_eq list_input_ok sample_platform_ok] bad_put_code
  show ?thesis by auto
qed

section \<open>Reading\<close>

text \<open>
  C20: a read returns exactly the requested range. Whatever calls fail, \<open>FileChunkStore::Get\<close> leaves
  file system and descriptors as they were; it sends a prefix of the requested range of the
  payload, in order, in blocks of at most 3 MiB, and all of it if it reports success, which it
  does only for an existing, well-formed chunk and a range inside it.
\<close>

theorem get_exact:
  assumes "FileChunkStore_Get P store req O' out s = (st, out', s')" and "sizes_ok (fsys s)"
  shows "fsys s' = fsys s \<and> fds s' = fds s \<and> trace s' = trace s \<and>
    (\<exists>blocks. out' = feed O' out blocks \<and> (\<forall>b \<in> set blocks. b \<noteq> [] \<and> length b \<le> kBufferSize) \<and>
      (case chunk_at store (fsys s) (get_chunk_id req) of
         None \<Rightarrow> blocks = [] \<and> \<not> status_ok st
       | Some (c, payload) \<Rightarrow>
           (\<exists>rest. range_of (get_range req) payload = concat blocks @ rest \<and>
              (status_ok st \<longrightarrow> rest = [] \<and>
                 unat (range_offset (get_range req)) + unat (range_size (get_range req)) \<le> length payload))))"
proof -
  note g = Get_get_post [OF assms, unfolded get_post_def quiet_def]
  show ?thesis
  proof (cases "chunk_at store (fsys s) (get_chunk_id req)")
    case None
    then show ?thesis using g by (auto intro!: exI [of _ "[]"])
  next
    case (Some cp)
    obtain c payload where cp: "cp = (c, payload)" by fastforce
    note len = chunk_at_length(2) [OF assms(2) Some [unfolded cp]]
    show ?thesis
    proof (cases "status_ok (ValidateByteRange (get_range req) (word_of_nat (length payload)))")
      case True
      then have r: "unat (range_offset (get_range req)) + unat (range_size (get_range req)) \<le> length payload"
        using len by (simp add: ValidateByteRange_ok_iff)
      obtain blocks where "out' = feed O' out blocks" "pieces blocks (range_of (get_range req) payload) (status_ok st)"
        using g Some cp True by auto
      then show ?thesis using g r Some cp by (auto simp: pieces_def intro!: exI [of _ blocks])
    next
      case False
      then show ?thesis using g Some cp by (auto intro!: exI [of _ "[] :: byte list list"])
    qed
  qed
qed

theorem get_exact_witness:
  "fsys (snd (snd sample_get)) = fsys rested \<and>
    (\<exists>blocks. fst (snd sample_get) = concat blocks \<and> (\<exists>rest. [2, 3] = concat blocks @ rest))"
  using get_exact [OF sample_get_eq] rested_ok rested_chunk
  by (auto simp: platform_ok_def sample_range_def range_of_def feed_collector)

text \<open>
  C21: completeness of reads. Where no call fails, the output stream accepts the data and the
  identifier fits a file name, the range of an existing chunk is delivered in full and the call
  succeeds; whether the payload still has the digest recorded in the header is not looked at.
\<close>

theorem get_complete:
  assumes "FileChunkStore_Get P store req O' out s = (st, out', s')" and "sizes_ok (fsys s)"
    and "smooth s" and "accepting O'" and "storable (get_chunk_id req)"
    and "chunk_at store (fsys s) (get_chunk_id req) = Some (c, payload)"
    and "unat (range_offset (get_range req)) + unat (range_size (get_range req)) \<le> length payload"
  shows "status_ok st \<and>
    (\<exists>blocks. out' = feed O' out blocks \<and>
       concat blocks = take (unat (range_size (get_range req))) (drop (unat (range_offset (get_range req))) payload))"
proof -
  have "status_ok (ValidateByteRange (get_range req) (word_of_nat (length payload)))"
    using assms(7) chunk_at_length(2) [OF assms(2,6)] by (simp add: ValidateByteRange_ok_iff)
  with Get_get_post [OF assms(1,2)] assms(3-6) show ?thesis
    by (auto simp: get_post_def pieces_def range_of_def)
qed

theorem get_complete_witness: "status_ok (fst sample_get) \<and> fst (snd sample_get) = [2, 3]"
  using get_complete [OF sample_get_eq _ rested_smooth collector_accepting, of "expected_checksum sample_request" "[1, 2, 3]"]
    rested_ok rested_chunk
  by (auto simp: platform_ok_def sample_range_def feed_collector storable_iff sample_id_def)

text \<open>
  C22: \<open>Head\<close> is a function of the file. Where no call fails, its answer is determined by the
  identifier and the contents of the chunk's file alone: \<open>kInvalidArgument\<close> for a malformed
  identifier, \<open>kIoError\<close> for one whose encoded name is longer than a file name may be,
  \<open>kNotFound\<close> without a file, \<open>kCorruption\<close> for a file that does not parse, and the recorded
  size and checksum otherwise.
\<close>

theorem head_exact:
  assumes "FileChunkStore_Head P store cid s = (res, s')" and "sizes_ok (fsys s)" and "smooth s"
  shows "if \<not> status_ok (ValidateId cid) then st_code (so_status res) = kInvalidArgument \<and> so_opt res = None
    else if \<not> storable cid then st_code (so_status res) = kIoError \<and> so_opt res = None
    else case stored store (fsys s) cid of
           None \<Rightarrow> st_code (so_status res) = kNotFound \<and> so_opt res = None
         | Some d \<Rightarrow> (case parse_chunk d of
                None \<Rightarrow> st_code (so_status res) = kCorruption \<and> so_opt res = None
              | Some (n, c) \<Rightarrow>
                  res = StatusOr_value \<lparr>resp_chunk_id = cid, resp_size = n, resp_checksum = c\<rparr>)"
proof -
  note r = Head_reads [OF assms(1,2)]
  show ?thesis
  proof (cases "so_opt res")
    case None
    have "st_code (so_status res) \<in> head_errs store cid s" by (rule readsD(5) [OF r None])
    with None assms(3) show ?thesis
      by (auto simp: head_errs_def storable_def split: option.splits if_splits)
  next
    case (Some h)
    obtain d where d: "storable cid" "stored store (fsys s) cid = Some d"
      "parse_chunk d = Some (resp_size h, resp_checksum h)" "resp_chunk_id h = cid"
      using readsD(4) [OF r Some] by (auto simp: head_value_def)
    have "res = StatusOr_value h"
      by (rule statusor_inv_SomeD [OF readsD(3) [OF r] Some])
    with d show ?thesis by (cases h) (auto simp: storable_def)
  qed
qed

theorem head_exact_witness:
  "st_code (so_status (fst (FileChunkStore_Head sample_platform sample_store sample_id sample_os))) = kNotFound"
proof -
  have "FileChunkStore_Head sample_platform sample_store sample_id sample_os =
      (fst (FileChunkStore_Head sample_platform sample_store sample_id sample_os),
       snd (FileChunkStore_Head sample_platform sample_store sample_id sample_os))" by simp
  from head_exact [OF this] sample_platform_ok show ?thesis
    by (auto simp: platform_ok_def storable_iff ValidateId_ok_iff sample_id_def stored_def sample_os_def empty_fs_def)
qed

text \<open>
  The queries are read-only. Whatever calls fail, \<open>Head\<close>, \<open>Size\<close> and \<open>Exists\<close> leave file
  system and descriptors as they were, and \<open>Size\<close> and \<open>Exists\<close> say what \<open>Head\<close> says.
\<close>

theorem queries_read_only:
  assumes "sizes_ok (fsys s)" and "FileChunkStore_Head P store cid s = (head, s1)"
    and "FileChunkStore_Size P store cid s = (sz, s2)" and "FileChunkStore_Exists P store cid s = (ex, s3)"
  shows "fsys s1 = fsys s \<and> fds s1 = fds s \<and> trace s1 = trace s \<and> s2 = s1 \<and> s3 = s1 \<and>
    so_opt sz = map_option resp_size (so_opt head) \<and> so_status sz = so_status head \<and>
    (ex \<longleftrightarrow> so_opt head \<noteq> None)"
proof -
  note r = Head_reads [OF assms(2,1)]
  have "so_opt head = None \<Longrightarrow> \<not> status_ok (so_status head)" "so_opt head \<noteq> None \<Longrightarrow> so_status head = Status_Ok"
    using readsD(3) [OF r] by (auto simp: statusor_inv_def so_ok_def)
  then show ?thesis
    using assms(2-4) readsD(1) [OF r]
    by (auto simp: FileChunkStore_Size_def FileChunkStore_Exists_def quiet_def so_ok_def StatusOr_error_status
        split: option.splits)
qed

theorem queries_read_only_witness:
  "fsys (snd (FileChunkStore_Head sample_platform sample_store sample_id rested)) = fsys rested"
  using queries_read_only [of rested sample_platform sample_store sample_id
      "fst (FileChunkStore_Head sample_platform sample_store sample_id rested)"
      "snd (FileChunkStore_Head sample_platform sample_store sample_id rested)"
      "fst (FileChunkStore_Size sample_platform sample_store sample_id rested)"
      "snd (FileChunkStore_Size sample_platform sample_store sample_id rested)"
      "fst (FileChunkStore_Exists sample_platform sample_store sample_id rested)"
      "snd (FileChunkStore_Exists sample_platform sample_store sample_id rested)"] rested_ok
  by (simp add: platform_ok_def)

section \<open>Round trips\<close>

text \<open>
  What was stored is what is read. After a successful upload, any read of the chunk that
  succeeds delivers exactly the requested range of the bytes the upload stream delivered.
\<close>

theorem put_get_roundtrip:
  assumes "platform_ok P store s" and "stream_ok I"
    and "FileChunkStore_Put P store req I inp s = (st, inp', s1)" and "status_ok st"
    and "FileChunkStore_Get P store \<lparr>get_chunk_id = put_chunk_id req, get_range = rg\<rparr> O' out s1 = (gst, out', s2)"
    and "status_ok gst"
  shows "\<exists>payload blocks. drains I inp payload inp' \<and> out' = feed O' out blocks \<and>
    concat blocks = take (unat (range_size rg)) (drop (unat (range_offset rg)) (concat payload))"
  using fcs.put_then_get [of P store s I req inp st inp' s1 rg O' out gst out' s2] assms
  by (auto simp: FileChunkStore_vtable_def range_of_def)

theorem put_get_roundtrip_witness: "status_ok (fst full_get) \<and> fst (snd full_get) = [1, 2, 3]"
proof -
  have eq: "put_chunk_id sample_request = sample_id" by (simp add: sample_request_def)
  from put_get_roundtrip [OF sample_platform_ok list_input_ok sample_put_eq sample_put_ok, unfolded eq,
      OF full_get_eq full_get_ok]
  obtain payload blocks where d: "drains list_input [[1, 2], [3]] payload (fst (snd sample_put))"
    "fst (snd full_get) = feed collector [] blocks" "concat blocks = take 3 (concat payload)"
    by auto
  have "payload = [[1, 2], [3]]" using drains_deterministic [OF d(1) sample_drains] by blast
  then show ?thesis using d full_get_ok by (simp add: feed_collector)
qed

section \<open>Deletion\<close>

text \<open>
  C23: \<open>Delete\<close> removes exactly one chunk. Whatever calls fail, it either reports an error and
  changes nothing, or reports OK, and then the chunk existed and is gone while all others are as
  before. Where no call fails the answer is OK for an existing chunk and \<open>kNotFound\<close> otherwise.
\<close>

theorem delete_exact:
  assumes "FileChunkStore_Delete P store cid s = (st, s')" and "platform_ok P store s"
  shows "platform_ok P store s' \<and> fds s' = fds s \<and>
    (if status_ok st
     then chunk_at store (fsys s) cid \<noteq> None \<and> chunk_at store (fsys s') = (chunk_at store (fsys s))(cid := None)
     else fsys s' = fsys s) \<and>
    (smooth s \<and> storable cid \<longrightarrow>
       st_code st = (if chunk_at store (fsys s) cid = None then kNotFound else kOk))"
proof -
  have "smooth s \<Longrightarrow> storable cid \<Longrightarrow>
      st_code st = (if chunk_at store (fsys s) cid = None then kNotFound else kOk)"
    using Delete_smooth [OF assms(1)] chunk_at_None_iff [of P store "fsys s" cid] assms(2)
    by (simp add: platform_ok_def)
  moreover have "(\<not> status_ok st \<and> quiet s s') \<or>
    (st = Status_Ok \<and> platform_ok P store s' \<and> chunk_at store (fsys s) cid \<noteq> None \<and>
     chunk_at store (fsys s') = (chunk_at store (fsys s))(cid := None) \<and> fds s' = fds s)"
    using Delete_effect [OF assms] by blast
  ultimately show ?thesis
    using assms(2) quiet_platform_ok [of s s'] by (auto simp: quiet_def)
qed

theorem delete_exact_witness:
  "st_code (fst (FileChunkStore_Delete sample_platform sample_store sample_id rested)) = kOk"
  using delete_exact [OF surjective_pairing rested_ok, of sample_id] rested_chunk rested_smooth
  by (simp add: storable_iff sample_id_def)

text \<open>
  An acknowledged deletion need not last. \<open>Delete\<close> does not synchronise the directory, so a
  chunk that was durable can be back, complete, after a crash that follows an OK answer.
\<close>

theorem delete_not_durable:
  assumes "FileChunkStore_Delete P store cid s = (st, s')" and "platform_ok P store s" and "status_ok st"
  shows "chunk_at store (fsys s') cid = None \<and>
    (\<exists>g. crash (fsys s') g \<and> chunk_at store g cid = chunk_at store (fsys s) cid \<and>
       chunk_at store g cid \<noteq> None)"
proof -
  let ?p = "PathFor store cid" and ?f = "fsys s" and ?f' = "fsys s'"
  have c: "chunk_at store ?f cid \<noteq> None" "chunk_at store ?f' = (chunk_at store ?f)(cid := None)"
    using Delete_effect [OF assms(1,2)] assms(3) by auto
  have f': "?f' = rebind ?p None ?f"
    using Delete_frame [OF assms(1,3)] .
  have inv: "store_inv P store ?f" using assms(2) by (simp add: platform_ok_def)
  then obtain i where i: "fs_dir ?f ?p = Some i"
    using c(1) chunk_at_None_iff [OF inv] by (auto simp: stored_def)
  then have d: "dur_data ?f i = fs_data ?f i" using inv by (auto simp: store_inv_def chunk_ref_def)
  let ?g = "?f'\<lparr>fs_dir := (fs_dir ?f')(?p := Some i), fs_had := (\<lambda>p. {}),
      dur_data := fs_data ?f'\<rparr>"
  have "crash ?f' ?g" using i f' by (auto simp: crash_def)
  moreover have "chunk_at store ?g cid = chunk_at store ?f cid"
    using i f' by (simp add: chunk_at_def stored_def)
  ultimately show ?thesis using c by auto
qed

theorem delete_not_durable_witness:
  "\<exists>g. crash (fsys (snd (FileChunkStore_Delete sample_platform sample_store sample_id rested))) g \<and>
     chunk_at sample_store g sample_id \<noteq> None"
proof -
  have "status_ok (fst (FileChunkStore_Delete sample_platform sample_store sample_id rested))"
    using Delete_smooth [OF surjective_pairing rested_smooth, of sample_id sample_platform sample_store]
      rested_chunk rested_ok
      chunk_at_None_iff [of sample_platform sample_store "fsys rested" sample_id]
    by (auto simp: storable_iff sample_id_def status_ok_def platform_ok_def)
  with delete_not_durable [OF surjective_pairing rested_ok this] show ?thesis by blast
qed

end
