(* ===== verification/Format_Properties.thy ===== *)
theory Format_Properties
  imports Store_Properties
begin

text \<open>
  Properties of the building blocks of the store: the persistent format and its decoder, file
  names, the validators, the transfer loops and descriptor ownership.
\<close>

section \<open>The persistent format\<close>

text \<open>
  C31: encoding round trip. The header \<open>MakeHeader\<close> writes decodes to the size and checksum it was
  made from, for every 64-bit size and every valid checksum, and a chunk file made of it and a
  payload of that size is accepted by the reference parser, which returns the payload.
\<close>

theorem header_roundtrip:
  assumes "status_ok (ValidateChecksum c)"
  shows "length (MakeHeader n c) = 80 \<and> take 8 (MakeHeader n c) = kMagic \<and>
    header_size (MakeHeader n c @ rest) = n \<and> header_checksum (MakeHeader n c @ rest) = c \<and>
    (unat n = length rest \<longrightarrow> parse_chunk (MakeHeader n c @ rest) = Some (n, c) \<and>
       drop kHeaderSize (MakeHeader n c @ rest) = rest)"
proof -
  have l: "length (checksum_value c) = 64" using assms by (simp add: ValidateChecksum_ok_iff)
  have "parse_chunk (MakeHeader n c @ rest) = Some (n, c)" "drop kHeaderSize (MakeHeader n c @ rest) = rest"
    if "unat n = length rest"
  proof -
    have "length rest < 2 ^ 64" unfolding that [symmetric] using unsigned_less [of n, where ?'a = nat] by simp
    moreover have "word_of_nat (length rest) = n" unfolding that [symmetric] by simp
    ultimately show "parse_chunk (MakeHeader n c @ rest) = Some (n, c)" "drop kHeaderSize (MakeHeader n c @ rest) = rest"
      using parse_chunk_bytes [OF assms, of rest] drop_chunk_bytes [OF l, of rest] by (simp_all add: chunk_bytes_def)
  qed
  then show ?thesis
    using length_MakeHeader [OF l, of n] magic_MakeHeader [of n c "[]"] header_size_MakeHeader [of n c rest]
      header_checksum_MakeHeader [OF l, of n rest]
    by (simp add: kHeaderSize_eq checksum_eta)
qed

theorem header_roundtrip_witness:
  "parse_chunk (MakeHeader 3 (expected_checksum sample_request) @ [1, 2, 3]) =
     Some (3, expected_checksum sample_request)"
  using header_roundtrip [of "expected_checksum sample_request" 3 "[1, 2, 3]"] sample_valid
  by (simp add: put_valid_def)

text \<open>
  C30: the header decoder agrees with the reference parser. Reading a file through any sequence of
  short and interrupted reads, \<open>ReadHeader\<close> returns what \<open>parse_chunk\<close> says of the whole contents,
  \<open>kCorruption\<close> exactly where that is undefined, and \<open>kIoError\<close> only if a call really failed;
  no arithmetic on sizes wraps.
\<close>

theorem read_header_is_parse:
  assumes "ReadHeader P fd cid s = (res, s')" and "fd_top fd (OFile i pos) t s"
    and "length (fs_data (fsys s) i) < off_limit"
  shows "fsys s' = fsys s \<and> fds s' = fds s \<and>
    (case so_opt res of
       Some r \<Rightarrow> parse_chunk (fs_data (fsys s) i) = Some (resp_size r, resp_checksum r) \<and> resp_chunk_id r = cid
     | None \<Rightarrow> (st_code (so_status res) = kCorruption \<and> parse_chunk (fs_data (fsys s) i) = None) \<or>
               (st_code (so_status res) = kIoError \<and> \<not> smooth s))"
proof -
  have r: "reads s res s'
      (\<lambda>r. parse_chunk (fs_data (fsys s) i) = Some (resp_size r, resp_checksum r) \<and> resp_chunk_id r = cid)
      (file_errs (fs_data (fsys s) i) s)"
    using ReadHeader_reads [OF assms(1,2) refl] assms(3) by (simp add: off_limit_def)
  then show ?thesis
    by (auto simp: reads_def quiet_def file_errs_def os_errs_def split: option.splits if_splits)
qed

theorem read_header_is_parse_witness:
  "\<exists>s. fd_top 0 (OFile 0 0) [] s \<and>
     (case so_opt (fst (ReadHeader sample_platform 0 sample_id s)) of
        Some r \<Rightarrow> False | None \<Rightarrow> st_code (so_status (fst (ReadHeader sample_platform 0 sample_id s))) = kCorruption)"
proof -
  let ?s = "sample_os\<lparr>fds := [(0, OFile 0 0)]\<rparr>"
  have top: "fd_top 0 (OFile 0 0) [] ?s" by (simp add: fd_top_def)
  have d: "fs_data (fsys ?s) 0 = []" "smooth ?s" by (simp_all add: sample_os_def empty_fs_def)
  have "parse_chunk [] = None" by (simp add: parse_chunk_def kHeaderSize_eq)
  with read_header_is_parse [OF surjective_pairing top, of sample_platform sample_id] d
  have "case so_opt (fst (ReadHeader sample_platform 0 sample_id ?s)) of
        Some r \<Rightarrow> False | None \<Rightarrow> st_code (so_status (fst (ReadHeader sample_platform 0 sample_id ?s))) = kCorruption"
    by (auto simp: off_limit_def split: option.splits)
  with top show ?thesis by blast
qed

text \<open>
  C32: file names. Different identifiers never share a file, whatever bytes they contain, and the
  file of every identifier lies directly in the storage root: no identifier can name a file
  elsewhere, nor a temporary file.
\<close>

theorem chunk_paths:
  "(PathFor store a = PathFor store b \<longleftrightarrow> a = b) \<and> in_dir (store_root store) (PathFor store a) \<and>
   slash \<notin> set (path_filename (PathFor store a)) \<and> PathFor store a \<noteq> temp_path_of P store addr b"
  using PathFor_inj [of store a b] PathFor_in_dir [of store a] chunk_filename_no_slash [of a]
    temp_no_chunk_name [of store P addr b]
  unfolding no_chunk_name_def by (metis path_filename_PathFor)

section \<open>Validation\<close>

text \<open>
  C38: \<open>ValidateByteRange\<close> accepts exactly the ranges that end inside the object, with the sum of
  offset and size taken without wrap-around, and reports everything else as
  \<open>kInvalidArgument\<close>.
\<close>

theorem byte_range_exact:
  "(ValidateByteRange r n = Status_Ok \<longleftrightarrow> unat (range_offset r) + unat (range_size r) \<le> unat n) \<and>
   (ValidateByteRange r n \<noteq> Status_Ok \<longleftrightarrow> st_code (ValidateByteRange r n) = kInvalidArgument)"
  using ValidateByteRange_ok_iff [of r n] ValidateByteRange_cases [of r n]
  by (auto simp: status_ok_def)

text \<open>
  \<open>ValidateChecksum\<close> accepts exactly 64 lower-case hexadecimal digits, which includes every
  rendering of a 32-byte digest, and the rendering determines the digest.
\<close>

theorem checksum_validation:
  "(ValidateChecksum c = Status_Ok \<longleftrightarrow>
      length (checksum_value c) = 64 \<and> set (checksum_value c) \<subseteq> set ''0123456789abcdef'') \<and>
   (length d = 32 \<longrightarrow> ValidateChecksum \<lparr>algorithm = kBlake3, checksum_value = hex_bytes d\<rparr> = Status_Ok) \<and>
   (hex_bytes d = hex_bytes d' \<longleftrightarrow> d = d')"
proof -
  have "ValidateChecksum c = Status_Ok \<longleftrightarrow> status_ok (ValidateChecksum c)"
    using ValidateChecksum_cases [of c] by (auto simp: status_ok_def)
  also have "\<dots> \<longleftrightarrow> length (checksum_value c) = 64 \<and> set (checksum_value c) \<subseteq> set ''0123456789abcdef''"
    unfolding ValidateChecksum_ok_iff is_lower_hex_iff subset_iff by blast
  finally show ?thesis
    using ValidateChecksum_hex [of d] hex_bytes_inj [of d d'] by blast
qed

theorem checksum_validation_witness:
  "ValidateChecksum \<lparr>algorithm = kBlake3, checksum_value = hex_bytes (replicate 32 255)\<rparr> = Status_Ok"
  using checksum_validation [of undefined "replicate 32 255"] by simp

text \<open>
  Identifiers of 125 to 1024 bytes pass \<open>ValidateId\<close>, but their encoded file name is longer
  than a file name may be, so where no other call fails an upload is answered with
  \<open>kIoError\<close>, without reading the input, and never with \<open>kInvalidArgument\<close>.
\<close>

theorem long_id_io_error:
  assumes "124 < length (chunk_id_value (put_chunk_id req))" and "length (chunk_id_value (put_chunk_id req)) \<le> 1024"
    and "status_ok (ValidateChecksum (expected_checksum req))" and "smooth s"
    and "FileChunkStore_Put P store req I inp s = (st, inp', s')"
  shows "status_ok (ValidateId (put_chunk_id req)) \<and> st_code st = kIoError \<and> inp' = inp"
proof -
  let ?p = "temp_path_of P store (in_address I) (put_chunk_id req)"
  have v: "status_ok (ValidateId (put_chunk_id req))" using assms(1,2) by (auto simp: ValidateId_ok_iff)
  have long: "name_too_long ?p"
    using assms(1) unfolding name_too_long_def temp_path_of_def
    by (simp add: path_filename_append temp_filename_no_slash)
      (simp add: temp_filename_def length_chunk_filename NAME_MAX_def)
  obtain s1 where cd: "create_directories (store_root store) s = (None, s1)" "smooth s1"
    using create_directories_cases [of "store_root store" s] assms(4) sched_tail_smooth by (metis surj_pair)
  have "\<exists>s2. sys_open_excl ?p s1 = (-1, s2) \<and> os_errno s2 = ENAMETOOLONG"
    using long cd(2) by (rule open_excl_too_long)
  then obtain s2 where o: "sys_open_excl ?p s1 = (-1, s2)" "os_errno s2 = ENAMETOOLONG" by blast
  note put' = assms(5) [unfolded FileChunkStore_Put_def Let_def, folded temp_path_of_def]
  show ?thesis
    using put' v assms(3) cd(1) o by (auto simp: IoError_def)
qed

theorem long_id_io_error_witness:
  "st_code (fst (FileChunkStore_Put sample_platform sample_store
     (sample_request\<lparr>put_chunk_id := \<lparr>chunk_id_value = replicate 200 CHR ''x''\<rparr>\<rparr>) list_input [] sample_os)) = kIoError"
proof -
  let ?r = "sample_request\<lparr>put_chunk_id := \<lparr>chunk_id_value = replicate 200 CHR ''x''\<rparr>\<rparr>"
  let ?put = "FileChunkStore_Put sample_platform sample_store ?r list_input [] sample_os"
  have "?put = (fst ?put, fst (snd ?put), snd (snd ?put))" by simp
  from long_id_io_error [OF _ _ _ _ this] sample_valid show ?thesis
    by (simp add: put_valid_def sample_os_def)
qed

section \<open>Transfer loops\<close>

text \<open>
  C33: \<open>WriteAll\<close> ends under every schedule and appends a prefix of its data to the file and
  nothing else, the whole of it if it returns OK; interruptions and short writes alone never
  make it fail.
\<close>

theorem write_all:
  assumes "at_end fd i t s" and "length (fs_data (fsys s) i) + length data < off_limit"
  shows "\<exists>st s' n. WriteAll P fd data s = (st, s') \<and> n \<le> length data \<and>
    fsys s' = (fsys s)\<lparr>fs_data := (fs_data (fsys s))(i := fs_data (fsys s) i @ take n data)\<rparr> \<and>
    fd_top fd (OFile i (length (fs_data (fsys s) i) + n)) t s' \<and>
    (st = Status_Ok \<longrightarrow> n = length data) \<and> (st \<noteq> Status_Ok \<longrightarrow> st_code st = kIoError \<and> \<not> gentle s)"
proof -
  obtain st s' where w: "WriteAll P fd data s = (st, s')" by fastforce
  obtain n where n: "appended fd i t (take n data) s s'" "status_ok st \<longrightarrow> n = length data"
    using WriteAll_appended [OF w assms(1)] by blast
  let ?n = "min n (length data)"
  have t: "take n data = take ?n data" by (simp add: min_def)
  have "fsys s' = (fsys s)\<lparr>fs_data := (fs_data (fsys s))(i := fs_data (fsys s) i @ take ?n data)\<rparr>"
    using n(1) t by (simp add: appended_def)
  moreover have "fd_top fd (OFile i (length (fs_data (fsys s) i) + ?n)) t s'"
    using n(1) t by (auto simp: appended_def at_end_def min.commute)
  moreover have "gentle s \<Longrightarrow> st = Status_Ok"
    using WriteAll_gentle [OF assms(1) _ assms(2), of P] w by (metis prod.inject)
  moreover have "st = Status_Ok \<or> st_code st = kIoError" using WriteAll_status [OF w] by blast
  ultimately show ?thesis using w n(2) by (intro exI [of _ st] exI [of _ s'] exI [of _ ?n]) auto
qed

theorem write_all_witness:
  "\<exists>s'. WriteAll sample_platform 0 [1, 2, 3] (sample_os\<lparr>fds := [(0, OFile 0 0)], sched := [Fail EINTR, Short 1]\<rparr>) =
     (Status_Ok, s') \<and> fs_data (fsys s') 0 = [1, 2, 3]"
proof -
  let ?s = "sample_os\<lparr>fds := [(0, OFile 0 0)], sched := [Fail EINTR, Short 1]\<rparr>"
  have e: "at_end 0 0 [] ?s" "fs_data (fsys ?s) 0 = []"
    by (simp_all add: at_end_def fd_top_def sample_os_def empty_fs_def)
  have g: "gentle ?s" by (simp add: gentle_def smooth_outcome_def)
  obtain st s' n where w: "WriteAll sample_platform 0 [1, 2, 3] ?s = (st, s')"
    "fsys s' = (fsys ?s)\<lparr>fs_data := (fs_data (fsys ?s))(0 := fs_data (fsys ?s) 0 @ take n [1, 2, 3])\<rparr>"
    "st = Status_Ok \<longrightarrow> n = length [1, 2, 3 :: byte]" "st \<noteq> Status_Ok \<longrightarrow> st_code st = kIoError \<and> \<not> gentle ?s"
    using write_all [OF e(1), of "[1, 2, 3]" sample_platform] e(2) by (auto simp: off_limit_def)
  with g e(2) show ?thesis by (intro exI [of _ s']) auto
qed

text \<open>
  \<open>PreadSome\<close> ends under every schedule, changes nothing, and returns a prefix of what the
  file holds at the offset, empty only at the end of the file; an offset beyond \<open>off_t\<close> is
  refused before the call.
\<close>

theorem pread_some:
  assumes "fd_top fd (OFile i pos) t s" and "PreadSome P fd n off s = (res, s')"
  shows "fsys s' = fsys s \<and> fds s' = fds s \<and>
    (if unat off < 2 ^ 63
     then case so_opt res of
            Some bs \<Rightarrow> (\<exists>rest. take n (drop (unat off) (fs_data (fsys s) i)) = bs @ rest) \<and>
              (bs = [] \<longrightarrow> n = 0 \<or> length (fs_data (fsys s) i) \<le> unat off)
          | None \<Rightarrow> st_code (so_status res) = kIoError \<and> \<not> gentle s
     else so_opt res = None \<and> st_code (so_status res) = kInvalidArgument)"
proof (cases "off \<le> off_t_max")
  case True
  note r = PreadSome_reads [OF assms(2,1) True]
  have "unat off < 2 ^ 63" using True off_t_bound by blast
  with r show ?thesis
    by (auto simp: reads_def quiet_def io_errs_def front_of_def split: option.splits if_splits)
next
  case False
  then have "\<not> unat off < 2 ^ 63" using off_t_bound by blast
  moreover have "off > off_t_max" using False by simp
  ultimately show ?thesis using assms(2) by (auto simp: PreadSome_def)
qed

theorem pread_some_witness:
  "so_opt (fst (PreadSome sample_platform 0 10 0x8000000000000000 (sample_os\<lparr>fds := [(0, OFile 0 0)]\<rparr>))) = None"
proof -
  have "fd_top 0 (OFile 0 0) [] (sample_os\<lparr>fds := [(0, OFile 0 0)]\<rparr>)" by (simp add: fd_top_def)
  from pread_some [OF this surjective_pairing, of sample_platform 10 "0x8000000000000000"] show ?thesis
    by (simp split: if_splits)
qed

section \<open>Ownership of descriptors\<close>

text \<open>
  C37: unique ownership. In every program built from the operations of \<open>UniqueFd\<close>, with raw code that
  opens and closes descriptors of its own and hands over only what no other object owns, two live objects
  never own the same descriptor and every owned descriptor is open, so the destructor and
  \<open>reset\<close> never close a descriptor twice or one that belongs to another object.
\<close>

theorem unique_ownership:
  assumes "ufd_reachable (m, s)" and "m a = Some u" and "ufd_valid u"
  shows "ufd_fd u \<in> fst ` set (fds s) \<and> (\<forall>b v. m b = Some v \<and> ufd_fd v = ufd_fd u \<longrightarrow> b = a)"
  using ufd_reachable_owned [OF assms(1)] assms(2,3) unfolding ufd_owned_def fst_conv snd_conv by metis

theorem unique_ownership_witness:
  "\<exists>m s u. ufd_reachable (m, s) \<and> m 0 = Some u \<and> ufd_valid u \<and> ufd_fd u \<in> fst ` set (fds s)"
proof -
  let ?s = "sample_os\<lparr>fsys := empty_fs\<lparr>fs_dir := [''f'' \<mapsto> 0]\<rparr>\<rparr>"
  have "sys_open_rd ''f'' ?s = (0, ?s\<lparr>fds := [(0, OFile 0 0)]\<rparr>)"
    by (simp add: sys_open_rd_def sample_os_def name_too_long_def path_filename_def NAME_MAX_def
        fd_alloc_def lowest_fd_def slash_def)
  then have o: "ufd_reachable (Map.empty, ?s\<lparr>fds := [(0, OFile 0 0)]\<rparr>)"
    by (auto intro: ufd_reachable.intros ufd_step.raw_open)
  have r: "ufd_reachable (Map.empty(0 \<mapsto> ufd_make 0), ?s\<lparr>fds := [(0, OFile 0 0)]\<rparr>)"
    by (rule ufd_reachable.step [OF o ufd_step.construct]) (simp_all add: free_for_def)
  have v: "(Map.empty(0 \<mapsto> ufd_make 0)) (0::nat) = Some (ufd_make 0)" "ufd_valid (ufd_make 0)" by simp_all
  from unique_ownership [OF r v] r v show ?thesis by blast
qed

end
