(* ===== verification/Rpc_Properties.thy ===== *)
theory Rpc_Properties
  imports Format_Properties
begin

text \<open>
  Properties of the worker's gRPC service over the file store: what a call answers and what it
  does to the stored chunks.
\<close>

text \<open>
  C24: upload over gRPC. A \<open>PutChunk\<close> call whose first frame is not metadata is refused with
  \<open>INVALID_ARGUMENT\<close>. Otherwise the call itself succeeds, and its response says OK only if the
  chunk was absent and now holds the concatenation of the data frames that followed, none of
  them empty and the stream properly ended, with the announced size and digest; a response other
  than OK or \<open>IO_ERROR\<close> means that nothing was stored.
\<close>

theorem rpc_put:
  assumes "platform_ok P store s"
    and "WorkerService_PutChunk (worker_over (FileChunkStore_vtable P store)) addr R rd resp s = (g, resp', rd', s')"
  shows "platform_ok P store s' \<and>
    (case sr_read R rd of
       (Some (FrameMetadata m), rd1) \<Rightarrow>
         g = Grpc_Ok \<and>
         (let cid = \<lparr>chunk_id_value = meta_chunk_id m\<rparr>;
              code = rpc_code (op_status resp')
          in (code \<noteq> STATUS_CODE_OK \<and> chunk_at store (fsys s') = chunk_at store (fsys s)) \<or>
             ((code = STATUS_CODE_OK \<or> code = STATUS_CODE_IO_ERROR) \<and>
              (\<exists>ds. frames R rd1 ds rd' \<and> length (concat ds) = unat (meta_expected_size m) \<and>
                 meta_expected_checksum m = blake3_hex P (concat ds) \<and>
                 chunk_at store (fsys s) cid = None \<and>
                 chunk_at store (fsys s') =
                   (chunk_at store (fsys s))(cid \<mapsto> (blake3_checksum P (concat ds), concat ds)))))
     | _ \<Rightarrow> grpc_code g = INVALID_ARGUMENT \<and> resp' = resp \<and> chunk_at store (fsys s') = chunk_at store (fsys s))"
proof -
  note w = fcw.worker_put [OF assms]
  obtain f rd1 where f: "sr_read R rd = (f, rd1)" by fastforce
  show ?thesis
  proof (cases "\<exists>m. f = Some (FrameMetadata m)")
    case True
    then obtain m where m: "f = Some (FrameMetadata m)" by blast
    let ?code = "rpc_code (op_status resp')"
    from w f m consider (same) "g = Grpc_Ok" "?code \<noteq> STATUS_CODE_OK" "chunk_at store (fsys s') = chunk_at store (fsys s)"
      | (new) ds where "g = Grpc_Ok" "frames R rd1 ds rd'" "?code = STATUS_CODE_OK \<or> ?code = STATUS_CODE_IO_ERROR"
        "put_stored (blake3_checksum P) (meta_request m) (concat ds) (chunk_at store (fsys s)) (chunk_at store (fsys s'))"
      by (auto simp: rpc_put_spec_def store_view_def)
    then show ?thesis
    proof cases
      case same
      then show ?thesis using w f m by (simp add: Let_def)
    next
      case new
      then have "length (concat ds) = unat (meta_expected_size m)" "meta_expected_checksum m = blake3_hex P (concat ds)"
        "chunk_at store (fsys s) \<lparr>chunk_id_value = meta_chunk_id m\<rparr> = None"
        "chunk_at store (fsys s') = (chunk_at store (fsys s))
           (\<lparr>chunk_id_value = meta_chunk_id m\<rparr> \<mapsto> (blake3_checksum P (concat ds), concat ds))"
        by (simp_all add: put_stored_def meta_request_def blake3_checksum_def)
      with new(1-3) w f m show ?thesis
        unfolding Let_def by (simp del: fun_upd_apply) blast
    qed
  next
    case False
    then show ?thesis
      using w f by (auto simp: rpc_put_spec_def store_view_def split: option.splits PutChunkFrame.splits)
  qed
qed

theorem rpc_put_witness:
  "\<exists>ds. frames list_reader [FrameData [1, 2], FrameData [3]] ds (fst (snd (snd sample_call))) \<and>
     chunk_at sample_store (fsys (snd (snd (snd sample_call)))) sample_id =
       Some (blake3_checksum sample_platform (concat ds), concat ds)"
proof -
  have eq: "WorkerService_PutChunk (worker_over (FileChunkStore_vtable sample_platform sample_store :: (_, byte list, os) ChunkStore))
      42 list_reader sample_frames \<lparr>op_status = rpc_default_status\<rparr> sample_os =
    (fst sample_call, fst (snd sample_call), fst (snd (snd sample_call)), snd (snd (snd sample_call)))"
    by (simp add: sample_call_def)
  have r: "sr_read list_reader sample_frames = (Some (FrameMetadata sample_metadata), [FrameData [1, 2], FrameData [3]])"
    by (simp add: list_reader_def sample_frames_def)
  have id: "sample_id = \<lparr>chunk_id_value = meta_chunk_id sample_metadata\<rparr>"
    by (simp add: sample_id_def sample_metadata_def)
  from rpc_put [OF sample_platform_ok eq] sample_call_ok show ?thesis
    unfolding id by (auto simp: r Let_def)
qed

text \<open>
  The adapter from frames to the store's input stream loses and adds nothing. Reading it with
  the store's buffer delivers a byte sequence and ends normally exactly if the frames still to
  come are non-empty data frames with that concatenation followed by the end of the stream,
  however long the frames are.
\<close>

theorem rpc_stream_exact:
  "(\<exists>blocks st. drains (rpc_input R addr) (RpcInputStream_init rd) blocks st \<and>
      concat blocks = payload \<and> ris_reader st = rd') \<longleftrightarrow>
   (\<exists>ds. frames R rd ds rd' \<and> concat ds = payload)"
proof
  assume "\<exists>blocks st. drains (rpc_input R addr) (RpcInputStream_init rd) blocks st \<and>
      concat blocks = payload \<and> ris_reader st = rd'"
  then show "\<exists>ds. frames R rd ds rd' \<and> concat ds = payload" using frames_of_drained by metis
next
  assume "\<exists>ds. frames R rd ds rd' \<and> concat ds = payload"
  then show "\<exists>blocks st. drains (rpc_input R addr) (RpcInputStream_init rd) blocks st \<and>
      concat blocks = payload \<and> ris_reader st = rd'" using frames_drained by metis
qed

text \<open>
  C29: download over gRPC. A \<open>GetChunk\<close> call changes no chunk; it ends with OK only after the
  requested range of an existing chunk went out in full and in order, and no message carries
  more than 3 MiB, which is below the 4 MiB a gRPC peer accepts by default.
\<close>

theorem rpc_get:
  assumes "platform_ok P store s"
    and "WorkerService_GetChunk (worker_over (FileChunkStore_vtable P store)) req W x s = (g, x', s')"
  shows "fsys s' = fsys s \<and> fds s' = fds s \<and>
    (\<exists>blocks. x' = feed (rpc_output W) x blocks \<and> (\<forall>b \<in> set blocks. length b \<le> 3 * 1024 * 1024) \<and>
      (grpc_code g = GRPC_OK \<longrightarrow>
         (\<exists>c payload. chunk_at store (fsys s) \<lparr>chunk_id_value = rget_chunk_id req\<rparr> = Some (c, payload) \<and>
            unat (rget_offset req) + unat (rget_size req) \<le> length payload \<and>
            concat blocks = take (unat (rget_size req)) (drop (unat (rget_offset req)) payload))))"
proof -
  let ?req = "\<lparr>get_chunk_id = \<lparr>chunk_id_value = rget_chunk_id req\<rparr>,
    get_range = \<lparr>range_offset = rget_offset req, range_size = rget_size req\<rparr>\<rparr>"
  have sz: "sizes_ok (fsys s)" using assms(1) by (simp add: platform_ok_def)
  show ?thesis
  proof (cases "ChunkId_valid (get_chunk_id ?req)")
    case False
    then show ?thesis
      using assms(2) by (auto simp: WorkerService_GetChunk_def DataPlaneService_GetChunk_def intro!: exI [of _ "[]"])
  next
    case True
    obtain st where call: "FileChunkStore_Get P store ?req (rpc_output W) x s = (st, x', s')" "g = ToGrpcStatus st"
      using assms(2) True
      by (auto simp: WorkerService_GetChunk_def DataPlaneService_GetChunk_def FileChunkStore_vtable_def split: prod.splits)
    have gp: "get_post store ?req (rpc_output W) x s st x' s'" by (rule Get_get_post [OF call(1) sz])
    then have "fsys s' = fsys s" "fds s' = fds s" by (simp_all add: get_post_def quiet_def)
    moreover have "\<exists>blocks. x' = feed (rpc_output W) x blocks \<and> (\<forall>b \<in> set blocks. length b \<le> kBufferSize) \<and>
      (status_ok st \<longrightarrow> (\<exists>c payload. chunk_at store (fsys s) (get_chunk_id ?req) = Some (c, payload) \<and>
            unat (rget_offset req) + unat (rget_size req) \<le> length payload \<and>
            concat blocks = take (unat (rget_size req)) (drop (unat (rget_offset req)) payload)))"
      using get_post_blocks [OF gp sz] by (simp add: range_of_def)
    ultimately show ?thesis using call(2) by (simp add: kBufferSize_def)
  qed
qed

theorem rpc_get_witness:
  "\<exists>blocks. feed (rpc_output list_writer) [] blocks =
      fst (snd (WorkerService_GetChunk
        (worker_over (FileChunkStore_vtable sample_platform sample_store :: (PutChunkFrame list RpcInputStream, byte list list, os) ChunkStore))
        \<lparr>rget_chunk_id = ''a'', rget_offset = 1, rget_size = 2\<rparr> list_writer [] rested)) \<and>
     (\<forall>b \<in> set blocks. length b \<le> 3 * 1024 * 1024)"
proof -
  let ?call = "WorkerService_GetChunk
        (worker_over (FileChunkStore_vtable sample_platform sample_store :: (PutChunkFrame list RpcInputStream, byte list list, os) ChunkStore))
        \<lparr>rget_chunk_id = ''a'', rget_offset = 1, rget_size = 2\<rparr> list_writer [] rested"
  have "?call = (fst ?call, fst (snd ?call), snd (snd ?call))" by simp
  from rpc_get [OF rested_ok this] show ?thesis by metis
qed

text \<open>
  Metadata and deletion over gRPC. Both calls succeed as calls and report the outcome in the
  response: \<open>HeadChunk\<close> changes nothing and reports OK only with the identifier, size and
  checksum of an existing chunk; \<open>DeleteChunk\<close> reports OK exactly if the chunk existed and is
  gone, and otherwise changes nothing.
\<close>

theorem rpc_head_delete:
  assumes "platform_ok P store s"
    and "WorkerService_HeadChunk (worker_over (FileChunkStore_vtable P store :: ('r RpcInputStream, 'x, os) ChunkStore))
           cid resp s = (hg, hresp, s1)"
    and "WorkerService_DeleteChunk (worker_over (FileChunkStore_vtable P store :: ('r RpcInputStream, 'x, os) ChunkStore))
           cid dresp s = (dg, dresp', s2)"
  shows "hg = Grpc_Ok \<and> dg = Grpc_Ok \<and> chunk_at store (fsys s1) = chunk_at store (fsys s) \<and>
    (rpc_code (rhead_status hresp) = STATUS_CODE_OK \<longrightarrow>
       rhead_chunk_id hresp = cid \<and>
       (\<exists>payload. chunk_at store (fsys s) \<lparr>chunk_id_value = cid\<rparr> = Some (blake3_checksum P payload, payload) \<and>
          rhead_checksum hresp = blake3_hex P payload \<and> unat (rhead_size hresp) = length payload)) \<and>
    (if rpc_code (op_status dresp') = STATUS_CODE_OK
     then chunk_at store (fsys s) \<lparr>chunk_id_value = cid\<rparr> \<noteq> None \<and>
          chunk_at store (fsys s2) = (chunk_at store (fsys s))(\<lparr>chunk_id_value = cid\<rparr> := None)
     else chunk_at store (fsys s2) = chunk_at store (fsys s))"
proof -
  have "c = blake3_checksum P payload" if "chunk_at store (fsys s) cid = Some (c, payload)" for cid c payload
    using chunk_at_digest [of P, OF _ that] assms(1) by (simp add: platform_ok_def)
  then show ?thesis
    using fcw.worker_head [OF assms(1,2)] fcw.worker_delete [OF assms(1,3)]
    unfolding store_view_def by (fastforce simp: blake3_checksum_def)
qed

theorem rpc_head_delete_witness:
  "fst (WorkerService_HeadChunk
     (worker_over (FileChunkStore_vtable sample_platform sample_store :: (PutChunkFrame list RpcInputStream, byte list, os) ChunkStore))
     ''a'' \<lparr>rhead_status = rpc_default_status, rhead_chunk_id = [], rhead_size = 0, rhead_checksum = []\<rparr> rested) = Grpc_Ok"
proof -
  let ?head = "WorkerService_HeadChunk
     (worker_over (FileChunkStore_vtable sample_platform sample_store :: (PutChunkFrame list RpcInputStream, byte list, os) ChunkStore))
     ''a'' \<lparr>rhead_status = rpc_default_status, rhead_chunk_id = [], rhead_size = 0, rhead_checksum = []\<rparr> rested"
  let ?del = "WorkerService_DeleteChunk
     (worker_over (FileChunkStore_vtable sample_platform sample_store :: (PutChunkFrame list RpcInputStream, byte list, os) ChunkStore))
     ''a'' \<lparr>op_status = rpc_default_status\<rparr> rested"
  have "?head = (fst ?head, fst (snd ?head), snd (snd ?head))" "?del = (fst ?del, fst (snd ?del), snd (snd ?del))"
    by simp_all
  from rpc_head_delete [OF rested_ok this] show ?thesis by blast
qed

text \<open>
  Without a data plane every data call is refused with \<open>FAILED_PRECONDITION\<close> before it touches
  the stream, the response or the store, and the health checks always answer OK with the name of
  the service.
\<close>

theorem unconfigured_and_health:
  "WorkerService_PutChunk WorkerService_default addr R rd oresp w = (not_configured, oresp, rd, w) \<and>
   WorkerService_GetChunk WorkerService_default greq W x w = (not_configured, x, w) \<and>
   WorkerService_HeadChunk WorkerService_default cid hresp w = (not_configured, hresp, w) \<and>
   WorkerService_DeleteChunk WorkerService_default cid oresp w = (not_configured, oresp, w) \<and>
   grpc_code not_configured = FAILED_PRECONDITION \<and>
   (\<forall>response. fst (WorkerService_Health response) = Grpc_Ok \<and>
      health_service (snd (WorkerService_Health response)) = ''worker'' \<and>
      rpc_code (health_status (snd (WorkerService_Health response))) = STATUS_CODE_OK \<and>
      fst (ControlPlaneService_Health response) = Grpc_Ok \<and>
      health_service (snd (ControlPlaneService_Health response)) = ''control-plane'')"
  by (simp add: WorkerService_PutChunk_def WorkerService_GetChunk_def WorkerService_HeadChunk_def
      WorkerService_DeleteChunk_def not_configured_def WorkerService_Health_def ControlPlaneService_Health_def
      SetHealthy_def)

end
