(* ===== verification/Read_Loop.thy ===== *)
theory Read_Loop
  imports Store_Reading
begin

text \<open>
  The reading of a whole local file, which both parts of the client do: \<open>HashFile\<close> of
  \<open>src/storage/client/storage_client.cpp\<close> and \<open>PutChunk\<close> of
  \<open>src/storage/client/data_plane_client.cpp\<close> read with a fixed buffer, repeat a read that was
  interrupted, and stop when a read returns nothing. The loop cannot run forever, reads only move
  the position of the descriptor, and together they deliver the file from front to back.
\<close>

section \<open>The inner loop\<close>

lemma sys_read_sched:
  assumes "sys_read fd n s = ((r, bs), s')"
  shows "r < 0 \<and> os_errno s' = EINTR \<longrightarrow> length (sched s') < length (sched s)"
proof -
  obtain x s1 where n: "next_outcome s = (x, s1)" by fastforce
  show ?thesis
    using assms next_outcome_frame [OF n] n
    by (auto simp: sys_read_def Let_def split: outcome.splits option.splits ofile.splits)
qed

text \<open>\<open>do { count = read(...) } while (count < 0 && errno == EINTR)\<close>.\<close>

function read_retry :: "int \<Rightarrow> nat \<Rightarrow> os \<Rightarrow> (int \<times> byte list) \<times> os" where
  "read_retry fd n s =
     (case sys_read fd n s of ((count, bytes), s') \<Rightarrow>
        if count < 0 \<and> os_errno s' = EINTR then read_retry fd n s' else ((count, bytes), s'))"
  by pat_completeness auto
termination
  by (relation "measure (\<lambda>(fd, n, s). length (sched s))") (auto dest: sys_read_sched [OF sym])

declare read_retry.simps [simp del]

text \<open>What is left to read through a descriptor.\<close>

definition unread :: "int \<Rightarrow> os \<Rightarrow> byte list" where
  "unread fd s =
     (case map_of (fds s) fd of Some (OFile i pos) \<Rightarrow> drop pos (fs_data (fsys s) i) | _ \<Rightarrow> [])"

lemma sys_read_unread:
  assumes "sys_read fd n s = ((r, bs), s')"
  shows "(r < 0 \<and> bs = [] \<and> unread fd s' = unread fd s) \<or>
    (r = int (length bs) \<and> unread fd s = bs @ unread fd s' \<and> length bs \<le> n \<and>
     (bs = [] \<longrightarrow> n = 0 \<or> unread fd s = []))"
proof -
  obtain x s1 where n: "next_outcome s = (x, s1)" by fastforce
  have f: "fsys s1 = fsys s" "fds s1 = fds s" using quiet_next_outcome [OF n] by (simp_all add: quiet_def)
  show ?thesis
  proof (cases "\<exists>i pos. (\<forall>e. x \<noteq> Fail e) \<and> map_of (fds s) fd = Some (OFile i pos)")
    case False
    then show ?thesis
      using assms n f by (auto simp: sys_read_def unread_def split: outcome.splits option.splits ofile.splits)
  next
    case True
    then obtain i pos where x: "\<forall>e. x \<noteq> Fail e" and m: "map_of (fds s) fd = Some (OFile i pos)" by blast
    let ?av = "take n (drop pos (fs_data (fsys s) i))"
    have r: "r = int (length bs)" "bs = cut x ?av" "s' = s1\<lparr>fds := fd_set fd (OFile i (pos + length bs)) (fds s1)\<rparr>"
      using assms n f x m by (auto simp: sys_read_def Let_def split: outcome.splits)
    have fo: "front_of bs ?av" unfolding r(2) by (rule front_of_cut)
    then obtain rest where rest: "?av = bs @ rest" by (auto simp: front_of_def)
    have "drop pos (fs_data (fsys s) i) = bs @ drop (length bs) (drop pos (fs_data (fsys s) i))"
      by (metis append_take_drop_id append.assoc append_eq_conv_conj rest)
    then have u: "unread fd s = bs @ unread fd s'"
      using m f r(3) map_of_open [OF m]
      by (simp add: unread_def map_of_fd_set add.commute)
    have "length bs \<le> n" using front_of_length [OF fo] by simp
    moreover have "bs = [] \<longrightarrow> n = 0 \<or> unread fd s = []" using fo m by (auto simp: front_of_def unread_def)
    ultimately show ?thesis using r(1) u by blast
  qed
qed

lemma read_retry_unread:
  "read_retry fd n s = ((r, bs), s') \<Longrightarrow>
    (r < 0 \<and> bs = [] \<and> unread fd s' = unread fd s) \<or>
    (r = int (length bs) \<and> unread fd s = bs @ unread fd s' \<and> length bs \<le> n \<and>
     (bs = [] \<longrightarrow> n = 0 \<or> unread fd s = []))"
proof (induction fd n s rule: read_retry.induct)
  case (1 fd n s)
  obtain r1 b1 s1 where rd: "sys_read fd n s = ((r1, b1), s1)" by (metis surj_pair)
  show ?case
  proof (cases "r1 < 0 \<and> os_errno s1 = EINTR")
    case True
    then have "read_retry fd n s1 = ((r, bs), s')" using "1.prems" rd by (simp add: read_retry.simps [of fd n s])
    moreover have "unread fd s1 = unread fd s" using sys_read_unread [OF rd] True by auto
    ultimately show ?thesis using "1.IH" [OF rd [symmetric] refl True] by simp
  next
    case False
    then have "r1 = r" "b1 = bs" "s1 = s'" using "1.prems" rd by (auto simp: read_retry.simps [of fd n s])
    then show ?thesis using sys_read_unread [OF rd] by simp
  qed
qed

section \<open>Frame\<close>

text \<open>Reading moves the position of the descriptor and changes nothing else.\<close>

definition only_reads :: "int \<Rightarrow> inode \<Rightarrow> (int \<times> ofile) list \<Rightarrow> os \<Rightarrow> os \<Rightarrow> bool" where
  "only_reads fd i t s s' \<longleftrightarrow>
     fsys s' = fsys s \<and> trace s' = trace s \<and> sched_tail s s' \<and> (\<exists>pos. fd_top fd (OFile i pos) t s')"

lemma only_reads_trans: "only_reads fd i t s s1 \<Longrightarrow> only_reads fd i t s1 s2 \<Longrightarrow> only_reads fd i t s s2"
  by (auto simp: only_reads_def dest: sched_tail_trans)

lemma fd_set_top: "fd \<notin> fst ` set t \<Longrightarrow> fd_set fd f ((fd, g) # t) = (fd, f) # t"
  using fd_set_fresh [of fd t f] by (simp add: fd_set_def)

lemma sys_read_frame:
  assumes "sys_read fd n s = ((r, bs), s')" and "fd_top fd (OFile i pos) t s"
  shows "only_reads fd i t s s'"
proof -
  obtain x s1 where n: "next_outcome s = (x, s1)" by fastforce
  have q: "quiet s s1" "sched_tail s s1" using quiet_next_outcome [OF n] sched_tail_next [OF n] by blast+
  have top: "fds s1 = (fd, OFile i pos) # t" "fd \<notin> fst ` set t"
    using assms(2) q(1) by (simp_all add: fd_top_def quiet_def)
  have fs: "fsys s1 = fsys s" "trace s1 = trace s" using q(1) by (simp_all add: quiet_def)
  have "\<exists>pos'. sched s' = sched s1 \<and> fsys s' = fsys s1 \<and> trace s' = trace s1 \<and> fds s' = (fd, OFile i pos') # t"
    using assms(1) n top(1)
    by (auto simp: sys_read_def Let_def fd_set_top [OF top(2)] split: outcome.splits)
  then show ?thesis
    using fs q(2) top(2) by (auto simp: only_reads_def fd_top_def sched_tail_def)
qed

lemma read_retry_frame:
  "read_retry fd n s = ((r, bs), s') \<Longrightarrow> fd_top fd (OFile i pos) t s \<Longrightarrow> only_reads fd i t s s'"
proof (induction fd n s arbitrary: pos rule: read_retry.induct)
  case (1 fd n s)
  obtain r1 b1 s1 where rd: "sys_read fd n s = ((r1, b1), s1)" by (metis surj_pair)
  note f = sys_read_frame [OF rd "1.prems"(2)]
  then obtain pos1 where top: "fd_top fd (OFile i pos1) t s1" by (auto simp: only_reads_def)
  show ?case
  proof (cases "r1 < 0 \<and> os_errno s1 = EINTR")
    case True
    then have "read_retry fd n s1 = ((r, bs), s')" using "1.prems" rd by (simp add: read_retry.simps [of fd n s])
    from only_reads_trans [OF f "1.IH" [OF rd [symmetric] refl True this top]] show ?thesis .
  next
    case False
    then have "s1 = s'" using "1.prems" rd by (auto simp: read_retry.simps [of fd n s])
    then show ?thesis using f by simp
  qed
qed

text \<open>Interruptions are retried, so a read fails only if the schedule has another failure.\<close>

lemma sys_read_gentle:
  assumes "sys_read fd n s = ((r, bs), s')" and "fd_top fd (OFile i pos) t s" and "gentle s"
  shows "r \<ge> 0 \<or> os_errno s' = EINTR"
proof -
  obtain x s1 where n: "next_outcome s = (x, s1)" by fastforce
  have "map_of (fds s1) fd = Some (OFile i pos)"
    using assms(2) quiet_next_outcome [OF n] by (auto simp: quiet_def dest: fd_top_lookup)
  with assms gentle_next [OF n assms(3)] n show ?thesis
    by (auto simp: sys_read_def Let_def smooth_outcome_def split: outcome.splits)
qed

lemma read_retry_gentle:
  "read_retry fd n s = ((r, bs), s') \<Longrightarrow> fd_top fd (OFile i pos) t s \<Longrightarrow> gentle s \<Longrightarrow> r \<ge> 0"
proof (induction fd n s arbitrary: pos rule: read_retry.induct)
  case (1 fd n s)
  obtain r1 b1 s1 where rd: "sys_read fd n s = ((r1, b1), s1)" by (metis surj_pair)
  note f = sys_read_frame [OF rd "1.prems"(2)]
  then obtain pos1 where top: "fd_top fd (OFile i pos1) t s1" by (auto simp: only_reads_def)
  have g: "gentle s1" using f "1.prems"(3) by (auto simp: only_reads_def dest: sched_tail_gentle)
  show ?case
  proof (cases "r1 < 0 \<and> os_errno s1 = EINTR")
    case True
    then have "read_retry fd n s1 = ((r, bs), s')" using "1.prems" rd by (simp add: read_retry.simps [of fd n s])
    from "1.IH" [OF rd [symmetric] refl True this top g] show ?thesis .
  next
    case False
    then show ?thesis
      using "1.prems" rd sys_read_gentle [OF rd "1.prems"(2,3)] by (auto simp: read_retry.simps [of fd n s])
  qed
qed

text \<open>The whole of a scope that opens a file, reads it and leaves: nothing has changed.\<close>

lemma only_reads_close:
  assumes "only_reads fd i (fds s) s1 s2" and "0 \<le> fd"
    and "fsys s1 = fsys s" and "trace s1 = trace s" and "sched_tail s s1"
  shows "quiet s (ufd_destroy (ufd_make fd) s2) \<and> sched_tail s (ufd_destroy (ufd_make fd) s2)"
  using assms destroy_restores [of fd _ s s2] sched_tail_trans [OF assms(5), of s2]
  by (auto simp: only_reads_def intro: sched_tail_trans)

end
