(* ===== verification/Data_Plane_Client.thy ===== *)
theory Data_Plane_Client
  imports Rpc_Services Read_Loop
begin

text \<open>
  \<open>GrpcDataPlaneClient\<close> (\<open>src/storage/client/data_plane_client.cpp\<close>): the client's end of the
  data plane, which sends a source file as frames and writes received frames to a new file.

  The stub that the code generator and gRPC provide is a parameter, a record of functions on the
  state of the network and the peer; every call is given the target of the channel and the
  deadline. With a deadline the messages of a download are finitely many, and what is written to
  the local file in between has no influence on them: the stub hands over the list of those that the
  reader delivers until the end of the call. Nothing is assumed about what they contain, nor about
  the answers of any call.
  The library shares \<open>errno\<close> with the program: \<open>stub_errno\<close> is its value after the calls.
\<close>

section \<open>Status mappings\<close>

fun FromRpcCode :: "RpcStatusCode \<Rightarrow> StatusCode" where
  "FromRpcCode STATUS_CODE_OK = kOk"
| "FromRpcCode STATUS_CODE_INVALID_ARGUMENT = kInvalidArgument"
| "FromRpcCode STATUS_CODE_NOT_FOUND = kNotFound"
| "FromRpcCode STATUS_CODE_ALREADY_EXISTS = kAlreadyExists"
| "FromRpcCode STATUS_CODE_UNAVAILABLE = kUnavailable"
| "FromRpcCode STATUS_CODE_TIMEOUT = kTimeout"
| "FromRpcCode STATUS_CODE_IO_ERROR = kIoError"
| "FromRpcCode STATUS_CODE_CORRUPTION = kCorruption"
| "FromRpcCode STATUS_CODE_RESOURCE_EXHAUSTED = kResourceExhausted"
| "FromRpcCode STATUS_CODE_INTERNAL = kInternal"
| "FromRpcCode (STATUS_CODE_OTHER k) = kInternal"

definition FromRpcStatus :: "RpcStatus \<Rightarrow> Status" where
  "FromRpcStatus status =
     (if rpc_code status = STATUS_CODE_OK then Status_Ok
      else mk_Status (FromRpcCode (rpc_code status)) (rpc_message status))"

definition grpc_ok :: "GrpcStatus \<Rightarrow> bool" where
  "grpc_ok status \<longleftrightarrow> grpc_code status = GRPC_OK"

definition FromGrpcStatus :: "GrpcStatus \<Rightarrow> Status" where
  "FromGrpcStatus status =
     (if grpc_ok status then Status_Ok
      else mk_Status
        (case grpc_code status of
           INVALID_ARGUMENT \<Rightarrow> kInvalidArgument
         | NOT_FOUND \<Rightarrow> kNotFound
         | ALREADY_EXISTS \<Rightarrow> kAlreadyExists
         | DEADLINE_EXCEEDED \<Rightarrow> kTimeout
         | RESOURCE_EXHAUSTED \<Rightarrow> kResourceExhausted
         | DATA_LOSS \<Rightarrow> kCorruption
         | UNKNOWN \<Rightarrow> kIoError
         | INTERNAL \<Rightarrow> kInternal
         | _ \<Rightarrow> kUnavailable) (grpc_message status))"

section \<open>The stub\<close>

record 'n WorkerStub =
  stub_put_open :: "string \<Rightarrow> int \<Rightarrow> 'n \<Rightarrow> 'n"
  stub_put_write :: "PutChunkFrame \<Rightarrow> 'n \<Rightarrow> bool \<times> 'n"
  stub_put_done :: "'n \<Rightarrow> 'n"
  stub_put_finish :: "'n \<Rightarrow> (GrpcStatus \<times> OperationResponse) \<times> 'n"
  stub_cancel :: "'n \<Rightarrow> 'n"
  stub_errno :: "'n \<Rightarrow> errno \<Rightarrow> errno"
  stub_get_open :: "string \<Rightarrow> int \<Rightarrow> RpcGetChunkRequest \<Rightarrow> 'n \<Rightarrow> byte list list \<times> 'n"
  stub_get_finish :: "'n \<Rightarrow> GrpcStatus \<times> 'n"
  stub_head :: "string \<Rightarrow> int \<Rightarrow> string \<Rightarrow> 'n \<Rightarrow> (GrpcStatus \<times> RpcHeadChunkResponse) \<times> 'n"
  stub_delete :: "string \<Rightarrow> int \<Rightarrow> string \<Rightarrow> 'n \<Rightarrow> (GrpcStatus \<times> OperationResponse) \<times> 'n"

text \<open>The object: its deadline in seconds, by default 300.\<close>

record GrpcDataPlaneClient =
  deadline :: int

definition GrpcDataPlaneClient_default :: GrpcDataPlaneClient where
  "GrpcDataPlaneClient_default = \<lparr>deadline = 300\<rparr>"

text \<open>The target of the channel \<open>MakeStub\<close> creates.\<close>

definition MakeStub_target :: "WorkerEndpoint \<Rightarrow> string" where
  "MakeStub_target endpoint = host endpoint @ '':'' @ to_string_nat (unat (data_port endpoint))"

section \<open>Local files\<close>

text \<open>The client's own copy of \<open>WriteAll\<close> is the same loop as the store's.\<close>

definition client_WriteAll :: "'h platform \<Rightarrow> int \<Rightarrow> byte list \<Rightarrow> os \<Rightarrow> Status \<times> os" where
  "client_WriteAll P fd data s = WriteAll_loop P fd data 0 s"

definition kPutBufferSize :: nat where
  "kPutBufferSize = 3 * 1024 * 1024"

section \<open>PutChunk\<close>

text \<open>
  The sending loop: \<open>Inl\<close> is the status of a failed read, after the call was cancelled; \<open>Inr\<close>
  the end of the file or of the peer's interest.
\<close>

function client_put_loop ::
  "'h platform \<Rightarrow> 'n WorkerStub \<Rightarrow> int \<Rightarrow> os \<Rightarrow> 'n \<Rightarrow> (Status + unit) \<times> os \<times> 'n" where
  "client_put_loop P stub fd s n =
     (case read_retry fd kPutBufferSize s of ((count, bytes), s') \<Rightarrow>
        if count < 0
        then (let n = snd (stub_put_finish stub (stub_put_done stub (stub_cancel stub n)))
              in (Inl (mk_Status kIoError
                         (''read source failed: '' @ strerror P (stub_errno stub n (os_errno s')))), s', n))
        else if count = 0 then (Inr (), s', n)
        else (case stub_put_write stub (FrameData bytes) n of (sent, n') \<Rightarrow>
                if sent then client_put_loop P stub fd s' n' else (Inr (), s', n')))"
  by pat_completeness auto
termination
proof (relation "measure (\<lambda>(P, stub, fd, s, n). length (unread fd s))", goal_cases)
  case 1
  show ?case by simp
next
  case (2 P stub fd s n x s' count bytes sent n')
  then have "read_retry fd kPutBufferSize s = ((count, bytes), s')" by simp
  from read_retry_unread [OF this] 2 show ?case by auto
qed

declare client_put_loop.simps [simp del]

definition GrpcDataPlaneClient_PutChunk ::
  "'h platform \<Rightarrow> 'n WorkerStub \<Rightarrow> GrpcDataPlaneClient \<Rightarrow> WorkerEndpoint \<Rightarrow> PutChunkRequest \<Rightarrow> path \<Rightarrow> os \<Rightarrow> 'n \<Rightarrow> Status \<times> os \<times> 'n" where
  "GrpcDataPlaneClient_PutChunk P stub this endpoint request source s n =
     (case sys_open_rd source s of (raw, s) \<Rightarrow>
        (let fd = ufd_make raw in
          if \<not> ufd_valid fd
          then (mk_Status kIoError (''open source failed: '' @ strerror P (os_errno s)), ufd_destroy fd s, n)
          else (let n = stub_put_open stub (MakeStub_target endpoint) (deadline this) n;
                    metadata = \<lparr>meta_chunk_id = chunk_id_value (put_chunk_id request),
                                meta_expected_size = expected_size request,
                                meta_expected_checksum = checksum_value (expected_checksum request)\<rparr>
                in (case stub_put_write stub (FrameMetadata metadata) n of (sent, n) \<Rightarrow>
                  if \<not> sent
                  then (case stub_put_finish stub (stub_put_done stub n) of ((grpc_status, response), n) \<Rightarrow>
                          (FromGrpcStatus grpc_status, ufd_destroy fd s, n))
                  else (case client_put_loop P stub (ufd_get fd) s n of
                          (Inl status, s, n) \<Rightarrow> (status, ufd_destroy fd s, n)
                        | (Inr _, s, n) \<Rightarrow>
                            (case stub_put_finish stub (stub_put_done stub n) of ((grpc_status, response), n) \<Rightarrow>
                               ((if \<not> grpc_ok grpc_status then FromGrpcStatus grpc_status
                                 else FromRpcStatus (op_status response)), ufd_destroy fd s, n)))))))"

section \<open>GetChunk\<close>

fun client_get_loop :: "'h platform \<Rightarrow> int \<Rightarrow> byte list list \<Rightarrow> os \<Rightarrow> Status \<times> os" where
  "client_get_loop P fd [] s = (Status_Ok, s)"
| "client_get_loop P fd (frame # rest) s =
     (case client_WriteAll P fd frame s of (write_status, s) \<Rightarrow>
        if \<not> status_ok write_status then (write_status, s) else client_get_loop P fd rest s)"

text \<open>\<open>fail\<close>: closes the file and removes its name.\<close>

definition client_get_fail :: "path \<Rightarrow> UniqueFd \<Rightarrow> os \<Rightarrow> os" where
  "client_get_fail destination fd s =
     (case ufd_reset fd (-1) s of (fd, s) \<Rightarrow> ufd_destroy fd (snd (sys_unlink destination s)))"

definition GrpcDataPlaneClient_GetChunk ::
  "'h platform \<Rightarrow> 'n WorkerStub \<Rightarrow> GrpcDataPlaneClient \<Rightarrow> WorkerEndpoint \<Rightarrow> GetChunkRequest \<Rightarrow> path \<Rightarrow> os \<Rightarrow> 'n \<Rightarrow> Status \<times> os \<times> 'n" where
  "GrpcDataPlaneClient_GetChunk P stub this endpoint request destination s n =
     (case sys_open_excl destination s of (raw, s) \<Rightarrow>
        (let fd = ufd_make raw in
          if \<not> ufd_valid fd
          then (mk_Status (if os_errno s = EEXIST then kAlreadyExists else kIoError)
                  (''create destination failed: '' @ strerror P (os_errno s)), ufd_destroy fd s, n)
          else (case stub_get_open stub (MakeStub_target endpoint) (deadline this)
                       \<lparr>rget_chunk_id = chunk_id_value (get_chunk_id request),
                        rget_offset = range_offset (get_range request),
                        rget_size = range_size (get_range request)\<rparr> n of
            (received, n) \<Rightarrow>
              (case client_get_loop P (ufd_get fd) received s of (write_status, s) \<Rightarrow>
                (case stub_get_finish stub (if status_ok write_status then n else stub_cancel stub n) of
                  (grpc_status, n) \<Rightarrow>
                    if \<not> status_ok write_status
                    then (write_status, client_get_fail destination fd s, n)
                    else if \<not> grpc_ok grpc_status
                    then (FromGrpcStatus grpc_status, client_get_fail destination fd s, n)
                    else (case sys_fdatasync (ufd_get fd) s of (rc, s) \<Rightarrow>
                      if rc \<noteq> 0
                      then (mk_Status kIoError (''fdatasync destination failed: '' @ strerror P (os_errno s)),
                            client_get_fail destination fd s, n)
                      else (Status_Ok, ufd_destroy fd s, n)))))))"

section \<open>HeadChunk and DeleteChunk\<close>

definition GrpcDataPlaneClient_HeadChunk ::
  "'n WorkerStub \<Rightarrow> GrpcDataPlaneClient \<Rightarrow> WorkerEndpoint \<Rightarrow> HeadChunkRequest \<Rightarrow> 'n \<Rightarrow> HeadChunkResponse StatusOr \<times> 'n" where
  "GrpcDataPlaneClient_HeadChunk stub this endpoint request n =
     (case stub_head stub (MakeStub_target endpoint) (deadline this) (chunk_id_value (head_chunk_id request)) n of
        ((grpc_status, response), n) \<Rightarrow>
          (if \<not> grpc_ok grpc_status then StatusOr_error (FromGrpcStatus grpc_status)
           else let status = FromRpcStatus (rhead_status response)
                in if \<not> status_ok status then StatusOr_error status
                   else StatusOr_value
                          \<lparr>resp_chunk_id = \<lparr>chunk_id_value = rhead_chunk_id response\<rparr>,
                           resp_size = rhead_size response,
                           resp_checksum = \<lparr>algorithm = kBlake3,
                             checksum_value = rhead_checksum response\<rparr>\<rparr>, n))"

definition GrpcDataPlaneClient_DeleteChunk ::
  "'n WorkerStub \<Rightarrow> GrpcDataPlaneClient \<Rightarrow> WorkerEndpoint \<Rightarrow> DeleteChunkRequest \<Rightarrow> 'n \<Rightarrow> Status \<times> 'n" where
  "GrpcDataPlaneClient_DeleteChunk stub this endpoint request n =
     (case stub_delete stub (MakeStub_target endpoint) (deadline this) (chunk_id_value (delete_chunk_id request)) n of
        ((grpc_status, response), n) \<Rightarrow>
          ((if grpc_ok grpc_status then FromRpcStatus (op_status response) else FromGrpcStatus grpc_status), n))"

text \<open>The virtual functions of \<open>DataPlaneClient\<close>.\<close>

record 'n DataPlaneClient =
  dpc_PutChunk :: "WorkerEndpoint \<Rightarrow> PutChunkRequest \<Rightarrow> path \<Rightarrow> os \<Rightarrow> 'n \<Rightarrow> Status \<times> os \<times> 'n"
  dpc_GetChunk :: "WorkerEndpoint \<Rightarrow> GetChunkRequest \<Rightarrow> path \<Rightarrow> os \<Rightarrow> 'n \<Rightarrow> Status \<times> os \<times> 'n"
  dpc_HeadChunk :: "WorkerEndpoint \<Rightarrow> HeadChunkRequest \<Rightarrow> 'n \<Rightarrow> HeadChunkResponse StatusOr \<times> 'n"
  dpc_DeleteChunk :: "WorkerEndpoint \<Rightarrow> DeleteChunkRequest \<Rightarrow> 'n \<Rightarrow> Status \<times> 'n"

definition GrpcDataPlaneClient_vtable ::
  "'h platform \<Rightarrow> 'n WorkerStub \<Rightarrow> GrpcDataPlaneClient \<Rightarrow> 'n DataPlaneClient" where
  "GrpcDataPlaneClient_vtable P stub this =
     \<lparr>dpc_PutChunk = GrpcDataPlaneClient_PutChunk P stub this,
      dpc_GetChunk = GrpcDataPlaneClient_GetChunk P stub this,
      dpc_HeadChunk = GrpcDataPlaneClient_HeadChunk stub this,
      dpc_DeleteChunk = GrpcDataPlaneClient_DeleteChunk stub this\<rparr>"

section \<open>Sending a file\<close>

text \<open>Offering frames to the stub one after the other, until it refuses one.\<close>

fun offer :: "'n WorkerStub \<Rightarrow> PutChunkFrame list \<Rightarrow> 'n \<Rightarrow> bool \<times> 'n" where
  "offer stub [] n = (True, n)"
| "offer stub (f # fs) n =
     (case stub_put_write stub f n of (sent, n) \<Rightarrow> if sent then offer stub fs n else (False, n))"

text \<open>
  A file was offered from its start in non-empty pieces: all of it, or up to a piece that was
  refused. Or the call was given up after some pieces had been accepted.
\<close>

definition offered :: "'n WorkerStub \<Rightarrow> byte list \<Rightarrow> 'n \<Rightarrow> bool \<Rightarrow> 'n \<Rightarrow> bool" where
  "offered stub file n all n' \<longleftrightarrow>
     (\<exists>ds rest. (\<forall>d \<in> set ds. d \<noteq> [] \<and> length d \<le> kPutBufferSize) \<and> file = concat ds @ rest \<and>
        offer stub (map FrameData ds) n = (all, n') \<and> (all \<longrightarrow> rest = []))"

definition given_up_sending :: "'n WorkerStub \<Rightarrow> byte list \<Rightarrow> 'n \<Rightarrow> 'n \<Rightarrow> bool" where
  "given_up_sending stub file n n' \<longleftrightarrow>
     (\<exists>ds rest n1. file = concat ds @ rest \<and> offer stub (map FrameData ds) n = (True, n1) \<and>
        n' = snd (stub_put_finish stub (stub_put_done stub (stub_cancel stub n1))))"

lemma offered_Nil: "offered stub [] n True n"
  unfolding offered_def by (intro exI [of _ "[] :: byte list list"]) simp

lemma offered_refused:
  "stub_put_write stub (FrameData b) n = (False, n') \<Longrightarrow> b \<noteq> [] \<Longrightarrow> length b \<le> kPutBufferSize \<Longrightarrow> offered stub (b @ file) n False n'"
  unfolding offered_def by (intro exI [of _ "[b]"]) simp

lemma offered_more:
  assumes "stub_put_write stub (FrameData b) n = (True, n1)" and "b \<noteq> []" "length b \<le> kPutBufferSize" and "offered stub file n1 all n'"
  shows "offered stub (b @ file) n all n'"
proof -
  obtain ds rest where "\<forall>d \<in> set ds. d \<noteq> [] \<and> length d \<le> kPutBufferSize" "file = concat ds @ rest"
    "offer stub (map FrameData ds) n1 = (all, n')" "all \<longrightarrow> rest = []" using assms(4) by (auto simp: offered_def)
  then show ?thesis unfolding offered_def using assms(1-3) by (intro exI [of _ "b # ds"]) simp
qed

lemma given_up_sending_now: "given_up_sending stub file n (snd (stub_put_finish stub (stub_put_done stub (stub_cancel stub n))))"
  unfolding given_up_sending_def by (intro exI [of _ "[] :: byte list list"]) simp

lemma given_up_sending_more:
  assumes "stub_put_write stub (FrameData b) n = (True, n1)" and "given_up_sending stub file n1 n'"
  shows "given_up_sending stub (b @ file) n n'"
proof -
  obtain ds rest n2 where "file = concat ds @ rest" "offer stub (map FrameData ds) n1 = (True, n2)"
    "n' = snd (stub_put_finish stub (stub_put_done stub (stub_cancel stub n2)))" using assms(2) by (auto simp: given_up_sending_def)
  then show ?thesis unfolding given_up_sending_def using assms(1) by (intro exI [of _ "b # ds"]) simp
qed

text \<open>
  The loop reads the file in non-empty pieces and offers them in order. It stops with an error on
  a failed read, at the end of the file, or when a piece is refused.
\<close>

lemma client_put_loop_sends:
  assumes "client_put_loop P stub fd s n = (res, s', n')" and "fd_top fd (OFile i pos) t s"
  shows "only_reads fd i t s s' \<and>
    (case res of
       Inl st \<Rightarrow> st_code st = kIoError \<and> \<not> gentle s \<and> given_up_sending stub (unread fd s) n n'
     | Inr _ \<Rightarrow> \<exists>all. offered stub (unread fd s) n all n')"
  using assms
proof (induction P stub fd s n arbitrary: pos rule: client_put_loop.induct)
  case (1 P stub fd s n)
  note unf = client_put_loop.simps [of P stub fd s n]
  obtain r b s1 where rd: "read_retry fd kPutBufferSize s = ((r, b), s1)" by (metis surj_pair)
  note f = read_retry_frame [OF rd "1.prems"(2)] and u = read_retry_unread [OF rd]
  obtain pos1 where top: "fd_top fd (OFile i pos1) t s1" using f by (auto simp: only_reads_def)
  consider (fail) "r < 0" | (eof) "r = 0" | (data) "r > 0" by linarith
  then show ?case
  proof cases
    case fail
    then have "\<not> gentle s" using read_retry_gentle [OF rd "1.prems"(2)] by linarith
    with fail show ?thesis using "1.prems"(1) rd f by (auto simp: unf Let_def given_up_sending_now)
  next
    case eof
    then have "unread fd s = []" using u by (auto simp: kPutBufferSize_def)
    moreover have "res = Inr ()" "s' = s1" "n' = n" using "1.prems"(1) rd eof by (auto simp: unf)
    ultimately show ?thesis using f offered_Nil [of stub n] by auto
  next
    case data
    then have b: "b \<noteq> []" "length b \<le> kPutBufferSize" "unread fd s = b @ unread fd s1" using u by auto
    obtain sent n1 where w: "stub_put_write stub (FrameData b) n = (sent, n1)" by fastforce
    show ?thesis
    proof (cases sent)
      case False
      then have "res = Inr ()" "s' = s1" "n' = n1" using "1.prems"(1) rd data w by (auto simp: unf)
      then show ?thesis using f b offered_refused [of stub b n n1] w False by auto
    next
      case True
      then have rec: "client_put_loop P stub fd s1 n1 = (res, s', n')"
        using "1.prems"(1) rd data w by (simp add: unf)
      note ih = "1.IH" [OF rd [symmetric] refl _ _ w [symmetric] True rec top]
      have "only_reads fd i t s s'" using ih data only_reads_trans [OF f] by simp
      moreover have "\<not> gentle s" if "\<not> gentle s1" using that f sched_tail_gentle [of s s1] by (auto simp: only_reads_def)
      ultimately show ?thesis
        using ih data w True b offered_more [of stub b n n1] given_up_sending_more [of stub b n n1]
        by (cases res) auto
    qed
  qed
qed

text \<open>
  \<open>PutChunk\<close> changes no local file. Either it fails on a local error, for which the schedule or the
  name of the file is the reason, or it has opened the call, offered the metadata followed by the
  file, all of it unless the peer refused a frame, and passes on the answer of the peer.
\<close>

lemma FromGrpcStatus_ok_iff [simp]: "status_ok (FromGrpcStatus g) \<longleftrightarrow> grpc_ok g"
  by (auto simp: FromGrpcStatus_def split: GrpcStatusCode.splits)

lemma FromRpcStatus_ok_iff [simp]: "status_ok (FromRpcStatus r) \<longleftrightarrow> rpc_code r = STATUS_CODE_OK"
  by (cases "rpc_code r") (auto simp: FromRpcStatus_def)

definition request_metadata :: "PutChunkRequest \<Rightarrow> PutChunkMetadata" where
  "request_metadata req =
     \<lparr>meta_chunk_id = chunk_id_value (put_chunk_id req), meta_expected_size = expected_size req,
      meta_expected_checksum = checksum_value (expected_checksum req)\<rparr>"

lemma meta_request_metadata: "meta_request (request_metadata req) = req"
  by (cases req) (simp add: meta_request_def request_metadata_def checksum_eta)

definition put_exchange ::
  "'n WorkerStub \<Rightarrow> 'n \<Rightarrow> PutChunkRequest \<Rightarrow> byte list \<Rightarrow> Status \<Rightarrow> 'n \<Rightarrow> bool" where
  "put_exchange stub n0 req file st n' \<longleftrightarrow>
     (\<exists>ds rest all n1 g resp.
        (\<forall>d \<in> set ds. d \<noteq> [] \<and> length d \<le> kPutBufferSize) \<and> file = concat ds @ rest \<and>
        offer stub (FrameMetadata (request_metadata req) # map FrameData ds) n0 = (all, n1) \<and> (all \<longrightarrow> rest = []) \<and>
        stub_put_finish stub (stub_put_done stub n1) = ((g, resp), n') \<and>
        st = (if grpc_ok g \<and> fst (stub_put_write stub (FrameMetadata (request_metadata req)) n0)
              then FromRpcStatus (op_status resp) else FromGrpcStatus g))"

text \<open>The call was given up after a part of the file had been sent.\<close>

definition put_abandoned :: "'n WorkerStub \<Rightarrow> 'n \<Rightarrow> PutChunkRequest \<Rightarrow> byte list \<Rightarrow> 'n \<Rightarrow> bool" where
  "put_abandoned stub n0 req file n' \<longleftrightarrow>
     (\<exists>ds rest n1. file = concat ds @ rest \<and>
        offer stub (FrameMetadata (request_metadata req) # map FrameData ds) n0 = (True, n1) \<and>
        n' = snd (stub_put_finish stub (stub_put_done stub (stub_cancel stub n1))))"

lemma put_exchange_refused:
  assumes "stub_put_write stub (FrameMetadata (request_metadata req)) n0 = (False, n1)"
    and "stub_put_finish stub (stub_put_done stub n1) = ((g, resp), n')"
  shows "put_exchange stub n0 req file (FromGrpcStatus g) n'"
  using assms unfolding put_exchange_def by (intro exI [of _ "[] :: byte list list"]) auto

lemma put_exchange_sent:
  assumes "stub_put_write stub (FrameMetadata (request_metadata req)) n0 = (True, n1)" and "offered stub file n1 all n2"
    and "stub_put_finish stub (stub_put_done stub n2) = ((g, resp), n')"
  shows "put_exchange stub n0 req file (if grpc_ok g then FromRpcStatus (op_status resp) else FromGrpcStatus g) n'"
proof -
  obtain ds rest where "\<forall>d \<in> set ds. d \<noteq> [] \<and> length d \<le> kPutBufferSize" "file = concat ds @ rest"
    "offer stub (map FrameData ds) n1 = (all, n2)" "all \<longrightarrow> rest = []" using assms(2) by (auto simp: offered_def)
  then show ?thesis using assms(1,3) unfolding put_exchange_def by (intro exI [of _ ds]) simp
qed

lemma put_abandoned_sending:
  assumes "stub_put_write stub (FrameMetadata (request_metadata req)) n0 = (True, n1)" and "given_up_sending stub file n1 n'"
  shows "put_abandoned stub n0 req file n'"
proof -
  obtain ds rest n2 where "file = concat ds @ rest" "offer stub (map FrameData ds) n1 = (True, n2)"
    "n' = snd (stub_put_finish stub (stub_put_done stub (stub_cancel stub n2)))" using assms(2) by (auto simp: given_up_sending_def)
  then show ?thesis using assms(1) unfolding put_abandoned_def by (intro exI [of _ ds]) simp
qed

lemma Client_PutChunk_effect:
  assumes put: "GrpcDataPlaneClient_PutChunk P stub c ep req src s n = (st, s', n')"
  shows "quiet s s' \<and> sched_tail s s' \<and>
    ((st_code st = kIoError \<and> (smooth s \<longrightarrow> name_too_long src \<or> fs_dir (fsys s) src = None) \<and>
       (n' = n \<or> (\<exists>i. fs_dir (fsys s) src = Some i \<and>
          put_abandoned stub (stub_put_open stub (MakeStub_target ep) (deadline c) n) req (fs_data (fsys s) i) n'))) \<or>
     (\<exists>i. fs_dir (fsys s) src = Some i \<and>
        put_exchange stub (stub_put_open stub (MakeStub_target ep) (deadline c) n) req (fs_data (fsys s) i) st n'))"
proof -
  obtain fd s1 where o: "sys_open_rd src s = (fd, s1)" by fastforce
  let ?n0 = "stub_put_open stub (MakeStub_target ep) (deadline c) n"
  note put' = put [unfolded GrpcDataPlaneClient_PutChunk_def Let_def, folded request_metadata_def]
  show ?thesis
  proof (cases "0 \<le> fd")
    case False
    then show ?thesis
      using put' o sys_open_rd_cases [OF o] by (auto simp: ufd_destroy_make)
  next
    case fd: True
    with sys_open_rd_cases [OF o] obtain i where i: "fs_dir (fsys s) src = Some i"
      and top: "fd_top fd (OFile i 0) (fds s) s1" and s1: "fsys s1 = fsys s" "trace s1 = trace s" "sched_tail s s1"
      by auto
    have un: "unread fd s1 = fs_data (fsys s) i" using fd_top_lookup [OF top] s1 by (simp add: unread_def)
    obtain sent n1 where m: "stub_put_write stub (FrameMetadata (request_metadata req)) ?n0 = (sent, n1)" by fastforce
    obtain res s2 n2 where l: "client_put_loop P stub fd s1 n1 = (res, s2, n2)" by (metis surj_pair)
    note close = only_reads_close [OF _ fd s1] and c = client_put_loop_sends [OF l top, unfolded un]
    consider (refused) "\<not> sent" | (failed) lst where "sent" "res = Inl lst" | (finished) x where "sent" "res = Inr x" by (cases res) auto
    then show ?thesis
    proof cases
      case refused
      obtain g resp n2 where f: "stub_put_finish stub (stub_put_done stub n1) = ((g, resp), n2)" by (metis surj_pair)
      have r: "s' = ufd_destroy (ufd_make fd) s1" "st = FromGrpcStatus g" "n' = n2" using put' o fd m refused f by auto
      moreover have "only_reads fd i (fds s) s1 s1" using top by (auto simp: only_reads_def)
      ultimately show ?thesis using close i m refused put_exchange_refused [OF _ f] by auto
    next
      case (failed lst)
      then have r: "st = lst" "s' = ufd_destroy (ufd_make fd) s2" "n' = n2" using put' o fd m l by auto
      moreover have "\<not> smooth s" using c failed s1(3) sched_tail_smooth smooth_gentle by auto
      ultimately show ?thesis using c failed close [of i s2] i m put_abandoned_sending [of stub req ?n0 n1] by auto
    next
      case (finished x)
      obtain g resp n3 where f: "stub_put_finish stub (stub_put_done stub n2) = ((g, resp), n3)" by (metis surj_pair)
      have "st = (if grpc_ok g then FromRpcStatus (op_status resp) else FromGrpcStatus g)"
        "s' = ufd_destroy (ufd_make fd) s2" "n' = n3" using put' o fd m finished l f by auto
      then show ?thesis using close i c finished put_exchange_sent [OF _ _ f] m by auto
    qed
  qed
qed

section \<open>Receiving a file\<close>

lemma client_WriteAll_eq: "client_WriteAll = WriteAll"
  by (simp add: client_WriteAll_def WriteAll_def fun_eq_iff)

text \<open>The file stands open at its end; the loop appends the messages that came.\<close>

lemma client_get_loop_phases:
  "client_get_loop P fd fr s = (st, s') \<Longrightarrow> writing f p fd t d s \<Longrightarrow>
     keeps (scratch f p) s s' \<and> sched_tail s s' \<and> (\<exists>d'. writing f p fd t d' s') \<and>
     (status_ok st \<longrightarrow> writing f p fd t (d @ concat fr) s') \<and>
     (gentle s \<and> length d + length (concat fr) < off_limit \<longrightarrow> status_ok st)"
proof (induction fr arbitrary: d s)
  case Nil
  then show ?case using writing_scratch by (auto simp: keeps_def)
next
  case (Cons b fr)
  obtain st1 s1 where w: "WriteAll P fd b s = (st1, s1)" by fastforce
  note p = writing_WriteAll [OF w Cons.prems(2)] and wst = WriteAll_status [OF w]
  have g: "status_ok st1" if "gentle s" "length d + length b < off_limit"
  proof -
    have e: "at_end fd (fs_next f) t s" "length (fs_data (fsys s) (fs_next f)) + length b < off_limit"
      using Cons.prems(2) that(2) by (simp_all add: writing_def)
    note gw = WriteAll_gentle [OF e(1) that(1) e(2), of P]
    obtain s2 where "WriteAll P fd b s = (Status_Ok, s2)" by (rule gw)
    with w show ?thesis by simp
  qed
  show ?case
  proof (cases "status_ok st1")
    case False
    then have "st = st1" "s' = s1" using Cons.prems(1) w by (auto simp: client_WriteAll_eq)
    then show ?thesis using False p wst g by auto
  next
    case True
    then have rec: "client_get_loop P fd fr s1 = (st, s')" using Cons.prems(1) w by (simp add: client_WriteAll_eq)
    note ih = Cons.IH [OF rec p(3) [OF True]]
    have t: "sched_tail s s1" using wst by blast
    have "keeps (scratch f p) s s'" using keeps_trans [OF p(1)] ih by blast
    moreover have "sched_tail s s'" using sched_tail_trans [OF t] ih by blast
    moreover have "gentle s1" if "gentle s" using sched_tail_gentle [OF t that] .
    ultimately show ?thesis using ih by simp
  qed
qed

text \<open>Closing the file and removing its name leaves a file system without the file, or with its rest.\<close>

lemma client_get_fail_scratch:
  assumes "\<exists>d. writing f p fd t d s" and "0 \<le> fd"
  shows "keeps (scratch f p) s (client_get_fail p (ufd_make fd) s) \<and> fds (client_get_fail p (ufd_make fd) s) = t \<and>
    sched_tail s (client_get_fail p (ufd_make fd) s)"
proof -
  obtain d where w: "writing f p fd t d s" using assms(1) by blast
  then obtain g where top: "fd_top fd g t s" using writing_top by blast
  let ?s1 = "s\<lparr>fds := t\<rparr>"
  have eq: "client_get_fail p (ufd_make fd) s = cleanup p ?s1"
    using assms(2) fd_top_close [OF top]
    by (simp add: client_get_fail_def cleanup_def ufd_reset_def ufd_destroy_def)
  have "scratch f p (fsys ?s1)" using writing_scratch [OF w] by simp
  from cleanup_scratch [OF this] cleanup_tail [of ?s1 p] show ?thesis
    unfolding eq by (simp add: keeps_def sched_tail_def)
qed

text \<open>Giving up, and finishing, after any part of the file has been written.\<close>

lemma client_get_gives_up:
  assumes "keeps (scratch f p) s s1" and "sched_tail s s1" and "\<exists>d. writing f p fd t d s1" and "0 \<le> fd"
  shows "keeps (scratch f p) s (client_get_fail p (ufd_make fd) s1) \<and> fds (client_get_fail p (ufd_make fd) s1) = t \<and>
    sched_tail s (client_get_fail p (ufd_make fd) s1)"
  using client_get_fail_scratch [OF assms(3,4)] keeps_trans [OF assms(1)] sched_tail_trans [OF assms(2)] by blast

lemma client_get_syncs:
  assumes "sys_fdatasync fd s = (rc, s1)" and w: "writing f p fd t d s" and "0 \<le> fd"
  defines "g \<equiv> temp_fs f p (Some (fs_next f)) d d" and "s' \<equiv> ufd_destroy (ufd_make fd) s1"
  shows "sched_tail s s1" and "rc \<noteq> 0 \<Longrightarrow> quiet s s1 \<and> \<not> smooth s"
    and "rc = 0 \<Longrightarrow> keeps (scratch f p) s s' \<and> fds s' = t \<and> fsys s' = g \<and> sched_tail s s' \<and> length d < off_limit"
proof -
  have top: "fd_top fd (OFile (fs_next f) (length d)) t s" and fs: "fsys s = temp_fs f p (Some (fs_next f)) d []"
    and len: "length d < off_limit" using w by (auto simp: writing_def at_end_def)
  note yc = sys_fdatasync_cases [OF assms(1) top]
  show tl: "sched_tail s s1" and "rc \<noteq> 0 \<Longrightarrow> quiet s s1 \<and> \<not> smooth s" using yc by auto
  show "keeps (scratch f p) s s' \<and> fds s' = t \<and> fsys s' = g \<and> sched_tail s s' \<and> length d < off_limit" if "rc = 0"
  proof -
    have c: "changes g s s1" using yc that fs by (simp add: g_def)
    have "fd_top fd (OFile (fs_next f) (length d)) t s1" using top c by (simp add: fd_top_def changes_def)
    then have "s' = s1\<lparr>fds := t\<rparr>" using ufd_destroy_top assms(3) by (simp add: s'_def)
    moreover have "keeps (scratch f p) s s1" using changes_keeps [OF c] scratch_temp_fs [OF len] by (simp add: g_def)
    ultimately show ?thesis using c tl len by (simp add: keeps_def changes_def sched_tail_def)
  qed
qed

text \<open>
  \<open>GetChunk\<close> gives back the descriptors and touches nothing but the destination. If it succeeds,
  the destination was free and holds exactly the messages of a call that ended with OK, on disk.
\<close>

definition get_call ::
  "'n WorkerStub \<Rightarrow> GrpcDataPlaneClient \<Rightarrow> WorkerEndpoint \<Rightarrow> GetChunkRequest \<Rightarrow> 'n \<Rightarrow> byte list list \<times> 'n" where
  "get_call stub c ep req n =
     stub_get_open stub (MakeStub_target ep) (deadline c)
       \<lparr>rget_chunk_id = chunk_id_value (get_chunk_id req), rget_offset = range_offset (get_range req),
        rget_size = range_size (get_range req)\<rparr> n"

definition get_exchange ::
  "'n WorkerStub \<Rightarrow> GrpcDataPlaneClient \<Rightarrow> WorkerEndpoint \<Rightarrow> GetChunkRequest \<Rightarrow> 'n \<Rightarrow>
     (byte list list \<times> GrpcStatus) \<times> 'n" where
  "get_exchange stub c ep req n =
     (case get_call stub c ep req n of (received, n) \<Rightarrow>
        (case stub_get_finish stub n of (g, n) \<Rightarrow> ((received, g), n)))"

lemma Client_GetChunk_effect:
  assumes get: "GrpcDataPlaneClient_GetChunk P stub c ep req dest s n = (st, s', n')"
  shows "fds s' = fds s \<and> sched_tail s s' \<and>
    (keeps (scratch (fsys s) dest) s s' \<or> (quiet s s' \<and> \<not> status_ok st)) \<and>
    (status_ok st \<longrightarrow> fs_dir (fsys s) dest = None \<and>
      (\<exists>fr g. get_exchange stub c ep req n = ((fr, g), n') \<and> grpc_ok g \<and> length (concat fr) < off_limit \<and>
         fsys s' = temp_fs (fsys s) dest (Some (fs_next (fsys s))) (concat fr) (concat fr))) \<and>
    (smooth s \<and> \<not> name_too_long dest \<and> fs_dir (fsys s) dest = None \<and>
       length (concat (fst (fst (get_exchange stub c ep req n)))) < off_limit \<longrightarrow>
     st = FromGrpcStatus (snd (fst (get_exchange stub c ep req n))) \<and> n' = snd (get_exchange stub c ep req n))"
proof -
  obtain fd s1 where o: "sys_open_excl dest s = (fd, s1)" by fastforce
  obtain fr n0 where x0: "get_call stub c ep req n = (fr, n0)" by fastforce
  obtain g n1 where fin: "stub_get_finish stub n0 = (g, n1)" by fastforce
  have x: "get_exchange stub c ep req n = ((fr, g), n1)" using x0 fin by (simp add: get_exchange_def)
  note get' = get [unfolded GrpcDataPlaneClient_GetChunk_def Let_def, folded get_call_def, unfolded x0]
  note oc = sys_open_excl_cases [OF o]
  show ?thesis
  proof (cases "0 \<le> fd")
    case False
    then have e: "s' = s1" "\<not> status_ok st" using get' o by (auto simp: ufd_destroy_make split: if_splits)
    then have "quiet s s'" "sched_tail s s'" using oc False by auto
    then show ?thesis using e(2) oc False by (auto simp: quiet_def)
  next
    case fd: True
    note w1 = open_excl_writing [OF o fd]
    obtain wst s2 where l: "client_get_loop P fd fr s1 = (wst, s2)" by fastforce
    note lp = client_get_loop_phases [OF l w1(1)]
    have t1: "sched_tail s s1" and free: "fs_dir (fsys s) dest = None" using oc fd by auto
    have t2: "sched_tail s s2" and k2: "keeps (scratch (fsys s) dest) s s2"
      using lp t1 sched_tail_trans keeps_trans [OF w1(2)] by blast+
    have wok: "smooth s \<and> length (concat fr) < off_limit \<longrightarrow> status_ok wst"
      using lp sched_tail_smooth [OF t1] smooth_gentle by auto
    show ?thesis
    proof (cases "status_ok wst \<and> grpc_ok g")
      case False
      have e: "\<not> status_ok st" "s' = client_get_fail dest (ufd_make fd) s2"
        using get' o fd l False fin by (auto split: if_splits prod.splits)
      have "status_ok wst \<longrightarrow> st = FromGrpcStatus g \<and> n' = n1" using get' o fd l False fin by auto
      then show ?thesis using client_get_gives_up [OF k2 t2 _ fd, of "fds s"] lp e x wok by simp
    next
      case True
      obtain rc s3 where y: "sys_fdatasync fd s2 = (rc, s3)" by fastforce
      have w2: "writing (fsys s) dest fd (fds s) (concat fr) s2" using lp True by simp
      note sy = client_get_syncs [OF y w2 fd] and t3 = sched_tail_trans [OF t2 client_get_syncs(1) [OF y w2 fd]]
      show ?thesis
      proof (cases "rc = 0")
        case False
        have "\<not> status_ok st" "s' = client_get_fail dest (ufd_make fd) s3" using get' o fd l True y False fin by auto
        moreover have "keeps (scratch (fsys s) dest) s s3" "\<exists>d. writing (fsys s) dest fd (fds s) d s3" "\<not> smooth s"
          using sy(2) [OF False] keeps_trans [OF k2] quiet_keeps writing_scratch [OF w2] writing_quiet [OF w2] sched_tail_smooth [OF t2] by blast+
        ultimately show ?thesis using client_get_gives_up [OF _ t3 _ fd] by blast
      next
        case ok: True
        have "st = Status_Ok" "s' = ufd_destroy (ufd_make fd) s3" "n' = n1" "st = FromGrpcStatus g"
          using get' o fd l True y ok fin by (auto simp: FromGrpcStatus_def)
        then show ?thesis
          using sy(3) [OF ok] keeps_trans [OF k2] sched_tail_trans [OF t2] free x True by auto
      qed
    qed
  qed
qed

section \<open>Statuses across the wire\<close>

text \<open>What a handler reports arrives unchanged, by either of the two ways.\<close>

lemma FromRpcStatus_SetStatus: "status_inv st \<Longrightarrow> FromRpcStatus (SetStatus st) = st"
  by (cases st; cases "st_code st")
    (simp_all add: FromRpcStatus_def SetStatus_def mk_Status_def status_inv_def Status_Ok_def Status_default_def)

lemma FromGrpcStatus_ToGrpcStatus: "status_inv st \<Longrightarrow> FromGrpcStatus (ToGrpcStatus st) = st"
  by (cases st; cases "st_code st")
    (simp_all add: FromGrpcStatus_def ToGrpcStatus_def grpc_ok_def Grpc_Ok_def mk_Status_def status_inv_def
      Status_Ok_def Status_default_def)

end
