(* ===== verification/Storage_Client.thy ===== *)
theory Storage_Client
  imports Data_Plane_Client
begin

text \<open>
  \<open>StorageClient\<close> (\<open>src/storage/client/storage_client.cpp\<close>): objects on top of a
  \<open>DataPlaneClient\<close>. \<open>Put\<close> hashes the source before it is sent; \<open>Get\<close> downloads under a
  temporary name, hashes what came, and only then links it to the destination.

  The client knows its data plane only through the virtual functions, so its theorems are proved
  once, inside a locale that says what these may do to local files, and hold for whatever the
  peer answers.
\<close>

section \<open>Definitions\<close>

definition kHashBufferSize :: nat where
  "kHashBufferSize = 1024 * 1024"

text \<open>The reading loop of \<open>HashFile\<close>: \<open>Inl\<close> is the status of a failed read.\<close>

function hash_loop ::
  "'h platform \<Rightarrow> int \<Rightarrow> 'h \<Rightarrow> u64 \<Rightarrow> os \<Rightarrow> (Status + u64 \<times> 'h) \<times> os" where
  "hash_loop P fd hasher total_size s =
     (case read_retry fd kHashBufferSize s of ((count, bytes), s') \<Rightarrow>
        if count < 0
        then (Inl (mk_Status kIoError (''read file failed: '' @ strerror P (os_errno s'))), s')
        else if count = 0 then (Inr (total_size, hasher), s')
        else hash_loop P fd (b3_update P hasher bytes) (total_size + word_of_int count) s')"
  by pat_completeness auto
termination
proof (relation "measure (\<lambda>(P, fd, hasher, total_size, s). length (unread fd s))", goal_cases)
  case 1
  show ?case by simp
next
  case (2 P fd hasher total_size s x s' count bytes)
  then have "read_retry fd kHashBufferSize s = ((count, bytes), s')" by simp
  from read_retry_unread [OF this] 2 show ?case by auto
qed

declare hash_loop.simps [simp del]

definition HashFile :: "'h platform \<Rightarrow> path \<Rightarrow> os \<Rightarrow> (u64 \<times> Checksum) StatusOr \<times> os" where
  "HashFile P path s =
     (case sys_open_rd path s of (raw, s) \<Rightarrow>
        (let fd = ufd_make raw in
          if \<not> ufd_valid fd
          then (StatusOr_error (mk_Status kIoError (''open file failed: '' @ strerror P (os_errno s))),
                ufd_destroy fd s)
          else (case hash_loop P (ufd_get fd) (b3_init P) 0 s of
                  (Inl status, s) \<Rightarrow> (StatusOr_error status, ufd_destroy fd s)
                | (Inr (total_size, hasher), s) \<Rightarrow>
                    (StatusOr_value
                       (total_size,
                        \<lparr>algorithm = kBlake3,
                         checksum_value = hex_bytes (b3_finalize P hasher BLAKE3_OUT_LEN)\<rparr>),
                     ufd_destroy fd s))))"

definition ToChunkId :: "ObjectId \<Rightarrow> ChunkId StatusOr" where
  "ToChunkId object_id =
     (if \<not> ObjectId_valid object_id
      then StatusOr_error (mk_Status kInvalidArgument ''object_id cannot be empty'')
      else StatusOr_value \<lparr>chunk_id_value = object_id_value object_id\<rparr>)"

text \<open>The members of a \<open>StorageClient\<close>: the data plane it uses and the worker it talks to.\<close>

record 'n StorageClient =
  data_plane :: "'n DataPlaneClient"
  worker :: WorkerEndpoint

definition StorageClient_Put ::
  "'h platform \<Rightarrow> 'n StorageClient \<Rightarrow> ObjectId \<Rightarrow> path \<Rightarrow> os \<Rightarrow> 'n \<Rightarrow> Status \<times> os \<times> 'n" where
  "StorageClient_Put P this object_id source s n =
     (case so_opt (ToChunkId object_id) of
        None \<Rightarrow> (so_status (ToChunkId object_id), s, n)
      | Some chunk_id \<Rightarrow>
          (case HashFile P source s of (hash, s) \<Rightarrow>
            (case so_opt hash of
               None \<Rightarrow> (so_status hash, s, n)
             | Some (file_size, checksum) \<Rightarrow>
                 dpc_PutChunk (data_plane this) (worker this)
                   \<lparr>put_chunk_id = chunk_id, expected_size = file_size, expected_checksum = checksum\<rparr>
                   source s n)))"

text \<open>The name beside the destination: process id and a number that every download takes anew.\<close>

definition get_temp_path :: "'h platform \<Rightarrow> path \<Rightarrow> u64 \<Rightarrow> path" where
  "get_temp_path P destination temp_id =
     path_append (path_parent destination)
       (path_filename destination @ ''.tmp.'' @ to_string_nat (getpid P) @ ''.'' @ to_string_nat (unat temp_id))"

text \<open>The second half of \<open>Get\<close>: compare what was downloaded with the metadata, then publish it.\<close>

definition get_publish ::
  "'h platform \<Rightarrow> HeadChunkResponse \<Rightarrow> path \<Rightarrow> path \<Rightarrow> os \<Rightarrow> Status \<times> os" where
  "get_publish P head temp destination s =
     (case HashFile P temp s of (hash, s) \<Rightarrow>
        if (case so_opt hash of
              None \<Rightarrow> True
            | Some (file_size, checksum) \<Rightarrow> file_size \<noteq> resp_size head \<or> checksum \<noteq> resp_checksum head)
        then ((if so_ok hash then mk_Status kCorruption ''download checksum mismatch'' else so_status hash),
              snd (sys_unlink temp s))
        else (case sys_link temp destination s of (rc, s) \<Rightarrow>
                if rc \<noteq> 0
                then (let link_error = os_errno s
                      in (mk_Status (if link_error = EEXIST then kAlreadyExists else kIoError)
                            (''commit destination failed: '' @ strerror P link_error),
                          snd (sys_unlink temp s)))
                else (Status_Ok, snd (sys_unlink temp s))))"

text \<open>
  \<open>Get\<close> reads and advances the counter \<open>next_temp_id\<close> of the process. \<open>std::filesystem::exists\<close>
  throws on every error but absence; \<open>Inl\<close> is that exception, which nothing on the way to the
  caller catches.
\<close>

definition StorageClient_Get ::
  "'h platform \<Rightarrow> 'n StorageClient \<Rightarrow> ObjectId \<Rightarrow> path \<Rightarrow> u64 \<Rightarrow> os \<Rightarrow> 'n \<Rightarrow> (errno + Status) \<times> u64 \<times> os \<times> 'n" where
  "StorageClient_Get P this object_id destination next_temp_id s n =
     (case so_opt (ToChunkId object_id) of
        None \<Rightarrow> (Inr (so_status (ToChunkId object_id)), next_temp_id, s, n)
      | Some chunk_id \<Rightarrow>
          (case path_exists destination s of
             (Inl e, s) \<Rightarrow> (Inl e, next_temp_id, s, n)
           | (Inr there, s) \<Rightarrow>
               if there
               then (Inr (mk_Status kAlreadyExists (''destination already exists: '' @ destination)),
                     next_temp_id, s, n)
               else (case dpc_HeadChunk (data_plane this) (worker this) \<lparr>head_chunk_id = chunk_id\<rparr> n of
                 (head, n) \<Rightarrow>
                   (case so_opt head of
                      None \<Rightarrow> (Inr (so_status head), next_temp_id, s, n)
                    | Some h \<Rightarrow>
                        (let temp = get_temp_path P destination next_temp_id;
                             next_temp_id = next_temp_id + 1
                         in (case path_exists temp s of
                               (Inl e, s) \<Rightarrow> (Inl e, next_temp_id, s, n)
                             | (Inr there, s) \<Rightarrow>
                                 if there
                                 then (Inr (mk_Status kAlreadyExists
                                              (''temporary destination already exists: '' @ temp)),
                                       next_temp_id, s, n)
                                 else (case dpc_GetChunk (data_plane this) (worker this)
                                              \<lparr>get_chunk_id = chunk_id,
                                               get_range = \<lparr>range_offset = 0, range_size = resp_size h\<rparr>\<rparr> temp s n of
                                   (status, s, n) \<Rightarrow>
                                     if \<not> status_ok status
                                     then (Inr status, next_temp_id, snd (sys_unlink temp s), n)
                                     else (case get_publish P h temp destination s of
                                             (status, s) \<Rightarrow> (Inr status, next_temp_id, s, n)))))))))"

definition StorageClient_Head ::
  "'n StorageClient \<Rightarrow> ObjectId \<Rightarrow> 'n \<Rightarrow> HeadChunkResponse StatusOr \<times> 'n" where
  "StorageClient_Head this object_id n =
     (case so_opt (ToChunkId object_id) of
        None \<Rightarrow> (StatusOr_error (so_status (ToChunkId object_id)), n)
      | Some chunk_id \<Rightarrow>
          dpc_HeadChunk (data_plane this) (worker this) \<lparr>head_chunk_id = chunk_id\<rparr> n)"

definition StorageClient_Delete :: "'n StorageClient \<Rightarrow> ObjectId \<Rightarrow> 'n \<Rightarrow> Status \<times> 'n" where
  "StorageClient_Delete this object_id n =
     (case so_opt (ToChunkId object_id) of
        None \<Rightarrow> (so_status (ToChunkId object_id), n)
      | Some chunk_id \<Rightarrow>
          dpc_DeleteChunk (data_plane this) (worker this) \<lparr>delete_chunk_id = chunk_id\<rparr> n)"

section \<open>HashFile\<close>

text \<open>The loop hashes what is left to read, in order, and counts it modulo \<open>2^64\<close>.\<close>

lemma hash_loop_reads:
  assumes "hash_loop P fd h c s = (res, s')" and "fd_top fd (OFile i pos) t s"
  shows "only_reads fd i t s s' \<and>
    (case res of
       Inl st \<Rightarrow> st_code st = kIoError \<and> \<not> gentle s
     | Inr (c', h') \<Rightarrow> (\<exists>ds. concat ds = unread fd s \<and> h' = foldl (b3_update P) h ds \<and>
         c' = c + word_of_nat (length (unread fd s))))"
  using assms
proof (induction P fd h c s arbitrary: pos rule: hash_loop.induct)
  case (1 P fd h c s)
  note unf = hash_loop.simps [of P fd h c s]
  obtain r b s1 where rd: "read_retry fd kHashBufferSize s = ((r, b), s1)" by (metis surj_pair)
  note f = read_retry_frame [OF rd "1.prems"(2)] and u = read_retry_unread [OF rd]
  obtain pos1 where top: "fd_top fd (OFile i pos1) t s1" using f by (auto simp: only_reads_def)
  consider (fail) "r < 0" | (eof) "r = 0" | (data) "r > 0" by linarith
  then show ?case
  proof cases
    case fail
    then have "\<not> gentle s" using read_retry_gentle [OF rd "1.prems"(2)] by linarith
    with fail show ?thesis using "1.prems"(1) rd f by (auto simp: unf)
  next
    case eof
    then have "unread fd s = []" using u by (auto simp: kHashBufferSize_def)
    moreover have "res = Inr (c, h)" "s' = s1" using "1.prems"(1) rd eof by (auto simp: unf)
    ultimately show ?thesis using f by (auto intro!: exI [of _ "[] :: byte list list"])
  next
    case data
    then have b: "unread fd s = b @ unread fd s1" "r = int (length b)" using u by auto
    have rec: "hash_loop P fd (b3_update P h b) (c + word_of_int r) s1 = (res, s')"
      using "1.prems"(1) rd data by (simp add: unf)
    note ih = "1.IH" [OF rd [symmetric] refl _ _ rec top]
    have o: "only_reads fd i t s s'" using ih data only_reads_trans [OF f] by simp
    show ?thesis
    proof (cases res)
      case (Inl st)
      then show ?thesis using ih data o f sched_tail_gentle [of s s1] by (auto simp: only_reads_def)
    next
      case (Inr y)
      obtain c' h' where y: "y = (c', h')" by fastforce
      obtain ds where ds: "concat ds = unread fd s1" "h' = foldl (b3_update P) (b3_update P h b) ds"
        "c' = c + word_of_int r + word_of_nat (length (unread fd s1))"
        using ih data Inr y by auto
      have "concat (b # ds) = unread fd s \<and> h' = foldl (b3_update P) h (b # ds) \<and>
        c' = c + word_of_nat (length (unread fd s))"
        using ds b by (simp add: add.assoc)
      with o Inr y show ?thesis by (simp only: sum.case prod.case) blast
    qed
  qed
qed

text \<open>The size and digest of a file.\<close>

definition file_digest :: "'h platform \<Rightarrow> byte list \<Rightarrow> u64 \<times> Checksum" where
  "file_digest P d = (word_of_nat (length d), blake3_checksum P d)"

text \<open>Why \<open>HashFile\<close> may fail: not at all if the name is fine and the schedule has no failure.\<close>

definition hash_errs :: "path \<Rightarrow> os \<Rightarrow> StatusCode set" where
  "hash_errs p s = (if smooth s \<and> \<not> name_too_long p \<and> fs_dir (fsys s) p \<noteq> None then {} else {kIoError})"

lemma HashFile_reads:
  assumes hf: "HashFile P p s = (res, s')" and laws: "blake3_laws P"
  shows "reads s res s'
    (\<lambda>v. \<exists>i. fs_dir (fsys s) p = Some i \<and> v = file_digest P (fs_data (fsys s) i)) (hash_errs p s)"
proof -
  obtain fd s1 where o: "sys_open_rd p s = (fd, s1)" by fastforce
  note hf' = hf [unfolded HashFile_def Let_def]
  show ?thesis
  proof (cases "0 \<le> fd")
    case False
    then have r: "res = StatusOr_error (mk_Status kIoError (''open file failed: '' @ strerror P (os_errno s1)))" "s' = s1"
      using hf' o by (auto simp: ufd_destroy_make)
    show ?thesis
      unfolding r by (rule reads_error) (use sys_open_rd_cases [OF o] False in \<open>auto simp: hash_errs_def\<close>)
  next
    case fd: True
    with sys_open_rd_cases [OF o] obtain i where i: "fs_dir (fsys s) p = Some i"
      and top: "fd_top fd (OFile i 0) (fds s) s1" and s1: "fsys s1 = fsys s" "trace s1 = trace s" "sched_tail s s1"
      by auto
    have un: "unread fd s1 = fs_data (fsys s) i" using fd_top_lookup [OF top] s1 by (simp add: unread_def)
    obtain lr s2 where l: "hash_loop P fd (b3_init P) 0 s1 = (lr, s2)" by fastforce
    note h = hash_loop_reads [OF l top]
    then have close: "quiet s (ufd_destroy (ufd_make fd) s2)" "sched_tail s (ufd_destroy (ufd_make fd) s2)"
      using only_reads_close [OF _ fd s1] by blast+
    have s': "s' = ufd_destroy (ufd_make fd) s2" using hf' o fd l by (auto split: sum.splits)
    show ?thesis
    proof (cases lr)
      case (Inl st)
      then have "\<not> smooth s" using h s1(3) sched_tail_smooth smooth_gentle by auto
      moreover have "res = StatusOr_error st" using hf' o fd l Inl by auto
      ultimately show ?thesis
        using h Inl close s' by (simp add: reads_def hash_errs_def status_ok_def StatusOr_error_status)
    next
      case (Inr y)
      obtain c hh where y: "y = (c, hh)" by fastforce
      obtain ds where ds: "concat ds = fs_data (fsys s) i" "hh = foldl (b3_update P) (b3_init P) ds"
        "c = word_of_nat (length (fs_data (fsys s) i))"
        using h Inr y un by auto
      have "hex_bytes (b3_finalize P hh BLAKE3_OUT_LEN) = blake3_hex P (fs_data (fsys s) i)"
        using blake3_FinalizeHex [OF laws, of ds] ds by (simp add: FinalizeHex_def)
      then have "res = StatusOr_value (file_digest P (fs_data (fsys s) i))"
        using hf' o fd l Inr y ds(3) by (simp add: file_digest_def blake3_checksum_def)
      with close s' i show ?thesis by (auto intro: reads_value)
    qed
  qed
qed

section \<open>Names\<close>

lemma path_filename_no_slash: "slash \<notin> set (path_filename p)"
  unfolding path_filename_def by (auto dest: set_takeWhileD)

lemma path_filename_temp:
  "path_filename (get_temp_path P dest k) =
     path_filename dest @ ''.tmp.'' @ to_string_nat (getpid P) @ ''.'' @ to_string_nat (unat k)"
proof -
  have "slash \<notin> set (to_string_nat n)" for n
    using to_string_nat_digits [of n] digit_not_slash by (auto simp: list_all_iff)
  then show ?thesis
    unfolding get_temp_path_def
    by (intro path_filename_append) (use path_filename_no_slash [of dest] in \<open>auto simp: slash_def\<close>)
qed

text \<open>The temporary name is never the destination.\<close>

lemma get_temp_neq: "get_temp_path P dest k \<noteq> dest"
proof
  assume "get_temp_path P dest k = dest"
  then have "length (path_filename (get_temp_path P dest k)) = length (path_filename dest)" by simp
  then show False unfolding path_filename_temp by simp
qed

lemma path_exists_cases:
  assumes "path_exists p s = (r, s')"
  shows "quiet s s' \<and> sched_tail s s' \<and>
    (smooth s \<and> \<not> name_too_long p \<longrightarrow> r = Inr (fs_dir (fsys s) p \<noteq> None \<or> p \<in> fs_dirs (fsys s)))"
proof -
  obtain x s1 where n: "next_outcome s = (x, s1)"
    and q: "quiet s s1" "sched_tail s s1" "smooth s \<Longrightarrow> smooth_outcome x"
    using take_outcome [of s] by blast
  then show ?thesis
    using assms by (auto simp: path_exists_def smooth_outcome_def quiet_def split: outcome.splits if_splits)
qed

section \<open>The interface\<close>

text \<open>
  What a data plane client may do to local files, and that its \<open>StatusOr\<close> is well-formed. A download
  that succeeds has put the bytes \<open>d\<close> that the peer sent (\<open>fetch\<close>), synchronised, into a new file
  under a name that was free; one that fails may have left that file behind, and nothing else.
\<close>

locale data_plane_client =
  fixes dp :: "'n DataPlaneClient"
    and fetch :: "WorkerEndpoint \<Rightarrow> GetChunkRequest \<Rightarrow> 'n \<Rightarrow> byte list \<Rightarrow> 'n \<Rightarrow> bool"
  assumes head_law: "statusor_inv (fst (dpc_HeadChunk dp ep hreq n))"
    and put_law: "dpc_PutChunk dp ep preq src s n = (st, s', n') \<Longrightarrow> quiet s s' \<and> sched_tail s s'"
    and get_law: "dpc_GetChunk dp ep greq dest s n = (st, s', n') \<Longrightarrow>
      fds s' = fds s \<and> sched_tail s s' \<and>
      (keeps (scratch (fsys s) dest) s s' \<or> (quiet s s' \<and> \<not> status_ok st)) \<and>
      (status_ok st \<longrightarrow> fs_dir (fsys s) dest = None \<and>
        (\<exists>d. fetch ep greq n d n' \<and> length d < off_limit \<and>
          fsys s' = temp_fs (fsys s) dest (Some (fs_next (fsys s))) d d))"

text \<open>Over gRPC these are the messages of a call that ended with OK.\<close>

definition grpc_fetch ::
  "'n WorkerStub \<Rightarrow> GrpcDataPlaneClient \<Rightarrow> WorkerEndpoint \<Rightarrow> GetChunkRequest \<Rightarrow> 'n \<Rightarrow> byte list \<Rightarrow> 'n \<Rightarrow> bool" where
  "grpc_fetch stub c ep req n d n' \<longleftrightarrow>
     (\<exists>fr g. get_exchange stub c ep req n = ((fr, g), n') \<and> grpc_ok g \<and> d = concat fr)"

interpretation gdp: data_plane_client "GrpcDataPlaneClient_vtable P stub c" "grpc_fetch stub c" for P stub c
proof
  show "statusor_inv (fst (dpc_HeadChunk (GrpcDataPlaneClient_vtable P stub c) ep hreq n))" for ep hreq n
    by (simp add: GrpcDataPlaneClient_vtable_def GrpcDataPlaneClient_HeadChunk_def Let_def split: prod.splits)
next
  show "quiet s s' \<and> sched_tail s s'"
    if "dpc_PutChunk (GrpcDataPlaneClient_vtable P stub c) ep preq src s n = (st, s', n')" for ep preq src s n st s' n'
    using Client_PutChunk_effect that by (fastforce simp: GrpcDataPlaneClient_vtable_def)
next
  fix ep greq dest s n st s' n'
  assume "dpc_GetChunk (GrpcDataPlaneClient_vtable P stub c) ep greq dest s n = (st, s', n')"
  then have "GrpcDataPlaneClient_GetChunk P stub c ep greq dest s n = (st, s', n')"
    by (simp add: GrpcDataPlaneClient_vtable_def)
  from Client_GetChunk_effect [OF this]
  show "fds s' = fds s \<and> sched_tail s s' \<and>
      (keeps (scratch (fsys s) dest) s s' \<or> (quiet s s' \<and> \<not> status_ok st)) \<and>
      (status_ok st \<longrightarrow> fs_dir (fsys s) dest = None \<and>
        (\<exists>d. grpc_fetch stub c ep greq n d n' \<and> length d < off_limit \<and>
          fsys s' = temp_fs (fsys s) dest (Some (fs_next (fsys s))) d d))"
    unfolding grpc_fetch_def by blast
qed

section \<open>Get\<close>

text \<open>
  The second half of \<open>Get\<close>, from a downloaded file \<open>d\<close> on: as in the store, the file is published
  with \<open>link\<close>, so the predicates on a \<open>Put\<close> of the store describe it as well.
\<close>

lemma committed_data: "committed f p final d g \<Longrightarrow> fs_data g (fs_next f) = d"
  by (auto simp: committed_def)

lemma link_and_cleanup:
  assumes l: "sys_link p dest s = (rc, s1)" and f: "fsys s = temp_fs f p (Some (fs_next f)) d d"
    and len: "length d < off_limit" and ne: "p \<noteq> dest"
  shows "fds (cleanup p s1) = fds s" and "sched_tail s (cleanup p s1)"
    and "rc \<noteq> 0 \<Longrightarrow> keeps (scratch f p) s (cleanup p s1) \<and>
      (smooth s \<and> \<not> name_too_long p \<and> \<not> name_too_long dest \<longrightarrow> os_errno s1 = EEXIST \<and> fs_dir f dest \<noteq> None)"
    and "rc = 0 \<Longrightarrow> fs_dir f dest = None \<and> keeps (put_moment f p dest d) s (cleanup p s1) \<and>
      committed f p dest d (fsys (cleanup p s1))"
proof -
  note lc = sys_link_cases [OF l]
  have dir: "fs_dir (fsys s) p = Some (fs_next f)" "fs_dir (fsys s) dest = fs_dir f dest" using f ne by simp_all
  show "sched_tail s (cleanup p s1)" using lc sched_tail_trans [OF _ cleanup_tail] by blast
  have bad: "keeps (scratch f p) s (cleanup p s1) \<and> fds (cleanup p s1) = fds s" if "rc \<noteq> 0"
  proof -
    have q: "quiet s s1" using lc that by blast
    have "scratch f p (fsys s1)" using q f len by (simp add: quiet_def scratch_temp_fs)
    with cleanup_scratch [OF this] q show ?thesis by (simp add: keeps_def quiet_def)
  qed
  have good: "fs_dir f dest = None \<and> keeps (put_moment f p dest d) s (cleanup p s1) \<and>
      committed f p dest d (fsys (cleanup p s1)) \<and> fds (cleanup p s1) = fds s" if "rc = 0"
  proof -
    have ch: "changes (rebind dest (Some (fs_next f)) (fsys s)) s s1"
      and free: "fs_dir f dest = None" using lc dir that by auto
    have c: "committed f p dest d (fsys s1)" using committed_link [OF f len free ne] ch by (simp add: changes_def)
    note cl = cleanup_committed [OF c ne]
    have "keeps (put_moment f p dest d) s s1" using c ch by (auto simp: keeps_def changes_def put_moment_def)
    moreover have "keeps (put_moment f p dest d) s1 (cleanup p s1)"
      using cl(1) by (rule keeps_mono) (simp add: put_moment_def)
    ultimately have "keeps (put_moment f p dest d) s (cleanup p s1)" by (rule keeps_trans)
    with cl(2) ch free keeps_last [OF cl(1)] show ?thesis by (simp add: changes_def)
  qed
  show "fds (cleanup p s1) = fds s" using bad good by blast
  show "rc \<noteq> 0 \<Longrightarrow> keeps (scratch f p) s (cleanup p s1) \<and>
      (smooth s \<and> \<not> name_too_long p \<and> \<not> name_too_long dest \<longrightarrow> os_errno s1 = EEXIST \<and> fs_dir f dest \<noteq> None)"
    using bad lc dir by auto
  show "rc = 0 \<Longrightarrow> fs_dir f dest = None \<and> keeps (put_moment f p dest d) s (cleanup p s1) \<and>
      committed f p dest d (fsys (cleanup p s1))"
    using good by blast
qed

lemma get_publish_phases:
  assumes gp: "get_publish P h p dest s = (st, s')" and laws: "blake3_laws P"
    and f: "fsys s = temp_fs f p (Some (fs_next f)) d d" and len: "length d < off_limit" and ne: "p \<noteq> dest"
  shows "fds s' = fds s \<and> sched_tail s s' \<and>
    ((\<not> status_ok st \<and> keeps (scratch f p) s s') \<or>
     (st = Status_Ok \<and> fs_dir f dest = None \<and> file_digest P d = (resp_size h, resp_checksum h) \<and>
      keeps (put_moment f p dest d) s s' \<and> committed f p dest d (fsys s'))) \<and>
    (smooth s \<and> \<not> name_too_long p \<and> \<not> name_too_long dest \<longrightarrow>
       st_code st = (if file_digest P d \<noteq> (resp_size h, resp_checksum h) then kCorruption
                     else if fs_dir f dest = None then kOk else kAlreadyExists))"
proof -
  obtain hash s1 where hf: "HashFile P p s = (hash, s1)" by fastforce
  note r = HashFile_reads [OF hf laws]
  note gp' = gp [unfolded get_publish_def hf, simplified]
  have q: "quiet s s1" and t1: "sched_tail s s1" using readsD(1,2) [OF r] .
  have f1: "fsys s1 = temp_fs f p (Some (fs_next f)) d d" using q f by (simp add: quiet_def)
  have sc: "scratch f p (fsys s1)" using f1 len by (simp add: scratch_temp_fs)
  have k1: "keeps (scratch f p) s s1" using sc q by (simp add: keeps_def quiet_def)
  have val: "so_opt hash = Some v \<Longrightarrow> v = file_digest P d" for v using readsD(4) [OF r] f by simp
  have err: "so_opt hash = None \<Longrightarrow> \<not> status_ok (so_status hash) \<and> (smooth s \<longrightarrow> name_too_long p)"
    using readsD(3,5) [OF r] f by (auto simp: statusor_inv_def so_ok_def hash_errs_def split: if_splits)
  show ?thesis
  proof (cases "so_opt hash = Some (resp_size h, resp_checksum h)")
    case False
    then have e: "s' = cleanup p s1" "\<not> status_ok st"
      "st = (if so_ok hash then mk_Status kCorruption ''download checksum mismatch'' else so_status hash)"
      using gp' err by (auto simp: cleanup_def so_ok_def split: option.splits if_splits)
    have "so_ok hash \<Longrightarrow> file_digest P d \<noteq> (resp_size h, resp_checksum h)"
      using val False by (auto simp: so_ok_def)
    moreover have "keeps (scratch f p) s s'" "fds s' = fds s" "sched_tail s s'"
      using e(1) cleanup_scratch [OF sc] keeps_trans [OF k1] q sched_tail_trans [OF t1 cleanup_tail]
      by (auto simp: quiet_def)
    ultimately show ?thesis using e(2,3) err by (cases "so_opt hash") (auto simp: so_ok_def)
  next
    case True
    then have dig: "file_digest P d = (resp_size h, resp_checksum h)" using val by metis
    obtain rc s2 where l: "sys_link p dest s1 = (rc, s2)" by fastforce
    note lc = link_and_cleanup [OF l f1 len ne]
    have st: "s' = cleanup p s2" "rc = 0 \<Longrightarrow> st = Status_Ok"
      "rc \<noteq> 0 \<Longrightarrow> st_code st = (if os_errno s2 = EEXIST then kAlreadyExists else kIoError)"
      using gp' True l by (auto simp: cleanup_def Let_def split: if_splits)
    have "fds s' = fds s" "sched_tail s s'" using st(1) lc(1) q sched_tail_trans [OF t1 lc(2)] by (simp_all add: quiet_def)
    moreover have "keeps (scratch f p) s s'" if "rc \<noteq> 0" using lc(3) [OF that] keeps_trans [OF k1] st(1) by blast
    moreover have "keeps (put_moment f p dest d) s s'" if "rc = 0"
      using lc(4) [OF that] k1 st(1) keeps_mono [OF k1, of "put_moment f p dest d"] keeps_trans
      by (auto simp: put_moment_def)
    ultimately show ?thesis
      using dig st lc(3,4) sched_tail_smooth [OF t1] by (cases "rc = 0") (auto simp: status_ok_def)
  qed
qed

text \<open>
  A file system seen during a \<open>Get\<close> that does not publish: only the temporary name and the inode
  made for it differ. A \<open>Get\<close> also removes the name when it could not make the file.
\<close>

definition only_temp :: "fs \<Rightarrow> path \<Rightarrow> fs \<Rightarrow> bool" where
  "only_temp f p g \<longleftrightarrow> g = f \<or> scratch f p g \<or> g = rebind p None f"

lemma only_temp_frame:
  "only_temp f p g \<Longrightarrow> q \<noteq> p \<Longrightarrow> fs_dir g q = fs_dir f q"
  "only_temp f p g \<Longrightarrow> i < fs_next f \<Longrightarrow> fs_data g i = fs_data f i"
  by (auto simp: only_temp_def scratch_def)

lemma quiet_only_temp: "quiet s s' \<Longrightarrow> keeps (only_temp (fsys s) p) s s'"
  by (simp add: keeps_def quiet_def only_temp_def)

lemma cleanup_only_temp:
  assumes "keeps (scratch (fsys s) p) s s1 \<or> quiet s s1"
  shows "keeps (only_temp (fsys s) p) s (cleanup p s1)" and "fds (cleanup p s1) = fds s1"
proof -
  have "keeps (only_temp (fsys s) p) s (cleanup p s1) \<and> fds (cleanup p s1) = fds s1"
  proof (cases "quiet s s1")
    case True
    then have f: "fsys s1 = fsys s" "trace s1 = trace s" by (simp_all add: quiet_def)
    show ?thesis
      by (rule cleanup_cases [of s1 p])
        (simp_all add: f quiet_def changes_def keeps_def only_temp_def)
  next
    case False
    then have k: "keeps (scratch (fsys s) p) s s1" using assms by blast
    note c = cleanup_scratch [OF keeps_last [OF k]]
    show ?thesis using keeps_mono [OF keeps_trans [OF k c(1)]] c(2) by (auto simp: only_temp_def)
  qed
  then show "keeps (only_temp (fsys s) p) s (cleanup p s1)" "fds (cleanup p s1) = fds s1" by auto
qed

text \<open>\<open>Get\<close> once its guards have let it pass.\<close>

lemma Get_passed:
  assumes "ObjectId_valid oid" and "cid = \<lparr>chunk_id_value = object_id_value oid\<rparr>"
    and "path_exists dest s = (Inr False, s1)"
    and "dpc_HeadChunk dp ep \<lparr>head_chunk_id = cid\<rparr> n = (h, n1)" and "so_opt h = Some v"
    and "path_exists (get_temp_path P dest k) s1 = (Inr False, s2)"
    and "dpc_GetChunk dp ep \<lparr>get_chunk_id = cid, get_range = \<lparr>range_offset = 0, range_size = resp_size v\<rparr>\<rparr>
           (get_temp_path P dest k) s2 n1 = (st, s3, n2)"
  shows "StorageClient_Get P \<lparr>data_plane = dp, worker = ep\<rparr> oid dest k s n =
    (if status_ok st
     then case get_publish P v (get_temp_path P dest k) dest s3 of (st, s4) \<Rightarrow> (Inr st, k + 1, s4, n2)
     else (Inr st, k + 1, cleanup (get_temp_path P dest k) s3, n2))"
  using assms by (simp add: StorageClient_Get_def ToChunkId_def cleanup_def)

text \<open>What the calls of the data plane keep of the network, a \<open>Get\<close> keeps.\<close>

lemma Get_network:
  assumes "StorageClient_Get P \<lparr>data_plane = dp, worker = ep\<rparr> oid dest k s n = (res, k', s', n')" and "J n"
    and "\<And>req n. J n \<Longrightarrow> J (snd (dpc_HeadChunk dp ep req n))"
    and "\<And>req p s n. J n \<Longrightarrow> J (snd (snd (dpc_GetChunk dp ep req p s n)))"
  shows "J n'"
proof -
  have h: "J n1" if "dpc_HeadChunk dp ep req n = (h, n1)" for req h n1
    using assms(3) [OF assms(2), of req] that by simp
  have g: "J n2" if "J n1" "dpc_GetChunk dp ep req p s1 n1 = (st, s2, n2)" for req p s1 n1 st s2 n2
    using assms(4) [OF that(1), of req p s1] that(2) by simp
  show ?thesis
    using assms(1,2)
    by (auto simp: StorageClient_Get_def Let_def split: option.splits sum.splits if_splits prod.splits)
      (blast intro: g h)+
qed

text \<open>
  The whole of \<open>Get\<close>, for any data plane and any peer: the moments between are those of a file
  that is written beside the destination, or of one linked to it complete.
\<close>

context data_plane_client
begin

lemma storage_get:
  assumes get: "StorageClient_Get P \<lparr>data_plane = dp, worker = ep\<rparr> oid dest k s n = (res, k', s', n')"
    and laws: "blake3_laws P"
  defines "p \<equiv> get_temp_path P dest k" and "cid \<equiv> \<lparr>chunk_id_value = object_id_value oid\<rparr>"
  shows "fds s' = fds s \<and> sched_tail s s' \<and>
    (((\<forall>st. res = Inr st \<longrightarrow> \<not> status_ok st) \<and> keeps (only_temp (fsys s) p) s s') \<or>
     (\<exists>h n1 v d. res = Inr Status_Ok \<and> fs_dir (fsys s) dest = None \<and>
        dpc_HeadChunk dp ep \<lparr>head_chunk_id = cid\<rparr> n = (h, n1) \<and> so_opt h = Some v \<and>
        fetch ep \<lparr>get_chunk_id = cid, get_range = \<lparr>range_offset = 0, range_size = resp_size v\<rparr>\<rparr> n1 d n' \<and>
        file_digest P d = (resp_size v, resp_checksum v) \<and> length d < off_limit \<and>
        keeps (put_moment (fsys s) p dest d) s s' \<and> committed (fsys s) p dest d (fsys s')))"
proof -
  obtain r1 s1 where e1: "path_exists dest s = (r1, s1)" by fastforce
  obtain h n1 where hd: "dpc_HeadChunk dp ep \<lparr>head_chunk_id = cid\<rparr> n = (h, n1)" by fastforce
  obtain r2 s2 where e2: "path_exists p s1 = (r2, s2)" by fastforce
  have q1: "quiet s s1" "sched_tail s s1" using path_exists_cases [OF e1] by blast+
  then have q2: "quiet s s2" "sched_tail s s2"
    using path_exists_cases [OF e2] quiet_trans sched_tail_trans by blast+
  have hi: "so_opt h = None \<Longrightarrow> \<not> status_ok (so_status h)"
    using head_law [of ep "\<lparr>head_chunk_id = cid\<rparr>" n] hd by (simp add: statusor_inv_def so_ok_def)
  show ?thesis
  proof (cases "ObjectId_valid oid \<and> r1 = Inr False \<and> so_opt h \<noteq> None \<and> r2 = Inr False")
    case False
    have "(\<forall>st. res = Inr st \<longrightarrow> \<not> status_ok st) \<and> (s' = s \<or> s' = s1 \<or> s' = s2)"
      using get e1 hd e2 False hi
      by (auto simp: StorageClient_Get_def ToChunkId_def Let_def p_def cid_def split: option.splits sum.splits if_splits)
    then show ?thesis using q1 q2 quiet_only_temp [of s _ p] by (auto simp: quiet_def)
  next
    case True
    then obtain v where v: "so_opt h = Some v" by blast
    obtain st s3 n2 where g: "dpc_GetChunk dp ep \<lparr>get_chunk_id = cid,
        get_range = \<lparr>range_offset = 0, range_size = resp_size v\<rparr>\<rparr> p s2 n1 = (st, s3, n2)" by (metis surj_pair)
    have gl: "fds s3 = fds s2" "sched_tail s2 s3" "keeps (scratch (fsys s2) p) s2 s3 \<or> (quiet s2 s3 \<and> \<not> status_ok st)"
      "status_ok st \<Longrightarrow> \<exists>d. fetch ep \<lparr>get_chunk_id = cid, get_range = \<lparr>range_offset = 0, range_size = resp_size v\<rparr>\<rparr> n1 d n2 \<and>
        length d < off_limit \<and> fsys s3 = temp_fs (fsys s2) p (Some (fs_next (fsys s2))) d d"
      using get_law [OF g] by auto
    have f2: "fsys s2 = fsys s" "fds s2 = fds s" "trace s2 = trace s" using q2(1) by (simp_all add: quiet_def)
    have k3: "keeps (scratch (fsys s) p) s s3 \<or> quiet s s3"
      using gl(3) f2 by (auto simp: keeps_def quiet_def)
    have t3: "sched_tail s s3" using sched_tail_trans [OF q2(2) gl(2)] .
    note passed = Get_passed [of oid cid dest s s1 dp ep n h n1 v P k s2 st s3 n2, folded p_def]
    show ?thesis
    proof (cases "status_ok st")
      case False
      then have "res = Inr st" "s' = cleanup p s3"
        using get passed True e1 hd v e2 g by (auto simp: cid_def)
      then show ?thesis
        using False cleanup_only_temp [OF k3] gl(1) f2(2) sched_tail_trans [OF t3 cleanup_tail] by auto
    next
      case ok: True
      obtain d where d: "length d < off_limit" "fsys s3 = temp_fs (fsys s) p (Some (fs_next (fsys s))) d d"
        "fetch ep \<lparr>get_chunk_id = cid, get_range = \<lparr>range_offset = 0, range_size = resp_size v\<rparr>\<rparr> n1 d n2"
        using gl(4) [OF ok] f2 by auto
      obtain gst s4 where gp: "get_publish P v p dest s3 = (gst, s4)" by fastforce
      have r: "res = Inr gst" "s' = s4" "n' = n2" using get passed True e1 hd v e2 g ok gp by (auto simp: cid_def)
      note ph = get_publish_phases [OF gp laws d(2,1) get_temp_neq [of P dest k, folded p_def]]
      have k: "keeps (scratch (fsys s) p) s s3" using gl(3) ok f2 by (auto simp: keeps_def)
      have "fds s' = fds s" "sched_tail s s'" using ph gl(1) f2(2) r(2) sched_tail_trans [OF t3] by auto
      moreover have "keeps (only_temp (fsys s) p) s s'" if "keeps (scratch (fsys s) p) s3 s'"
        using keeps_mono [OF keeps_trans [OF k that]] by (simp add: only_temp_def)
      moreover have "keeps (put_moment (fsys s) p dest d) s s'" if "keeps (put_moment (fsys s) p dest d) s3 s'"
        using keeps_trans [OF keeps_mono [OF k] that] by (simp add: put_moment_def)
      ultimately show ?thesis using ph r hd v d(1,3) by auto
    qed
  qed
qed

text \<open>
  \<open>Put\<close> changes no local file, and what it announces to the peer is the size and digest of the
  file that it then hands over.
\<close>

lemma storage_put:
  assumes put: "StorageClient_Put P \<lparr>data_plane = dp, worker = ep\<rparr> oid src s n = (st, s', n')"
    and laws: "blake3_laws P"
  shows "quiet s s' \<and> sched_tail s s' \<and>
    ((\<not> status_ok st \<and> n' = n \<and> (ObjectId_valid oid \<longrightarrow> st_code st \<in> hash_errs src s)) \<or>
     (\<exists>i s1. ObjectId_valid oid \<and> fs_dir (fsys s) src = Some i \<and> quiet s s1 \<and> sched_tail s s1 \<and>
        dpc_PutChunk dp ep
          \<lparr>put_chunk_id = \<lparr>chunk_id_value = object_id_value oid\<rparr>,
           expected_size = word_of_nat (length (fs_data (fsys s) i)),
           expected_checksum = blake3_checksum P (fs_data (fsys s) i)\<rparr> src s1 n = (st, s', n')))"
proof (cases "ObjectId_valid oid")
  case False
  then show ?thesis using put by (auto simp: StorageClient_Put_def ToChunkId_def)
next
  case True
  obtain hash s1 where hf: "HashFile P src s = (hash, s1)" by fastforce
  note r = HashFile_reads [OF hf laws]
  note put' = put [unfolded StorageClient_Put_def hf]
  show ?thesis
  proof (cases "so_opt hash")
    case None
    then have "\<not> status_ok (so_status hash)" using readsD(3) [OF r] by (simp add: statusor_inv_def so_ok_def)
    moreover have "st = so_status hash" "s' = s1" "n' = n" using put' True None by (auto simp: ToChunkId_def)
    ultimately show ?thesis using readsD(1,2,5) [OF r] None by simp
  next
    case (Some v)
    then obtain i where i: "fs_dir (fsys s) src = Some i" "v = file_digest P (fs_data (fsys s) i)"
      using readsD(4) [OF r] by auto
    have pc: "dpc_PutChunk dp ep
          \<lparr>put_chunk_id = \<lparr>chunk_id_value = object_id_value oid\<rparr>,
           expected_size = word_of_nat (length (fs_data (fsys s) i)),
           expected_checksum = blake3_checksum P (fs_data (fsys s) i)\<rparr> src s1 n = (st, s', n')"
      using put' True Some i by (simp add: ToChunkId_def file_digest_def)
    show ?thesis
      using readsD(1,2) [OF r] put_law [OF pc] pc i True quiet_trans sched_tail_trans by blast
  qed
qed

end

end
