(* ===== verification/Wire_Strings.thy ===== *)
theory Wire_Strings
  imports Rpc_Services
begin

text \<open>
  Strings on the wire. The fields \<open>chunk_id\<close>, \<open>expected_checksum\<close>, \<open>checksum\<close> and \<open>message\<close> of
  \<open>proto/worker.proto\<close> and \<open>proto/common.proto\<close> have the type \<open>string\<close> of proto3, which holds UTF-8 only:
  a message with other bytes in such a field is sent, but its receiver cannot parse it. Here are
  the byte sequences that are UTF-8 (Unicode, table 3-7), and which messages can be parsed.
\<close>

section \<open>UTF-8\<close>

definition byte_in :: "nat \<Rightarrow> nat \<Rightarrow> char \<Rightarrow> bool" where
  "byte_in lo hi c \<longleftrightarrow> lo \<le> of_char c \<and> of_char c \<le> hi"

text \<open>What may follow a first byte: the admitted second bytes, and the number of bytes after them.\<close>

definition utf8_lead :: "char \<Rightarrow> (nat \<times> nat \<times> nat) option" where
  "utf8_lead c =
     (if byte_in 0xC2 0xDF c then Some (0x80, 0xBF, 0)
      else if byte_in 0xE0 0xE0 c then Some (0xA0, 0xBF, 1)
      else if byte_in 0xE1 0xEC c \<or> byte_in 0xEE 0xEF c then Some (0x80, 0xBF, 1)
      else if byte_in 0xED 0xED c then Some (0x80, 0x9F, 1)
      else if byte_in 0xF0 0xF0 c then Some (0x90, 0xBF, 2)
      else if byte_in 0xF1 0xF3 c then Some (0x80, 0xBF, 2)
      else if byte_in 0xF4 0xF4 c then Some (0x80, 0x8F, 2)
      else None)"

fun utf8_tail :: "nat \<Rightarrow> string \<Rightarrow> string option" where
  "utf8_tail 0 s = Some s"
| "utf8_tail (Suc k) [] = None"
| "utf8_tail (Suc k) (c # s) = (if byte_in 0x80 0xBF c then utf8_tail k s else None)"

text \<open>The rest of a string after its first code point, if that is well-formed.\<close>

definition utf8_point :: "char \<Rightarrow> string \<Rightarrow> string option" where
  "utf8_point c s =
     (if byte_in 0 0x7F c then Some s
      else case utf8_lead c of
             None \<Rightarrow> None
           | Some (lo, hi, k) \<Rightarrow>
               (case s of [] \<Rightarrow> None | d # s \<Rightarrow> if byte_in lo hi d then utf8_tail k s else None))"

lemma utf8_tail_shorter: "utf8_tail k s = Some s' \<Longrightarrow> length s' \<le> length s"
  by (induction k s rule: utf8_tail.induct) (auto split: if_splits)

lemma utf8_point_shorter: "utf8_point c s = Some s' \<Longrightarrow> length s' \<le> length s"
  by (auto simp: utf8_point_def split: if_splits option.splits list.splits dest!: utf8_tail_shorter intro: le_SucI)

function utf8 :: "string \<Rightarrow> bool" where
  "utf8 [] = True"
| "utf8 (c # s) = (case utf8_point c s of None \<Rightarrow> False | Some s' \<Rightarrow> utf8 s')"
  by pat_completeness auto
termination
  by (relation "measure length") (auto dest: utf8_point_shorter)

text \<open>Well-formed strings can be put together; ASCII is UTF-8.\<close>

lemma utf8_tail_append: "utf8_tail k s = Some s' \<Longrightarrow> utf8_tail k (s @ t) = Some (s' @ t)"
  by (induction k s rule: utf8_tail.induct) (auto split: if_splits)

lemma utf8_point_append: "utf8_point c s = Some s' \<Longrightarrow> utf8_point c (s @ t) = Some (s' @ t)"
  by (auto simp: utf8_point_def utf8_tail_append split: if_splits option.splits list.splits)

lemma utf8_append: "utf8 s \<Longrightarrow> utf8 (s @ t) \<longleftrightarrow> utf8 t"
  by (induction s rule: utf8.induct) (auto simp: utf8_point_append split: option.splits)

lemma utf8_ascii: "\<forall>c \<in> set s. byte_in 0 0x7F c \<Longrightarrow> utf8 s"
  by (induction s) (auto simp: utf8_point_def)

declare utf8.simps(2) [simp del]

lemma utf8_lower_hex: "\<forall>c \<in> set s. is_lower_hex c \<Longrightarrow> utf8 s"
  by (rule utf8_ascii) (auto simp: is_lower_hex_def is_digit_def byte_in_def)

lemma utf8_checksum: "status_ok (ValidateChecksum ck) \<Longrightarrow> utf8 (checksum_value ck)"
  by (simp add: ValidateChecksum_ok_iff utf8_lower_hex)

lemma utf8_digest: "utf8 (checksum_value (blake3_checksum P d))"
  by (simp add: blake3_checksum_def blake3_hex_def hex_bytes_lower_hex utf8_lower_hex)

section \<open>Messages that can be parsed\<close>

definition frame_parses :: "PutChunkFrame \<Rightarrow> bool" where
  "frame_parses f =
     (case f of FrameMetadata m \<Rightarrow> utf8 (meta_chunk_id m) \<and> utf8 (meta_expected_checksum m) | _ \<Rightarrow> True)"

definition operation_parses :: "OperationResponse \<Rightarrow> bool" where
  "operation_parses resp \<longleftrightarrow> utf8 (rpc_message (op_status resp))"

definition head_parses :: "RpcHeadChunkResponse \<Rightarrow> bool" where
  "head_parses resp \<longleftrightarrow>
     utf8 (rpc_message (rhead_status resp)) \<and> utf8 (rhead_chunk_id resp) \<and> utf8 (rhead_checksum resp)"

lemma frame_parses_simps [simp]:
  "frame_parses (FrameMetadata m) \<longleftrightarrow> utf8 (meta_chunk_id m) \<and> utf8 (meta_expected_checksum m)"
  "frame_parses (FrameData d)"
  by (simp_all add: frame_parses_def)

text \<open>The reader of the worker ends at the first frame that cannot be parsed.\<close>

lemma takeWhile_parses:
  "takeWhile frame_parses (FrameMetadata m # map FrameData ds) =
     (if frame_parses (FrameMetadata m) then FrameMetadata m # map FrameData ds else [])"
  by (simp add: takeWhile_eq_all_conv)

end
