(* ===== verification/Worker_Channel.thy ===== *)
theory Worker_Channel
  imports Storage_Client Wire_Strings "HOL-Library.Sublist"
begin

text \<open>
  The client and the worker together. The locale \<open>worker_channel\<close> says what gRPC promises about a
  connection to a worker: frames arrive in the order in which they were sent, a call that ends
  with OK was carried out by the worker on all that was sent, and a call that fails may have been
  carried out on a part of it, or not at all. The client's operations are proved correct over
  every such connection.

  The interpretation connects the client's stub to the worker's own handlers
  (\<open>src/rpc/services.cpp\<close>) over the file store, by a connection that follows a plan of
  disturbances: it may refuse frames, break after any number of frames, and lose answers.
\<close>

section \<open>The contract of a connection\<close>

text \<open>
  What an upload of the frames \<open>fs\<close> may do: nothing, or store the data frames that followed the
  metadata.
\<close>

definition uploaded ::
  "(byte list \<Rightarrow> Checksum) \<Rightarrow> PutChunkFrame list \<Rightarrow> chunk_view \<Rightarrow> chunk_view \<Rightarrow> bool" where
  "uploaded digest fs v v' \<longleftrightarrow>
     (\<exists>m ds. fs = FrameMetadata m # map FrameData ds \<and> put_stored digest (meta_request m) (concat ds) v v')"

lemma chunk_id_eta: "\<lparr>chunk_id_value = chunk_id_value x\<rparr> = (x :: ChunkId)"
  by simp

definition range_of_request :: "RpcGetChunkRequest \<Rightarrow> byte list \<Rightarrow> byte list" where
  "range_of_request req payload = take (unat (rget_size req)) (drop (unat (rget_offset req)) payload)"

locale worker_channel =
  fixes stub :: "'n WorkerStub"
    and view :: "'n \<Rightarrow> chunk_view"
    and sent :: "'n \<Rightarrow> PutChunkFrame list"
    and inv :: "'n \<Rightarrow> bool"
    and digest :: "byte list \<Rightarrow> Checksum"
  assumes open_law: "inv n \<Longrightarrow> n' = stub_put_open stub target dl n \<Longrightarrow>
      inv n' \<and> view n' = view n \<and> sent n' = []"
    and write_law: "inv n \<Longrightarrow> stub_put_write stub f n = (taken, n') \<Longrightarrow>
      inv n' \<and> view n' = view n \<and> sent n' = (if taken then sent n @ [f] else sent n)"
    and done_law: "inv n \<Longrightarrow> n' = stub_put_done stub n \<or> n' = stub_cancel stub n \<Longrightarrow>
      inv n' \<and> view n' = view n \<and> sent n' = sent n"
    and finish_law: "inv n \<Longrightarrow> stub_put_finish stub n = ((g, resp), n') \<Longrightarrow>
      inv n' \<and>
      (view n' = view n \<or> (\<exists>fs. prefix fs (sent n) \<and> uploaded digest fs (view n) (view n'))) \<and>
      (grpc_ok g \<longrightarrow> sent n \<noteq> [] \<and>
        (rpc_code (op_status resp) = STATUS_CODE_OK \<and> (\<exists>m ds. sent n = FrameMetadata m # map FrameData ds) \<longrightarrow>
           uploaded digest (sent n) (view n) (view n')))"
    and get_end_law: "inv n \<Longrightarrow> stub_get_finish stub n = (g, n') \<Longrightarrow> inv n' \<and> view n' = view n"
    and get_law: "inv n \<Longrightarrow> stub_get_open stub target dl req n = (received, n') \<Longrightarrow>
      inv n' \<and> view n' = view n \<and>
      (grpc_ok (fst (stub_get_finish stub n')) \<longrightarrow> (\<exists>c payload. view n \<lparr>chunk_id_value = rget_chunk_id req\<rparr> = Some (c, payload) \<and>
         unat (rget_offset req) + unat (rget_size req) \<le> length payload \<and>
         concat received = range_of_request req payload))"
    and head_law: "inv n \<Longrightarrow> stub_head stub target dl cid n = ((g, hresp), n') \<Longrightarrow>
      inv n' \<and> view n' = view n \<and>
      (grpc_ok g \<and> rpc_code (rhead_status hresp) = STATUS_CODE_OK \<longrightarrow>
         rhead_chunk_id hresp = cid \<and>
         (\<exists>payload. view n \<lparr>chunk_id_value = cid\<rparr> =
            Some (\<lparr>algorithm = kBlake3, checksum_value = rhead_checksum hresp\<rparr>, payload) \<and>
            unat (rhead_size hresp) = length payload))"
    and delete_law: "inv n \<Longrightarrow> stub_delete stub target dl cid n = ((g, resp), n') \<Longrightarrow>
      inv n' \<and>
      (view n' = view n \<or>
        (view n \<lparr>chunk_id_value = cid\<rparr> \<noteq> None \<and> view n' = (view n)(\<lparr>chunk_id_value = cid\<rparr> := None))) \<and>
      (grpc_ok g \<longrightarrow> (rpc_code (op_status resp) = STATUS_CODE_OK \<longleftrightarrow> view n \<lparr>chunk_id_value = cid\<rparr> \<noteq> None \<and>
         view n' = (view n)(\<lparr>chunk_id_value = cid\<rparr> := None)))"
begin

lemma offer_sent:
  "inv n \<Longrightarrow> offer stub fs n = (all, n') \<Longrightarrow>
     inv n' \<and> view n' = view n \<and> (\<exists>taken. prefix taken fs \<and> sent n' = sent n @ taken \<and> (all \<longrightarrow> taken = fs) \<and>
       (fs \<noteq> [] \<and> \<not> fst (stub_put_write stub (hd fs) n) \<longrightarrow> taken = []))"
proof (induction fs arbitrary: n)
  case Nil
  then show ?case by simp
next
  case (Cons f fs)
  obtain sent1 n1 where w: "stub_put_write stub f n = (sent1, n1)" by fastforce
  note l = write_law [OF Cons.prems(1) w]
  show ?case
  proof (cases sent1)
    case False
    then show ?thesis using Cons.prems(2) w l by auto
  next
    case True
    then have rec: "offer stub fs n1 = (all, n')" using Cons.prems(2) w by simp
    from l have i: "inv n1" by blast
    obtain taken where "prefix taken fs" "sent n' = sent n1 @ taken" "all \<longrightarrow> taken = fs" "inv n'" "view n' = view n1"
      using Cons.IH [OF i rec] by blast
    then show ?thesis using l True w by (auto intro!: exI [of _ "f # taken"])
  qed
qed

text \<open>
  An upload that announces the size of the file is all or nothing, even if the connection breaks or
  the answer is lost: a proper part of the file does not have the announced size.
\<close>

lemma uploaded_whole:
  assumes "uploaded digest fs v v'" and "prefix fs (FrameMetadata (request_metadata req) # map FrameData ds)"
    and "file = concat ds @ rest" and "unat (expected_size req) = length file"
  shows "put_stored digest req file v v'"
proof -
  obtain m ds' where fs: "fs = FrameMetadata m # map FrameData ds'"
    and p: "put_stored digest (meta_request m) (concat ds') v v'"
    using assms(1) by (auto simp: uploaded_def)
  from assms(2) fs have m: "m = request_metadata req" and "prefix (map FrameData ds') (map FrameData ds)" by auto
  then obtain more where "map FrameData ds = map FrameData ds' @ more" by (auto simp: prefix_def)
  then obtain us vs where "ds = us @ vs" "map FrameData ds' = map FrameData us" by (auto simp: map_eq_append_conv)
  moreover from this(2) have "ds' = us" by (simp add: inj_map_eq_map inj_def)
  ultimately have split: "file = concat ds' @ (concat vs @ rest)" using assms(3) by simp
  have p': "put_stored digest req (concat ds') v v'" using p m meta_request_metadata by simp
  then have "length (concat ds') = length file" using assms(4) by (simp add: put_stored_def)
  with split have "concat ds' = file" by simp
  with p' show ?thesis by simp
qed

text \<open>The end of a call after some frames were taken.\<close>

lemma finish_effect:
  assumes inv: "inv n" and taken: "prefix (sent n) (FrameMetadata (request_metadata req) # map FrameData ds)"
    and data: "file = concat ds @ rest" and size: "unat (expected_size req) = length file"
    and fin: "stub_put_finish stub n = ((g, resp), n')"
  shows "inv n' \<and> (view n' = view n \<or> put_stored digest req file (view n) (view n')) \<and>
    (grpc_ok g \<longrightarrow> sent n \<noteq> [] \<and>
      (rpc_code (op_status resp) = STATUS_CODE_OK \<longrightarrow> put_stored digest req file (view n) (view n')))"
proof -
  have "\<exists>m ds'. sent n = FrameMetadata m # map FrameData ds'" if "sent n \<noteq> []"
    using taken that by (cases "sent n") (auto simp: prefix_def map_eq_append_conv)
  then show ?thesis
    using finish_law [OF inv fin] uploaded_whole [OF _ _ data size] prefix_order.trans [OF _ taken] taken by blast
qed

text \<open>The sending of frames over a call just opened.\<close>

lemma offer_opened:
  assumes "offer stub (f # fs) (stub_put_open stub target dl n) = (all, n1)" and "inv n"
  shows "inv n1" and "view n1 = view n" and "prefix (sent n1) (f # fs)"
    and "\<not> fst (stub_put_write stub f (stub_put_open stub target dl n)) \<Longrightarrow> sent n1 = []"
  using offer_sent [OF _ assms(1)] open_law [OF assms(2) refl, of target dl] by auto

lemma put_exchange_effect:
  assumes ex: "put_exchange stub (stub_put_open stub target dl n) req file st n'" and inv: "inv n"
    and size: "unat (expected_size req) = length file"
  shows "inv n' \<and> ((\<not> status_ok st \<and> view n' = view n) \<or> put_stored digest req file (view n) (view n'))"
proof -
  define n0 where "n0 = stub_put_open stub target dl n"
  let ?m = "FrameMetadata (request_metadata req)"
  obtain ds rest all n1 g resp where data: "file = concat ds @ rest"
    and off: "offer stub (?m # map FrameData ds) n0 = (all, n1)"
    and fin: "stub_put_finish stub (stub_put_done stub n1) = ((g, resp), n')"
    and st: "st = (if grpc_ok g \<and> fst (stub_put_write stub ?m n0) then FromRpcStatus (op_status resp) else FromGrpcStatus g)"
    using ex unfolding put_exchange_def n0_def [symmetric] by blast
  note o = offer_opened [OF off [unfolded n0_def] inv, folded n0_def]
  have d: "inv (stub_put_done stub n1)" "view (stub_put_done stub n1) = view n" "sent (stub_put_done stub n1) = sent n1"
    using done_law [OF o(1)] o(2) by auto
  note f = finish_effect [OF d(1) _ data size fin, unfolded d(2,3), OF o(3)]
  have "put_stored digest req file (view n) (view n')" if "status_ok st"
    using that st f o(4) by (auto split: if_splits)
  with f show ?thesis by blast
qed

lemma put_abandoned_effect:
  assumes "put_abandoned stub (stub_put_open stub target dl n) req file n'" and inv: "inv n"
    and size: "unat (expected_size req) = length file"
  shows "inv n' \<and> (view n' = view n \<or> put_stored digest req file (view n) (view n'))"
proof -
  obtain ds rest n1 where data: "file = concat ds @ rest"
    and off: "offer stub (FrameMetadata (request_metadata req) # map FrameData ds) (stub_put_open stub target dl n) = (True, n1)"
    and n': "n' = snd (stub_put_finish stub (stub_put_done stub (stub_cancel stub n1)))"
    using assms(1) unfolding put_abandoned_def by blast
  note o = offer_opened [OF off inv]
  have c: "inv (stub_cancel stub n1)" "view (stub_cancel stub n1) = view n" "sent (stub_cancel stub n1) = sent n1"
    using done_law [OF o(1)] o(2) by auto
  let ?n2 = "stub_put_done stub (stub_cancel stub n1)"
  have d: "inv ?n2" "view ?n2 = view n" "sent ?n2 = sent n1" using done_law [OF c(1)] c(2,3) by auto
  obtain g resp where "stub_put_finish stub ?n2 = ((g, resp), n')" using n' by (metis prod.collapse)
  from finish_effect [OF d(1) _ data size this, unfolded d(2,3), OF o(3)] show ?thesis by blast
qed

text \<open>The client's calls that do not upload keep the chunks as they are.\<close>

lemma head_call_keeps:
  assumes "GrpcDataPlaneClient_HeadChunk stub c ep req n = (res, n')" and "inv n"
  shows "inv n' \<and> view n' = view n \<and>
    (\<forall>h. so_opt res = Some h \<longrightarrow> resp_chunk_id h = head_chunk_id req \<and>
       (\<exists>payload. view n (head_chunk_id req) = Some (resp_checksum h, payload) \<and> unat (resp_size h) = length payload))"
proof -
  obtain g hresp n1 where c: "stub_head stub (MakeStub_target ep) (deadline c) (chunk_id_value (head_chunk_id req)) n =
      ((g, hresp), n1)" by (metis surj_pair)
  show ?thesis
    using assms(1) c head_law [OF assms(2) c]
    by (auto simp: GrpcDataPlaneClient_HeadChunk_def Let_def chunk_id_eta split: if_splits)
qed

lemma get_call_keeps:
  assumes "GrpcDataPlaneClient_GetChunk P stub c ep req p s n = (st, s', n')" and "inv n"
  shows "inv n' \<and> view n' = view n"
proof -
  obtain fr n1 where x: "get_call stub c ep req n = (fr, n1)" by fastforce
  have l: "inv n1" "view n1 = view n" using get_law [OF assms(2) x [unfolded get_call_def]] by auto
  have c: "inv (stub_cancel stub n1)" "view (stub_cancel stub n1) = view n" using done_law [OF l(1)] l(2) by auto
  have "n' = n \<or> n' = snd (stub_get_finish stub n1) \<or> n' = snd (stub_get_finish stub (stub_cancel stub n1))"
    using assms(1) [unfolded GrpcDataPlaneClient_GetChunk_def Let_def, folded get_call_def, unfolded x]
    by (auto split: prod.splits if_splits)
  then show ?thesis
    using assms(2) l c get_end_law [OF l(1) surjective_pairing] get_end_law [OF c(1) surjective_pairing] by auto
qed

lemma fetch_call:
  assumes "grpc_fetch stub c ep \<lparr>get_chunk_id = cid, get_range = \<lparr>range_offset = 0, range_size = sz\<rparr>\<rparr> n d n'"
    and "inv n" and "view n cid = Some (ck, payload)" and "unat sz = length payload"
  shows "d = payload"
proof -
  obtain fr g where x: "get_exchange stub c ep \<lparr>get_chunk_id = cid, get_range = \<lparr>range_offset = 0, range_size = sz\<rparr>\<rparr> n =
      ((fr, g), n')" "grpc_ok g" "d = concat fr" using assms(1) by (auto simp: grpc_fetch_def)
  then obtain n1 where "get_call stub c ep \<lparr>get_chunk_id = cid, get_range = \<lparr>range_offset = 0, range_size = sz\<rparr>\<rparr> n = (fr, n1)"
    "stub_get_finish stub n1 = (g, n')" by (auto simp: get_exchange_def split: prod.splits)
  then show ?thesis
    using get_law [OF assms(2), of "MakeStub_target ep" "deadline c"] x(2,3) assms(3,4)
    by (fastforce simp: get_call_def range_of_request_def chunk_id_eta)
qed

abbreviation client :: "'h platform \<Rightarrow> GrpcDataPlaneClient \<Rightarrow> WorkerEndpoint \<Rightarrow> 'n StorageClient" where
  "client P c ep \<equiv> \<lparr>data_plane = GrpcDataPlaneClient_vtable P stub c, worker = ep\<rparr>"

text \<open>
  Uploading a file: the worker has all of it or nothing of it, whatever fails, and has it if the
  client reports success.
\<close>

lemma channel_put:
  assumes put: "StorageClient_Put P (client P c ep) oid src s n = (st, s', n')"
    and laws: "blake3_laws P" and dg: "digest = blake3_checksum P" and inv: "inv n" and sz: "sizes_ok (fsys s)"
  defines "cid \<equiv> \<lparr>chunk_id_value = object_id_value oid\<rparr>"
  shows "quiet s s' \<and> inv n' \<and>
    ((\<not> status_ok st \<and> view n' = view n) \<or>
     (\<exists>i. fs_dir (fsys s) src = Some i \<and> view n cid = None \<and>
        view n' = (view n)(cid \<mapsto> (digest (fs_data (fsys s) i), fs_data (fsys s) i))))"
proof -
  note p = gdp.storage_put [OF put laws]
  show ?thesis
  proof (cases "\<not> status_ok st \<and> n' = n")
    case True
    then show ?thesis using p inv by blast
  next
    case False
    with p obtain i s1 where i: "fs_dir (fsys s) src = Some i" and q: "quiet s s1"
      and call: "GrpcDataPlaneClient_PutChunk P stub c ep
          \<lparr>put_chunk_id = cid, expected_size = word_of_nat (length (fs_data (fsys s) i)),
           expected_checksum = blake3_checksum P (fs_data (fsys s) i)\<rparr> src s1 n = (st, s', n')"
      unfolding cid_def by (auto simp: GrpcDataPlaneClient_vtable_def)
    let ?d = "fs_data (fsys s) i"
    let ?req = "\<lparr>put_chunk_id = cid, expected_size = word_of_nat (length ?d), expected_checksum = blake3_checksum P ?d\<rparr>"
    have "length ?d < 2 ^ 63" using sz by (simp add: sizes_ok_def off_limit_def)
    then have size: "unat (expected_size ?req) = length ?d" by (simp add: unat_of_nat_u64)
    have f1: "fsys s1 = fsys s" using q by (simp add: quiet_def)
    have eff: "inv n' \<and> ((\<not> status_ok st \<and> view n' = view n) \<or> put_stored digest ?req ?d (view n) (view n'))"
    proof -
      let ?n0 = "stub_put_open stub (MakeStub_target ep) (deadline c) n"
      note e = Client_PutChunk_effect [OF call, unfolded f1]
      then consider (unsent) "n' = n" "st_code st = kIoError" | (abandoned) "put_abandoned stub ?n0 ?req ?d n'" "st_code st = kIoError"
        | (answered) "put_exchange stub ?n0 ?req ?d st n'" using i by auto
      then show ?thesis
        using inv put_exchange_effect [OF _ inv size] put_abandoned_effect [OF _ inv size]
        by cases (auto simp: status_ok_def)
    qed
    then have "(\<not> status_ok st \<and> view n' = view n) \<or> (view n cid = None \<and> view n' = (view n)(cid \<mapsto> (digest ?d, ?d)))"
      by (auto simp: put_stored_def dg)
    then show ?thesis using p i eff by blast
  qed
qed

text \<open>Downloading: on success the destination is the chunk; no chunk changes in any case.\<close>

lemma channel_get:
  assumes get: "StorageClient_Get P (client P c ep) oid dest k s n = (res, k', s', n')"
    and laws: "blake3_laws P" and inv: "inv n"
  defines "cid \<equiv> \<lparr>chunk_id_value = object_id_value oid\<rparr>" and "p \<equiv> get_temp_path P dest k"
  shows "inv n' \<and> view n' = view n \<and> fds s' = fds s \<and>
    (((\<forall>st. res = Inr st \<longrightarrow> \<not> status_ok st) \<and> keeps (only_temp (fsys s) p) s s') \<or>
     (\<exists>payload. res = Inr Status_Ok \<and> fs_dir (fsys s) dest = None \<and> 
        view n cid = Some (blake3_checksum P payload, payload) \<and>
        keeps (put_moment (fsys s) p dest payload) s s' \<and> committed (fsys s) p dest payload (fsys s')))"
proof -
  note g = gdp.storage_get [OF get laws, folded cid_def p_def]
  have "inv n' \<and> view n' = view n"
  proof (rule Get_network [OF get])
    show "inv (snd (dpc_HeadChunk (GrpcDataPlaneClient_vtable P stub c) ep req m)) \<and>
        view (snd (dpc_HeadChunk (GrpcDataPlaneClient_vtable P stub c) ep req m)) = view n"
      if "inv m \<and> view m = view n" for req m
      using that head_call_keeps [OF surjective_pairing, of m c ep req] by (simp add: GrpcDataPlaneClient_vtable_def)
    show "inv (snd (snd (dpc_GetChunk (GrpcDataPlaneClient_vtable P stub c) ep req q t m))) \<and>
        view (snd (snd (dpc_GetChunk (GrpcDataPlaneClient_vtable P stub c) ep req q t m))) = view n"
      if "inv m \<and> view m = view n" for req q t m
      using that get_call_keeps [of P c ep req q t m]
      by (cases "GrpcDataPlaneClient_GetChunk P stub c ep req q t m" rule: prod_cases3)
        (auto simp: GrpcDataPlaneClient_vtable_def)
  qed (use inv in simp)
  moreover have "view n cid = Some (blake3_checksum P d, d)"
    if "GrpcDataPlaneClient_HeadChunk stub c ep \<lparr>head_chunk_id = cid\<rparr> n = (h, n1)" "so_opt h = Some v"
      "grpc_fetch stub c ep \<lparr>get_chunk_id = cid, get_range = \<lparr>range_offset = 0, range_size = resp_size v\<rparr>\<rparr> n1 d n'"
      "file_digest P d = (resp_size v, resp_checksum v)" for h n1 v d
  proof -
    note hk = head_call_keeps [OF that(1) inv]
    obtain payload where pl: "view n cid = Some (resp_checksum v, payload)" "unat (resp_size v) = length payload"
      and n1: "inv n1" "view n1 = view n" using hk \<open>so_opt h = Some v\<close> by auto
    have "d = payload" using fetch_call [OF that(3) n1(1) _ pl(2)] pl(1) n1(2) by simp
    then show ?thesis using pl that(4) by (simp add: file_digest_def)
  qed
  ultimately show ?thesis using g by (auto simp: GrpcDataPlaneClient_vtable_def)
qed

lemma channel_delete:
  assumes "StorageClient_Delete (client P c ep) oid n = (st, n')" and "inv n"
  defines "cid \<equiv> \<lparr>chunk_id_value = object_id_value oid\<rparr>"
  shows "inv n' \<and> (view n' = view n \<or> (view n cid \<noteq> None \<and> view n' = (view n)(cid := None))) \<and>
    (status_ok st \<longrightarrow> view n cid \<noteq> None \<and> view n' = (view n)(cid := None))"
proof -
  obtain g resp n1 where c: "stub_delete stub (MakeStub_target ep) (deadline c) (object_id_value oid) n = ((g, resp), n1)"
    by (metis surj_pair)
  show ?thesis
    using assms(1,2) c delete_law [OF assms(2) c]
    by (auto simp: StorageClient_Delete_def ToChunkId_def GrpcDataPlaneClient_vtable_def
        GrpcDataPlaneClient_DeleteChunk_def cid_def split: if_splits)
qed

end

section \<open>A connection to the worker's handlers\<close>

text \<open>
  A call is delivered, or the connection breaks after \<open>k\<close> messages and the client gets the status
  \<open>g\<close>, which is not OK.
\<close>

datatype disturbance = Deliver | Break nat GrpcStatus

definition broken :: "GrpcStatus \<Rightarrow> GrpcStatus" where
  "broken g = (if grpc_ok g then \<lparr>grpc_code = UNAVAILABLE, grpc_message = ''connection lost''\<rparr> else g)"

text \<open>
  The state of the connection: the worker's machine, the frames of the current upload, whether the
  call was cancelled, how the current download ends, the status for a message that cannot be
  parsed (never OK), and what is going to happen to writes and to calls; without a plan all goes
  well.
\<close>

record conn =
  cn_worker :: os
  cn_sent :: "PutChunkFrame list"
  cn_cancelled :: bool
  cn_answer :: GrpcStatus
  cn_unparsed :: GrpcStatus
  cn_writes :: "bool list"
  cn_plan :: "disturbance list"

definition next_disturbance :: "conn \<Rightarrow> disturbance \<times> conn" where
  "next_disturbance n =
     (case cn_plan n of [] \<Rightarrow> (Deliver, n) | x # xs \<Rightarrow> (x, n\<lparr>cn_plan := xs\<rparr>))"

definition cancelled :: GrpcStatus where
  "cancelled = \<lparr>grpc_code = CANCELLED, grpc_message = []\<rparr>"

type_synonym conn_store = "(PutChunkFrame list RpcInputStream, byte list list, os) ChunkStore"

definition conn_write :: "PutChunkFrame \<Rightarrow> conn \<Rightarrow> bool \<times> conn" where
  "conn_write f n =
     (case cn_writes n of
        [] \<Rightarrow> (True, n\<lparr>cn_sent := cn_sent n @ [f]\<rparr>)
      | w # ws \<Rightarrow>
          if w then (True, n\<lparr>cn_sent := cn_sent n @ [f], cn_writes := ws\<rparr>) else (False, n\<lparr>cn_writes := ws\<rparr>))"

text \<open>
  The handlers behind the connection. The reader of \<open>PutChunk\<close> ends at a frame that cannot be parsed;
  a request of another call that cannot be parsed never reaches its handler; a response that
  cannot be parsed is lost.
\<close>

definition unset_operation :: OperationResponse where
  "unset_operation = \<lparr>op_status = rpc_default_status\<rparr>"

definition unset_head :: RpcHeadChunkResponse where
  "unset_head = \<lparr>rhead_status = rpc_default_status, rhead_chunk_id = [], rhead_size = 0, rhead_checksum = []\<rparr>"

definition serve_put :: "conn_store \<Rightarrow> u64 \<Rightarrow> PutChunkFrame list \<Rightarrow> conn \<Rightarrow> (GrpcStatus \<times> OperationResponse) \<times> conn" where
  "serve_put cs addr fs n =
     (case WorkerService_PutChunk (worker_over cs) addr list_reader (takeWhile frame_parses fs) unset_operation
             (cn_worker n) of
        (g, resp, rd, w) \<Rightarrow>
          (if operation_parses resp then (g, resp) else (broken (cn_unparsed n), unset_operation), n\<lparr>cn_worker := w\<rparr>))"

definition conn_finish :: "conn_store \<Rightarrow> u64 \<Rightarrow> conn \<Rightarrow> (GrpcStatus \<times> OperationResponse) \<times> conn" where
  "conn_finish cs addr n =
     (case next_disturbance n of (x, n) \<Rightarrow>
        (case (if cn_cancelled n then Break (length (cn_sent n)) cancelled else x) of
           Deliver \<Rightarrow> serve_put cs addr (cn_sent n) n
         | Break k g \<Rightarrow> ((broken g, unset_operation), snd (serve_put cs addr (take k (cn_sent n)) n))))"

definition conn_get :: "conn_store \<Rightarrow> RpcGetChunkRequest \<Rightarrow> conn \<Rightarrow> byte list list \<times> conn" where
  "conn_get cs req n =
     (case next_disturbance (n\<lparr>cn_cancelled := False\<rparr>) of (x, n) \<Rightarrow>
        if utf8 (rget_chunk_id req)
        then (case WorkerService_GetChunk (worker_over cs) req list_writer [] (cn_worker n) of
                (g, received, w) \<Rightarrow>
                  (case x of
                     Deliver \<Rightarrow> (received, n\<lparr>cn_worker := w, cn_answer := g\<rparr>)
                   | Break k b \<Rightarrow> (take k received, n\<lparr>cn_worker := w, cn_answer := broken b\<rparr>)))
        else ([], n\<lparr>cn_answer := broken (cn_unparsed n)\<rparr>))"

definition conn_get_finish :: "conn \<Rightarrow> GrpcStatus \<times> conn" where
  "conn_get_finish n = (if cn_cancelled n then cancelled else cn_answer n, n)"

definition conn_head :: "conn_store \<Rightarrow> string \<Rightarrow> conn \<Rightarrow> (GrpcStatus \<times> RpcHeadChunkResponse) \<times> conn" where
  "conn_head cs cid n =
     (case next_disturbance n of (x, n) \<Rightarrow>
        if utf8 cid
        then (case WorkerService_HeadChunk (worker_over cs) cid unset_head (cn_worker n) of
                (g, hresp, w) \<Rightarrow>
                  (case x of
                     Deliver \<Rightarrow> if head_parses hresp then (g, hresp) else (broken (cn_unparsed n), unset_head)
                   | Break k b \<Rightarrow> (broken b, unset_head), n\<lparr>cn_worker := w\<rparr>))
        else ((broken (cn_unparsed n), unset_head), n))"

definition conn_delete :: "conn_store \<Rightarrow> string \<Rightarrow> conn \<Rightarrow> (GrpcStatus \<times> OperationResponse) \<times> conn" where
  "conn_delete cs cid n =
     (case next_disturbance n of (x, n) \<Rightarrow>
        if utf8 cid
        then (case WorkerService_DeleteChunk (worker_over cs) cid unset_operation (cn_worker n) of
                (g, resp, w) \<Rightarrow>
                  (case x of
                     Deliver \<Rightarrow>
                       (if operation_parses resp then (g, resp) else (broken (cn_unparsed n), unset_operation),
                        n\<lparr>cn_worker := w\<rparr>)
                   | Break k b \<Rightarrow>
                       ((broken b, unset_operation), if k = 0 then n else n\<lparr>cn_worker := w\<rparr>)))
        else ((broken (cn_unparsed n), unset_operation), n))"

definition conn_stub :: "conn_store \<Rightarrow> u64 \<Rightarrow> conn WorkerStub" where
  "conn_stub cs addr =
     \<lparr>stub_put_open = (\<lambda>target dl n. n\<lparr>cn_sent := [], cn_cancelled := False\<rparr>),
      stub_put_write = conn_write,
      stub_put_done = (\<lambda>n. n),
      stub_put_finish = conn_finish cs addr,
      stub_cancel = (\<lambda>n. n\<lparr>cn_cancelled := True\<rparr>),
      stub_errno = (\<lambda>n e. e),
      stub_get_open = (\<lambda>target dl. conn_get cs),
      stub_get_finish = conn_get_finish,
      stub_head = (\<lambda>target dl. conn_head cs),
      stub_delete = (\<lambda>target dl. conn_delete cs)\<rparr>"

lemma not_ok_broken [simp]: "\<not> grpc_ok (broken g)" "\<not> grpc_ok cancelled"
  by (simp_all add: broken_def cancelled_def grpc_ok_def)

lemma next_disturbance_frame [simp]:
  "cn_worker (snd (next_disturbance n)) = cn_worker n" "cn_sent (snd (next_disturbance n)) = cn_sent n"
  by (auto simp: next_disturbance_def split: list.splits)

text \<open>
  The worker behind a connection satisfies what its handlers were shown to satisfy. Every chunk it
  holds came over the wire, so its identifier is UTF-8; an empty storage root satisfies this, and
  the laws below show that every call keeps it.
\<close>

definition conn_view :: "FileChunkStore \<Rightarrow> conn \<Rightarrow> chunk_view" where
  "conn_view store n = store_view store (cn_worker n)"

definition wire_ids :: "chunk_view \<Rightarrow> bool" where
  "wire_ids v \<longleftrightarrow> (\<forall>cid. v cid \<noteq> None \<longrightarrow> utf8 (chunk_id_value cid))"

definition conn_inv :: "'h platform \<Rightarrow> FileChunkStore \<Rightarrow> conn \<Rightarrow> bool" where
  "conn_inv P store n \<longleftrightarrow> platform_ok P store (cn_worker n) \<and> wire_ids (conn_view store n)"

lemma wire_ids_uploaded:
  assumes "uploaded digest (FrameMetadata m # fs) v v'" and "utf8 (meta_chunk_id m)" and "wire_ids v"
  shows "wire_ids v'"
  using assms by (auto simp: uploaded_def put_stored_def wire_ids_def meta_request_def split: if_splits)

lemma wire_ids_remove: "wire_ids v \<Longrightarrow> wire_ids (v(cid := None))"
  by (simp add: wire_ids_def)

lemma unset_simps [simp]:
  "operation_parses unset_operation" "op_status unset_operation = rpc_default_status" "rhead_status unset_head = rpc_default_status"
  by (simp_all add: operation_parses_def unset_operation_def unset_head_def rpc_default_status_def)

lemma serve_put_effect:
  assumes "serve_put (FileChunkStore_vtable P store) addr fs n = ((g, resp), n')" and "conn_inv P store n"
  shows "conn_inv P store n' \<and>
    (conn_view store n' = conn_view store n \<or>
      (\<exists>fs'. prefix fs' fs \<and> uploaded (blake3_checksum P) fs' (conn_view store n) (conn_view store n'))) \<and>
    (grpc_ok g \<longrightarrow> fs \<noteq> [] \<and>
      (rpc_code (op_status resp) = STATUS_CODE_OK \<and> (\<exists>m ds. fs = FrameMetadata m # map FrameData ds) \<longrightarrow>
         uploaded (blake3_checksum P) fs (conn_view store n) (conn_view store n')))"
proof -
  let ?fs = "takeWhile frame_parses fs"
  obtain g1 resp1 rd w where c: "WorkerService_PutChunk (worker_over (FileChunkStore_vtable P store :: conn_store)) addr list_reader ?fs
      unset_operation (cn_worker n) = (g1, resp1, rd, w)" by (metis surj_pair)
  have n': "n' = n\<lparr>cn_worker := w\<rparr>" and g: "grpc_ok g \<Longrightarrow> g1 = g \<and> resp1 = resp"
    using assms(1) c by (auto simp: serve_put_def split: if_splits)
  have ok: "platform_ok P store (cn_worker n)" and ids: "wire_ids (conn_view store n)" using assms(2) by (simp_all add: conn_inv_def)
  note w = fcw.worker_put [OF ok c]
  show ?thesis
  proof (cases "\<exists>m fs'. ?fs = FrameMetadata m # fs'")
    case False
    then have "grpc_code g1 = INVALID_ARGUMENT \<and> store_view store w = store_view store (cn_worker n)"
      using w by (auto simp: rpc_put_spec_def list_reader_def split: list.splits PutChunkFrame.splits)
    then show ?thesis using w n' ids g by (auto simp: conn_inv_def conn_view_def grpc_ok_def)
  next
    case True
    then obtain m fs' where fs: "?fs = FrameMetadata m # fs'" by blast
    then have m: "utf8 (meta_chunk_id m)" using set_takeWhileD [of "FrameMetadata m" frame_parses fs] by simp
    have "uploaded (blake3_checksum P) ?fs v v'"
      if "frames list_reader fs' ds rd" "put_stored (blake3_checksum P) (meta_request m) (concat ds) v v'" for ds v v'
      using frames_list_reader [OF that(1)] that(2) fs by (auto simp: uploaded_def)
    then have v: "(rpc_code (op_status resp1) \<noteq> STATUS_CODE_OK \<and> conn_view store n' = conn_view store n) \<or>
        uploaded (blake3_checksum P) ?fs (conn_view store n) (conn_view store n')"
      using w fs n' by (auto simp: rpc_put_spec_def list_reader_def conn_view_def)
    moreover have "conn_inv P store n'"
      using w v n' ids wire_ids_uploaded [OF _ m ids] fs by (auto simp: conn_inv_def)
    moreover have "?fs = fs" if "fs = FrameMetadata m' # map FrameData ds" for m' ds
      using fs that takeWhile_parses [of m' ds] by (simp split: if_splits)
    ultimately show ?thesis using g takeWhile_is_prefix [of frame_parses fs] fs by fastforce
  qed
qed

lemma conn_finish_effect:
  assumes "conn_finish (FileChunkStore_vtable P store) addr n = ((g, resp), n')" and "conn_inv P store n"
  shows "conn_inv P store n' \<and>
    (conn_view store n' = conn_view store n \<or>
      (\<exists>fs. prefix fs (cn_sent n) \<and> uploaded (blake3_checksum P) fs (conn_view store n) (conn_view store n'))) \<and>
    (grpc_ok g \<longrightarrow> cn_sent n \<noteq> [] \<and>
      (rpc_code (op_status resp) = STATUS_CODE_OK \<and> (\<exists>m ds. cn_sent n = FrameMetadata m # map FrameData ds) \<longrightarrow>
         uploaded (blake3_checksum P) (cn_sent n) (conn_view store n) (conn_view store n')))"
proof -
  obtain x n1 where x: "next_disturbance n = (x, n1)" by fastforce
  have f: "cn_worker n1 = cn_worker n" "cn_sent n1 = cn_sent n" using next_disturbance_frame [of n] x by simp_all
  then have i1: "conn_inv P store n1" and v1: "conn_view store n1 = conn_view store n"
    using assms(2) by (simp_all add: conn_inv_def conn_view_def)
  let ?serve = "serve_put (FileChunkStore_vtable P store) addr"
  have "?serve (cn_sent n) n1 = ((g, resp), n') \<or>
      (\<exists>k. n' = snd (?serve (take k (cn_sent n)) n1) \<and> \<not> grpc_ok g)"
  proof (cases "cn_cancelled n1")
    case True
    then show ?thesis
      using assms(1) x f by (auto simp: conn_finish_def intro!: exI [of _ "length (cn_sent n)"])
  next
    case False
    then show ?thesis using assms(1) x f by (cases x) (auto simp: conn_finish_def)
  qed
  then consider (served) "?serve (cn_sent n) n1 = ((g, resp), n')"
    | (lost) k where "n' = snd (?serve (take k (cn_sent n)) n1)" "\<not> grpc_ok g" by blast
  then show ?thesis
  proof cases
    case served
    from serve_put_effect [OF this i1] v1 show ?thesis by auto
  next
    case lost
    obtain g' r' where "?serve (take k (cn_sent n)) n1 = ((g', r'), n')" using lost(1) by (metis prod.collapse)
    note e = serve_put_effect [OF this i1, unfolded v1]
    moreover have "prefix fs (cn_sent n)" if "prefix fs (take k (cn_sent n))" for fs
      using prefix_order.trans [OF that take_is_prefix] .
    ultimately show ?thesis using lost(2) by metis
  qed
qed

lemma conn_get_effect:
  assumes "conn_get (FileChunkStore_vtable P store) req n = (received, n')" and "conn_inv P store n"
  shows "conn_inv P store n' \<and> conn_view store n' = conn_view store n \<and>
    (grpc_ok (fst (conn_get_finish n')) \<longrightarrow> (\<exists>c payload. conn_view store n \<lparr>chunk_id_value = rget_chunk_id req\<rparr> = Some (c, payload) \<and>
       unat (rget_offset req) + unat (rget_size req) \<le> length payload \<and> concat received = range_of_request req payload))"
proof -
  obtain x n1 where x: "next_disturbance (n\<lparr>cn_cancelled := False\<rparr>) = (x, n1)" by fastforce
  have f: "cn_worker n1 = cn_worker n" using next_disturbance_frame [of "n\<lparr>cn_cancelled := False\<rparr>"] x by simp
  have ok: "platform_ok P store (cn_worker n)" and ids: "wire_ids (store_view store (cn_worker n))"
    using assms(2) by (simp_all add: conn_inv_def conn_view_def)
  show ?thesis
  proof (cases "utf8 (rget_chunk_id req)")
    case False
    then have "n' = n1\<lparr>cn_answer := broken (cn_unparsed n1)\<rparr>" using assms(1) x by (auto simp: conn_get_def)
    then show ?thesis using ok ids f by (simp add: conn_inv_def conn_view_def conn_get_finish_def)
  next
    case True
    obtain g1 rs w where c: "WorkerService_GetChunk (worker_over (FileChunkStore_vtable P store :: conn_store)) req list_writer []
        (cn_worker n) = (g1, rs, w)" by (metis surj_pair)
    note h = fcw.worker_get [OF ok c]
    have sz: "unat (word_of_nat (length payload) :: u64) = length payload"
      if "chunk_at store (fsys (cn_worker n)) cid = Some (ck, payload)" for cid ck payload
      using chunk_at_length(2) [OF _ that] ok by (simp add: platform_ok_def)
    obtain st where st: "g1 = ToGrpcStatus st"
      "get_spec \<lparr>get_chunk_id = \<lparr>chunk_id_value = rget_chunk_id req\<rparr>,
         get_range = \<lparr>range_offset = rget_offset req, range_size = rget_size req\<rparr>\<rparr>
         (rpc_output list_writer) [] st rs (store_view store (cn_worker n))"
      using h by auto
    have r: "cn_worker n' = w" "grpc_ok (fst (conn_get_finish n')) \<Longrightarrow> status_ok st \<and> received = rs"
      using assms(1) x f c st(1) True
      by (auto simp: conn_get_def conn_get_finish_def grpc_ok_def [of "ToGrpcStatus st"] split: disturbance.splits if_splits)
    have "\<exists>c payload. conn_view store n \<lparr>chunk_id_value = rget_chunk_id req\<rparr> = Some (c, payload) \<and>
         unat (rget_offset req) + unat (rget_size req) \<le> length payload \<and> concat received = range_of_request req payload"
      if "grpc_ok (fst (conn_get_finish n'))"
      using r(2) [OF that] st(2) sz
      by (auto simp: get_spec_def conn_view_def store_view_def feed_list_writer pieces_def range_of_def range_of_request_def
          ValidateByteRange_ok_iff split: option.splits if_splits)
    with h r(1) ids show ?thesis by (simp add: conn_inv_def conn_view_def)
  qed
qed

lemma conn_head_effect:
  assumes "conn_head (FileChunkStore_vtable P store) cid n = ((g, hresp), n')" and "conn_inv P store n"
  shows "conn_inv P store n' \<and> conn_view store n' = conn_view store n \<and>
    (grpc_ok g \<and> rpc_code (rhead_status hresp) = STATUS_CODE_OK \<longrightarrow>
       rhead_chunk_id hresp = cid \<and>
       (\<exists>payload. conn_view store n \<lparr>chunk_id_value = cid\<rparr> =
          Some (\<lparr>algorithm = kBlake3, checksum_value = rhead_checksum hresp\<rparr>, payload) \<and>
          unat (rhead_size hresp) = length payload))"
proof -
  obtain x n1 where x: "next_disturbance n = (x, n1)" by fastforce
  have f: "cn_worker n1 = cn_worker n" using next_disturbance_frame [of n] x by simp
  obtain g1 h1 w where c: "WorkerService_HeadChunk (worker_over (FileChunkStore_vtable P store :: conn_store)) cid unset_head
      (cn_worker n) = (g1, h1, w)" by (metis surj_pair)
  have ok: "platform_ok P store (cn_worker n)" and ids: "wire_ids (store_view store (cn_worker n))"
    using assms(2) by (simp_all add: conn_inv_def conn_view_def)
  note h = fcw.worker_head [OF ok c]
  have "cn_worker n' = (if utf8 cid then w else cn_worker n)" "grpc_ok g \<Longrightarrow> hresp = h1"
    using assms(1) x f c by (auto simp: conn_head_def split: disturbance.splits if_splits)
  moreover have "ck = \<lparr>algorithm = kBlake3, checksum_value = checksum_value ck\<rparr>" for ck :: Checksum
    by (simp only: checksum_eta)
  ultimately show ?thesis using h ok ids by (auto simp: conn_inv_def conn_view_def) (metis (no_types, lifting))+
qed

lemma conn_delete_effect:
  assumes "conn_delete (FileChunkStore_vtable P store) cid n = ((g, resp), n')" and "conn_inv P store n"
  shows "conn_inv P store n' \<and>
    (conn_view store n' = conn_view store n \<or>
      (conn_view store n \<lparr>chunk_id_value = cid\<rparr> \<noteq> None \<and>
       conn_view store n' = (conn_view store n)(\<lparr>chunk_id_value = cid\<rparr> := None))) \<and>
    (grpc_ok g \<longrightarrow> (rpc_code (op_status resp) = STATUS_CODE_OK \<longleftrightarrow>
       conn_view store n \<lparr>chunk_id_value = cid\<rparr> \<noteq> None \<and>
       conn_view store n' = (conn_view store n)(\<lparr>chunk_id_value = cid\<rparr> := None)))"
proof -
  obtain x n1 where x: "next_disturbance n = (x, n1)" by fastforce
  have f: "cn_worker n1 = cn_worker n" using next_disturbance_frame [of n] x by simp
  obtain g1 r1 w where c: "WorkerService_DeleteChunk (worker_over (FileChunkStore_vtable P store :: conn_store)) cid
      unset_operation (cn_worker n) = (g1, r1, w)" by (metis surj_pair)
  have ok: "platform_ok P store (cn_worker n)" and ids: "wire_ids (store_view store (cn_worker n))"
    using assms(2) by (simp_all add: conn_inv_def conn_view_def)
  note h = fcw.worker_delete [OF ok c]
  have no: "v \<noteq> v(\<lparr>chunk_id_value = cid\<rparr> := None)" if "v \<lparr>chunk_id_value = cid\<rparr> \<noteq> None" for v :: chunk_view
    using that by (metis fun_upd_same)
  have "(cn_worker n' = cn_worker n \<and> \<not> grpc_ok g) \<or> (cn_worker n' = w \<and> (grpc_ok g \<longrightarrow> resp = r1))"
    using assms(1) x f c by (auto simp: conn_delete_def split: disturbance.splits if_splits)
  then show ?thesis
    using h ok ids no [of "store_view store (cn_worker n)"] wire_ids_remove [OF ids]
    by (auto simp: conn_inv_def conn_view_def simp del: fun_upd_apply split: if_splits)
qed

interpretation wch: worker_channel "conn_stub (FileChunkStore_vtable P store) addr" "conn_view store" cn_sent
  "conn_inv P store" "blake3_checksum P" for P store addr
proof (unfold_locales, goal_cases)
  case (1 n n' target dl)
  then show ?case by (simp add: conn_stub_def conn_inv_def conn_view_def)
next
  case (2 n f taken n')
  then show ?case
    by (auto simp: conn_stub_def conn_write_def conn_inv_def conn_view_def split: list.splits if_splits)
next
  case (3 n n')
  then show ?case by (auto simp: conn_stub_def conn_inv_def conn_view_def)
next
  case (4 n g resp n')
  then have "conn_finish (FileChunkStore_vtable P store) addr n = ((g, resp), n')" by (simp add: conn_stub_def)
  from conn_finish_effect [OF this 4(1)] show ?case .
next
  case (5 n g n')
  then show ?case by (auto simp: conn_stub_def conn_get_finish_def)
next
  case (6 n target dl req received n')
  then have "conn_get (FileChunkStore_vtable P store) req n = (received, n')" by (simp add: conn_stub_def)
  from conn_get_effect [OF this 6(1)] show ?case by (simp add: conn_stub_def)
next
  case (7 n target dl cid g hresp n')
  then have "conn_head (FileChunkStore_vtable P store) cid n = ((g, hresp), n')" by (simp add: conn_stub_def)
  from conn_head_effect [OF this 7(1)] show ?case .
next
  case (8 n target dl cid g resp n')
  then have "conn_delete (FileChunkStore_vtable P store) cid n = ((g, resp), n')" by (simp add: conn_stub_def)
  from conn_delete_effect [OF this 8(1)] show ?case .
qed

end
