(* ===== verification/Answer_Types.thy ===== *)
theory Answer_Types
  imports Data_Plane_Client
begin

text \<open>
  The answers of the worker by type: which status codes each operation can return at all, whatever
  the schedule, the files and the streams are like, and that every status on the way is
  well-formed. In particular no \<open>StatusOr\<close> is ever built from an OK status, which would turn into
  \<open>kInternal\<close>, the code of errors that should not happen.
\<close>

section \<open>Typed statuses\<close>

definition answers :: "StatusCode set \<Rightarrow> Status \<Rightarrow> bool" where
  "answers C st \<longleftrightarrow> st_code st \<in> C \<and> status_inv st"

text \<open>A result is a value, or an error of one of the given codes, among which \<open>kOk\<close> has no place.\<close>

definition yields :: "StatusCode set \<Rightarrow> 'a StatusOr \<Rightarrow> bool" where
  "yields C r \<longleftrightarrow> statusor_inv r \<and> (so_opt r = None \<longrightarrow> answers C (so_status r))"

lemma answers_simps [simp]:
  "answers C (mk_Status c m) \<longleftrightarrow> c \<in> C" "answers C Status_Ok \<longleftrightarrow> kOk \<in> C" "answers C (IoError P op p s) \<longleftrightarrow> kIoError \<in> C"
  by (simp_all add: answers_def IoError_def)

lemma answers_mono: "answers C st \<Longrightarrow> C \<subseteq> D \<Longrightarrow> answers D st"
  by (auto simp: answers_def)

lemma yields_simps [simp]:
  "yields C (StatusOr_value v)" "c \<noteq> kOk \<Longrightarrow> yields C (StatusOr_error (mk_Status c m)) \<longleftrightarrow> c \<in> C"
  "yields C (StatusOr_error (IoError P op p s)) \<longleftrightarrow> kIoError \<in> C"
  by (simp_all add: yields_def IoError_def)

lemma yields_mono: "yields C r \<Longrightarrow> C \<subseteq> D \<Longrightarrow> yields D r"
  by (auto simp: yields_def intro: answers_mono)

lemma yields_error: "yields C r \<Longrightarrow> so_opt r = None \<Longrightarrow> answers C (so_status r) \<and> \<not> status_ok (so_status r)"
  by (simp add: yields_def statusor_inv_def so_ok_def)

lemma yields_pass: "yields C r \<Longrightarrow> so_opt r = None \<Longrightarrow> C \<subseteq> D \<Longrightarrow> yields D (StatusOr_error (so_status r))"
  using yields_error [of C r] by (auto simp: yields_def StatusOr_error_status intro: answers_mono)

lemma validators_answer:
  "answers {kOk, kInvalidArgument} (ValidateId cid)" "answers {kOk, kInvalidArgument} (ValidateChecksum ck)"
  "answers {kOk, kInvalidArgument} (ValidateByteRange rg n)"
  by (simp_all add: ValidateId_def ValidateChecksum_def ValidateByteRange_def)

lemma answers_error: "answers {kOk, c} st \<Longrightarrow> \<not> status_ok st \<Longrightarrow> c \<in> C \<Longrightarrow> answers C st"
  by (auto simp: answers_def status_ok_def)

lemmas validators_error = validators_answer [THEN answers_error]

section \<open>The transfer loops\<close>

lemma WriteAll_loop_answers: "answers {kOk, kIoError} (fst (WriteAll_loop P fd data written s))"
proof (induction P fd data written s rule: WriteAll_loop.induct)
  case (1 P fd data written s)
  then show ?case by (subst WriteAll_loop.simps) (auto split: prod.splits)
qed

lemma WriteAll_answers: "WriteAll P fd data s = (st, s') \<Longrightarrow> answers {kOk, kIoError} st"
  using WriteAll_loop_answers [of P fd data 0 s] by (simp add: WriteAll_def)

lemma PreadSome_loop_yields: "yields {kIoError} (fst (PreadSome_loop P fd n off s))"
proof (induction P fd n off s rule: PreadSome_loop.induct)
  case (1 P fd n off s)
  then show ?case by (subst PreadSome_loop.simps) (auto split: prod.splits)
qed

lemma PreadSome_yields: "PreadSome P fd n off s = (res, s') \<Longrightarrow> yields {kIoError, kInvalidArgument} res"
  using yields_mono [OF PreadSome_loop_yields [of P fd n off s]] by (auto simp: PreadSome_def split: if_splits)

lemma ReadHeader_loop_yields: "yields {kIoError, kInvalidArgument, kCorruption} (fst (ReadHeader_loop P fd header s))"
proof (induction P fd header s rule: ReadHeader_loop.induct)
  case (1 P fd header s)
  obtain r s' where r: "PreadSome P fd (kHeaderSize - length header) (word_of_nat (length header)) s = (r, s')" by fastforce
  from yields_pass [OF PreadSome_yields [OF r]] 1 r show ?case
    by (subst ReadHeader_loop.simps) (auto split: option.splits)
qed

lemma ReadHeader_yields: "yields {kIoError, kInvalidArgument, kCorruption} (fst (ReadHeader P fd cid s))"
proof -
  obtain r s1 where l: "ReadHeader_loop P fd [] s = (r, s1)" by fastforce
  have "yields {kIoError, kInvalidArgument, kCorruption} r" using ReadHeader_loop_yields [of P fd "[]" s] l by simp
  from yields_pass [OF this] l show ?thesis
    by (auto simp: ReadHeader_def Let_def split: option.splits prod.splits)
qed

section \<open>The store\<close>

definition head_codes :: "StatusCode set" where
  "head_codes = {kInvalidArgument, kNotFound, kIoError, kCorruption}"

lemma Head_yields: "yields head_codes (fst (FileChunkStore_Head P store cid s))"
proof (cases "status_ok (ValidateId cid)")
  case False
  then have "yields head_codes (StatusOr_error (ValidateId cid))"
    by (auto simp: yields_def StatusOr_error_status head_codes_def intro: validators_error)
  then show ?thesis using False by (simp add: FileChunkStore_Head_def)
next
  case True
  obtain fd s1 where o: "sys_open_rd (PathFor store cid) s = (fd, s1)" by fastforce
  show ?thesis
    using True o yields_mono [OF ReadHeader_yields [of P fd cid s1], of head_codes]
    by (auto simp: FileChunkStore_Head_def Let_def head_codes_def split: prod.splits)
qed

text \<open>A \<open>Get\<close> also passes on what the output stream answers, a \<open>Put\<close> what the input stream answers.\<close>

definition output_codes :: "StatusCode set \<Rightarrow> 'o ChunkOutputStream \<Rightarrow> bool" where
  "output_codes C O' \<longleftrightarrow> (\<forall>out bs. answers (insert kOk C) (fst (out_write O' out bs)))"

definition input_codes :: "StatusCode set \<Rightarrow> 's ChunkInputStream \<Rightarrow> bool" where
  "input_codes C I \<longleftrightarrow> (\<forall>inp n. yields C (fst (in_read I inp n)))"

lemma get_loop_answers:
  assumes "get_loop P O' fd remaining offset out s = (st, out', s')" and "output_codes C O'"
  shows "answers ({kOk, kIoError, kInvalidArgument, kCorruption} \<union> C) st"
  using assms
proof (induction P O' fd remaining offset out s rule: get_loop.induct)
  case (1 P O' fd remaining offset out s)
  from "1.prems"(1) show ?case
  proof (cases rule: get_loop_turn)
    case (failed c)
    then show ?thesis using yields_error [OF PreadSome_yields [OF failed(2)] failed(3)] by (auto intro: answers_mono)
  next
    case (rejected c b)
    then have "answers (insert kOk C) st" using "1.prems"(2) by (metis output_codes_def fst_conv)
    then show ?thesis by (rule answers_mono) auto
  next
    case (more c s1 b st1 out1)
    then show ?thesis by (intro "1.IH" [OF more(1) more(2) [symmetric] more(3,4) more(5) [symmetric] _ more(7) "1.prems"(2)]) simp
  qed simp_all
qed

lemma Get_answers:
  assumes "FileChunkStore_Get P store req O' out s = (st, out', s')" and "output_codes C O'"
  shows "answers ({kOk} \<union> head_codes \<union> C) st"
  using assms(1)
proof (cases rule: Get_paths)
  case (headless h s1)
  then have "answers head_codes st" using yields_error [of head_codes h] Head_yields [of P store "get_chunk_id req" s] by simp
  then show ?thesis by (rule answers_mono) auto
next
  case (outside h s1 v)
  then show ?thesis by (auto simp: head_codes_def intro: validators_error)
next
  case (vanished h s1 v fd s2)
  then show ?thesis by (simp add: head_codes_def)
next
  case (sent h s1 v fd s2 s3)
  from get_loop_answers [OF sent(6) assms(2)] show ?thesis by (rule answers_mono) (auto simp: head_codes_def)
qed

lemma Delete_answers: "answers {kOk, kInvalidArgument, kNotFound, kIoError} (fst (FileChunkStore_Delete P store cid s))"
  by (auto simp: FileChunkStore_Delete_def Let_def intro: validators_error split: prod.splits)

lemma put_loop_answers:
  assumes "put_loop P I p fd e r h inp s = (Inl st, inp', s')" and "input_codes C I"
  shows "answers ({kIoError, kCorruption} \<union> C) st"
  using assms
proof (induction P I p fd e r h inp s rule: put_loop.induct)
  case (1 P I p fd e r h inp s)
  from "1.prems"(1) show ?case
  proof (cases rule: put_loop_turn)
    case (failed c)
    then have "yields C c" using "1.prems"(2) by (metis input_codes_def fst_conv)
    from yields_error [OF this failed(2)] failed(3) show ?thesis by (auto intro: answers_mono)
  next
    case (unwritten c b st' s1)
    then show ?thesis using answers_error [OF WriteAll_answers [OF unwritten(5)]] by simp
  next
    case (more c inp1 b st' s1)
    then show ?thesis by (intro "1.IH" [OF more(1) [symmetric] more(2-4) more(5) [symmetric] _ more(7) "1.prems"(2)]) simp
  qed simp_all
qed

text \<open>The commit answers \<open>kAlreadyExists\<close> with the identifier in the message.\<close>

lemma put_commit_answers:
  assumes "put_commit P store req p final fd r h s = (st, s')"
  shows "answers {kOk, kCorruption, kIoError, kAlreadyExists} st"
    and "st_code st = kAlreadyExists \<Longrightarrow> st_message st = ''chunk already exists: '' @ chunk_id_value (put_chunk_id req)"
  using assms
  by (auto simp: put_commit_def put_publish_def Let_def IoError_def split: prod.splits if_splits)

definition put_codes :: "StatusCode set" where
  "put_codes = {kInvalidArgument, kAlreadyExists, kUnavailable, kIoError, kCorruption}"

lemma Put_answers:
  assumes "FileChunkStore_Put P store req I inp s = (st, inp', s')" and "input_codes C I" and "kAlreadyExists \<notin> C"
  shows "answers ({kOk} \<union> put_codes \<union> C) st"
    and "st_code st = kAlreadyExists \<Longrightarrow> st_message st = ''chunk already exists: '' @ chunk_id_value (put_chunk_id req)"
proof -
  have "answers ({kOk} \<union> put_codes \<union> C) st \<and>
    (st_code st = kAlreadyExists \<longrightarrow> st_message st = ''chunk already exists: '' @ chunk_id_value (put_chunk_id req))"
    using assms(1) refl
  proof (cases rule: Put_paths)
    case invalid
    have "answers {kInvalidArgument} st" using invalid(2,5) by (auto intro: validators_error)
    then show ?thesis by (auto simp: answers_def put_codes_def)
  next
    case (headless fd s1 s2 s3)
    have "answers {kIoError} st" using answers_error [OF WriteAll_answers [OF headless(5)] headless(6)] by simp
    then show ?thesis by (auto simp: answers_def put_codes_def)
  next
    case (broken fd s1 s2 wst s3 s4)
    then show ?thesis using put_loop_answers [OF broken(7) assms(2)] assms(3) by (auto simp: answers_def put_codes_def)
  next
    case (received fd s1 s2 wst s3 s4 r h)
    from put_commit_answers [OF received(8)] show ?thesis by (auto simp: answers_def put_codes_def)
  qed (auto simp: put_codes_def IoError_def)
  then show "answers ({kOk} \<union> put_codes \<union> C) st"
    and "st_code st = kAlreadyExists \<Longrightarrow> st_message st = ''chunk already exists: '' @ chunk_id_value (put_chunk_id req)"
    by blast+
qed

section \<open>The service over gRPC\<close>

lemma rpc_streams_codes: "input_codes {kInvalidArgument} (rpc_input R addr)" "output_codes {kUnavailable} (rpc_output W)"
proof -
  show "input_codes {kInvalidArgument} (rpc_input R addr)"
    by (auto simp: input_codes_def RpcInputStream_Read_def RpcInputStream_frame_def Let_def
        split: sum.splits prod.splits option.splits PutChunkFrame.splits if_splits)
  show "output_codes {kUnavailable} (rpc_output W)"
    by (auto simp: output_codes_def rpc_output_def RpcOutputStream_Write_def split: prod.splits)
qed

lemma service_put_answers:
  assumes "DataPlaneService_PutChunk (DataPlaneService_make (FileChunkStore_vtable P store)) req (rpc_input R addr) inp s = (st, inp', s')"
  shows "answers ({kOk} \<union> put_codes) st"
    and "st_code st = kAlreadyExists \<Longrightarrow> st_message st = ''chunk already exists: '' @ chunk_id_value (put_chunk_id req)"
proof -
  have c: "kInvalidArgument \<in> put_codes" by (simp add: put_codes_def)
  consider "st = mk_Status kInvalidArgument ''chunk_id cannot be empty''"
    | "\<not> status_ok st" "st = ValidateChecksum (expected_checksum req)"
    | "FileChunkStore_Put P store req (rpc_input R addr) inp s = (st, inp', s')"
    using assms by (auto simp: DataPlaneService_PutChunk_def FileChunkStore_vtable_def split: if_splits)
  then have "answers ({kOk} \<union> put_codes) st \<and>
      (st_code st = kAlreadyExists \<longrightarrow> st_message st = ''chunk already exists: '' @ chunk_id_value (put_chunk_id req))"
  proof cases
    case 2
    then have "answers {kInvalidArgument} st" by (auto intro: validators_error)
    then show ?thesis using c by (auto simp: answers_def)
  next
    case 3
    from Put_answers [OF this rpc_streams_codes(1)] c show ?thesis by (simp add: insert_absorb)
  qed (use c in simp)
  then show "answers ({kOk} \<union> put_codes) st"
    and "st_code st = kAlreadyExists \<Longrightarrow> st_message st = ''chunk already exists: '' @ chunk_id_value (put_chunk_id req)" by blast+
qed

lemma service_get_answers:
  assumes "DataPlaneService_GetChunk (DataPlaneService_make (FileChunkStore_vtable P store)) req (rpc_output W) out s = (st, out', s')"
  shows "answers ({kOk} \<union> head_codes \<union> {kUnavailable}) st"
  using assms Get_answers [OF _ rpc_streams_codes(2)]
  by (auto simp: DataPlaneService_GetChunk_def FileChunkStore_vtable_def head_codes_def split: if_splits)

lemma service_head_yields:
  "DataPlaneService_HeadChunk (DataPlaneService_make (FileChunkStore_vtable P store)) req s = (r, s') \<Longrightarrow> yields head_codes r"
  using Head_yields [of P store "head_chunk_id req" s]
  by (auto simp: DataPlaneService_HeadChunk_def FileChunkStore_vtable_def head_codes_def split: if_splits)

lemma service_delete_answers:
  "DataPlaneService_DeleteChunk (DataPlaneService_make (FileChunkStore_vtable P store)) req s = (st, s') \<Longrightarrow>
     answers {kOk, kInvalidArgument, kNotFound, kIoError} st"
  using Delete_answers [of P store "delete_chunk_id req" s]
  by (auto simp: DataPlaneService_DeleteChunk_def FileChunkStore_vtable_def split: if_splits)

section \<open>The handlers\<close>

text \<open>A well-formed status reaches the client as it was, in a response or as the status of the call.\<close>

lemma answers_wire: "answers C st \<Longrightarrow> FromRpcStatus (SetStatus st) = st \<and> FromGrpcStatus (ToGrpcStatus st) = st"
  by (simp add: answers_def FromRpcStatus_SetStatus FromGrpcStatus_ToGrpcStatus)

lemma put_handler_answers:
  assumes cs: "cs = FileChunkStore_vtable P store" and call: "WorkerService_PutChunk (worker_over cs) addr R rd resp s = (g, resp', rd', s')"
  shows "(\<exists>st. answers ({kOk} \<union> put_codes) st \<and> g = Grpc_Ok \<and> op_status resp' = SetStatus st \<and>
       FromRpcStatus (op_status resp') = st) \<or>
    (FromGrpcStatus g = mk_Status kInvalidArgument ''first put frame must contain metadata'' \<and> s' = s)"
proof -
  obtain f rd1 where f: "sr_read R rd = (f, rd1)" by fastforce
  show ?thesis
  proof (cases "\<exists>m. f = Some (FrameMetadata m)")
    case False
    then show ?thesis
      using call f
      by (auto simp: WorkerService_PutChunk_def FromGrpcStatus_def grpc_ok_def split: option.splits PutChunkFrame.splits)
  next
    case True
    then obtain m where m: "f = Some (FrameMetadata m)" by blast
    obtain st inp' s1 where d: "DataPlaneService_PutChunk (DataPlaneService_make cs) (meta_request m)
        (rpc_input R addr) (RpcInputStream_init rd1) s = (st, inp', s1)" by (metis surj_pair)
    have "g = Grpc_Ok" "op_status resp' = SetStatus st"
      using call f m d by (auto simp: WorkerService_PutChunk_def meta_request_def Let_def)
    with service_put_answers(1) [OF d [unfolded cs]] show ?thesis using answers_wire by metis
  qed
qed

lemma get_handler_answers:
  assumes cs: "cs = FileChunkStore_vtable P store" and call: "WorkerService_GetChunk (worker_over cs) req W x s = (g, x', s')"
  shows "\<exists>st. answers ({kOk} \<union> head_codes \<union> {kUnavailable}) st \<and> g = ToGrpcStatus st \<and> FromGrpcStatus g = st"
proof -
  let ?req = "\<lparr>get_chunk_id = \<lparr>chunk_id_value = rget_chunk_id req\<rparr>,
    get_range = \<lparr>range_offset = rget_offset req, range_size = rget_size req\<rparr>\<rparr>"
  obtain st x1 s1 where d: "DataPlaneService_GetChunk (DataPlaneService_make cs) ?req (rpc_output W) x s = (st, x1, s1)" by (metis surj_pair)
  have "g = ToGrpcStatus st" using call d by (simp add: WorkerService_GetChunk_def)
  with service_get_answers [OF d [unfolded cs]] show ?thesis using answers_wire by metis
qed

lemma head_handler_answers:
  assumes cs: "cs = FileChunkStore_vtable P store" and call: "WorkerService_HeadChunk (worker_over cs) cid resp s = (g, resp', s')"
  shows "\<exists>st. answers ({kOk} \<union> head_codes) st \<and> g = Grpc_Ok \<and> rhead_status resp' = SetStatus st \<and> FromRpcStatus (rhead_status resp') = st"
proof -
  let ?cs = "DataPlaneService_make cs" and ?req = "\<lparr>head_chunk_id = \<lparr>chunk_id_value = cid\<rparr>\<rparr>"
  obtain r s1 where d: "DataPlaneService_HeadChunk ?cs ?req s = (r, s1)" by fastforce
  have y: "yields head_codes r" by (rule service_head_yields [OF d [unfolded cs]])
  show ?thesis
  proof (cases "so_opt r")
    case None
    then have "answers ({kOk} \<union> head_codes) (so_status r)" using yields_error [OF y] by (auto intro: answers_mono)
    moreover have "g = Grpc_Ok" "rhead_status resp' = SetStatus (so_status r)"
      using call d None by (auto simp: WorkerService_HeadChunk_def)
    ultimately show ?thesis using answers_wire by metis
  next
    case (Some v)
    then have "g = Grpc_Ok" "rhead_status resp' = SetStatus Status_Ok" using call d by (auto simp: WorkerService_HeadChunk_def)
    moreover have "answers ({kOk} \<union> head_codes) Status_Ok" by simp
    ultimately show ?thesis using answers_wire by metis
  qed
qed

lemma delete_handler_answers:
  assumes cs: "cs = FileChunkStore_vtable P store" and call: "WorkerService_DeleteChunk (worker_over cs) cid resp s = (g, resp', s')"
  shows "\<exists>st. answers {kOk, kInvalidArgument, kNotFound, kIoError} st \<and> g = Grpc_Ok \<and> op_status resp' = SetStatus st \<and>
    FromRpcStatus (op_status resp') = st"
proof -
  let ?cs = "DataPlaneService_make cs" and ?req = "\<lparr>delete_chunk_id = \<lparr>chunk_id_value = cid\<rparr>\<rparr>"
  obtain st s1 where d: "DataPlaneService_DeleteChunk ?cs ?req s = (st, s1)" by fastforce
  have "answers {kOk, kInvalidArgument, kNotFound, kIoError} st" by (rule service_delete_answers [OF d [unfolded cs]])
  moreover have "g = Grpc_Ok" "op_status resp' = SetStatus st" using call d by (auto simp: WorkerService_DeleteChunk_def)
  ultimately show ?thesis using answers_wire by metis
qed

end
