(* ===== verification/Calm_Runs.thy ===== *)
theory Calm_Runs
  imports Worker_Channel Answer_Types
begin

text \<open>
  Completeness of the client and the worker together: where no system call fails on either side
  and the connection is not disturbed, a call is answered by what the worker holds, and an
  operation that can succeed does.
\<close>

text \<open>The connection takes every frame and delivers every call, and the worker's calls do not fail.\<close>

definition calm :: "conn \<Rightarrow> bool" where
  "calm n \<longleftrightarrow> cn_writes n = [] \<and> cn_plan n = [] \<and> smooth (cn_worker n)"

lemma calm_disturbance: "calm n \<Longrightarrow> next_disturbance n = (Deliver, n)"
  by (simp add: calm_def next_disturbance_def)

section \<open>Uploads\<close>

lemma offer_calm:
  "cn_writes n = [] \<Longrightarrow> offer (conn_stub cs addr) fs n = (True, n\<lparr>cn_sent := cn_sent n @ fs\<rparr>)"
  by (induction fs arbitrary: n) (simp_all add: conn_stub_def conn_write_def)

lemma exists_text_ascii: "utf8 ''chunk already exists: ''"
  by (rule utf8_ascii) (simp add: byte_in_def)

lemma worker_put_calm:
  assumes call: "WorkerService_PutChunk (worker_over (FileChunkStore_vtable P store :: conn_store)) addr list_reader
      (FrameMetadata (request_metadata req) # map FrameData ds) resp s = (g, resp', rd, s')"
    and ok: "platform_ok P store s" and sm: "smooth s" and v: "put_valid req" and ds: "\<forall>d \<in> set ds. d \<noteq> []"
    and p: "p = temp_path_of P store addr (put_chunk_id req)" "fs_dir (fsys s) p = None" "\<not> name_too_long p"
    and n: "\<not> name_too_long (PathFor store (put_chunk_id req))" and len: "kHeaderSize + length (concat ds) < off_limit"
    and data: "length (concat ds) = unat (expected_size req)" "expected_checksum req = blake3_checksum P (concat ds)"
  shows "g = Grpc_Ok \<and> (\<exists>st. op_status resp' = SetStatus st \<and>
     st_code st = (if chunk_at store (fsys s) (put_chunk_id req) = None then kOk else kAlreadyExists) \<and>
     (utf8 (chunk_id_value (put_chunk_id req)) \<longrightarrow> utf8 (st_message st)))"
proof -
  let ?inp = "RpcInputStream_init (map FrameData ds)"
  obtain st inp' s1 where put: "FileChunkStore_Put P store req (rpc_input list_reader addr) ?inp s = (st, inp', s1)"
    by (metis surj_pair)
  obtain blocks st' where d: "drains (rpc_input list_reader addr) ?inp blocks st'" "concat blocks = concat ds"
    by (rule frames_drained [OF list_reader_frames [OF ds]])
  have laws: "blake3_laws P" and si: "store_inv P store (fsys s)" using ok by (simp_all add: platform_ok_def)
  have del: "delivered P req blocks"
    using blake3_FinalizeHex [OF laws, of blocks] d(2) data by (simp add: delivered_def blake3_checksum_def)
  have "st_code st = (if stored store (fsys s) (put_chunk_id req) = None then kOk else kAlreadyExists)"
    using Put_smooth [OF put sm v d(1) _ p(2,3) n _ rpc_input_ok] p(1) d(2) len del by simp
  moreover have svc: "DataPlaneService_PutChunk (DataPlaneService_make (FileChunkStore_vtable P store :: conn_store)) req (rpc_input list_reader addr) ?inp s =
      (st, inp', s1)"
    using put v by (simp add: DataPlaneService_PutChunk_def FileChunkStore_vtable_def put_valid_def ChunkId_valid_def
        ValidateId_ok_iff)
  moreover have "utf8 (st_message st)" if "utf8 (chunk_id_value (put_chunk_id req))"
  proof (cases "st_code st = kOk")
    case True
    then show ?thesis using service_put_answers(1) [OF svc] by (simp add: answers_def status_inv_def)
  next
    case False
    then have "st_message st = ''chunk already exists: '' @ chunk_id_value (put_chunk_id req)"
      using service_put_answers(2) [OF svc] calculation(1) by (simp split: if_splits)
    then show ?thesis using that exists_text_ascii by (simp only: utf8_append)
  qed
  moreover have "sr_read list_reader (f # fs) = (Some f, fs)" for f fs by (simp add: list_reader_def)
  ultimately show ?thesis
    using call meta_request_metadata [of req] chunk_at_None_iff [OF si]
    unfolding WorkerService_PutChunk_def meta_request_def by (auto simp: Let_def)
qed

text \<open>What a worker needs in order to take a chunk: names that fit, and its temporary name free.\<close>

definition takes :: "'h platform \<Rightarrow> FileChunkStore \<Rightarrow> u64 \<Rightarrow> ChunkId \<Rightarrow> os \<Rightarrow> bool" where
  "takes P store addr cid s \<longleftrightarrow>
     storable cid \<and> fs_dir (fsys s) (temp_path_of P store addr cid) = None \<and>
     \<not> name_too_long (temp_path_of P store addr cid)"

lemma put_exchange_calm:
  assumes ex: "put_exchange (conn_stub (FileChunkStore_vtable P store) addr)
      (stub_put_open (conn_stub (FileChunkStore_vtable P store) addr) target dl n) req d st n'"
    and c: "calm n" and i: "conn_inv P store n" and v: "put_valid req" and u: "utf8 (chunk_id_value (put_chunk_id req))"
    and t: "takes P store addr (put_chunk_id req) (cn_worker n)"
    and len: "kHeaderSize + length d < off_limit"
    and data: "length d = unat (expected_size req)" "expected_checksum req = blake3_checksum P d"
  shows "st_code st = (if conn_view store n (put_chunk_id req) = None then kOk else kAlreadyExists)"
proof -
  let ?stub = "conn_stub (FileChunkStore_vtable P store) addr" and ?n0 = "n\<lparr>cn_sent := [], cn_cancelled := False\<rparr>"
  have op: "stub_put_open ?stub target dl n = ?n0" by (simp add: conn_stub_def)
  obtain ds rest all n1 g resp where ds: "\<forall>x \<in> set ds. x \<noteq> []" "d = concat ds @ rest"
    "offer ?stub (FrameMetadata (request_metadata req) # map FrameData ds) ?n0 = (all, n1)" "all \<longrightarrow> rest = []"
    and fin: "stub_put_finish ?stub (stub_put_done ?stub n1) = ((g, resp), n')"
    and st: "st = (if grpc_ok g \<and> fst (stub_put_write ?stub (FrameMetadata (request_metadata req)) ?n0)
          then FromRpcStatus (op_status resp) else FromGrpcStatus g)"
    using ex unfolding op put_exchange_def by blast
  let ?fs = "FrameMetadata (request_metadata req) # map FrameData ds"
  have cw: "cn_writes ?n0 = []" using c by (simp add: calm_def)
  have o: "all" "n1 = ?n0\<lparr>cn_sent := ?fs\<rparr>" using ds(3) offer_calm [OF cw, of "FileChunkStore_vtable P store" addr ?fs] by auto
  have d: "d = concat ds" using ds(2,4) o(1) by simp
  have w: "fst (stub_put_write ?stub f ?n0)" for f using cw by (simp add: conn_stub_def conn_write_def)
  have "calm n1" "cn_worker n1 = cn_worker n" "\<not> cn_cancelled n1" "cn_sent n1 = ?fs"
    using c o(2) by (simp_all add: calm_def)
  then have serve: "serve_put (FileChunkStore_vtable P store) addr ?fs n1 = ((g, resp), n')"
    using fin calm_disturbance [of n1] by (simp add: conn_stub_def conn_finish_def)
  obtain g1 resp1 rd s' where call: "WorkerService_PutChunk (worker_over (FileChunkStore_vtable P store :: conn_store)) addr list_reader
      ?fs unset_operation (cn_worker n) = (g1, resp1, rd, s')"
    by (metis surj_pair)
  obtain wst where w1: "g1 = Grpc_Ok" "op_status resp1 = SetStatus wst"
    "st_code wst = (if conn_view store n (put_chunk_id req) = None then kOk else kAlreadyExists)" "utf8 (st_message wst)"
    using worker_put_calm [OF call _ _ v ds(1) refl] i c t u len data storable_not_too_long
    unfolding d by (auto simp: conn_inv_def calm_def takes_def conn_view_def store_view_def)
  have "frame_parses (FrameMetadata (request_metadata req))"
    using u v utf8_checksum [of "expected_checksum req"] by (simp add: request_metadata_def put_valid_def)
  then have "takeWhile frame_parses ?fs = ?fs" by (simp only: takeWhile_parses if_True)
  then have "g = g1" "resp = resp1"
    using serve call w1(2,4) \<open>cn_worker n1 = cn_worker n\<close>
    by (simp_all add: serve_put_def operation_parses_def SetStatus_def)
  then show ?thesis using st w w1 by (auto simp: FromRpcStatus_def SetStatus_def grpc_ok_def Grpc_Ok_def)
qed

lemma put_valid_digest:
  assumes "blake3_laws P" and "storable cid"
  shows "put_valid \<lparr>put_chunk_id = cid, expected_size = z, expected_checksum = blake3_checksum P d\<rparr>"
  using assms
  by (simp add: put_valid_def storable_def blake3_checksum_def blake3_hex_def ValidateChecksum_hex blake3_laws_def
      BLAKE3_OUT_LEN_def)

text \<open>Client and worker are different processes with the same hash function.\<close>

definition same_hash :: "'h platform \<Rightarrow> 'k platform \<Rightarrow> bool" where
  "same_hash P Q \<longleftrightarrow> blake3_laws P \<and> blake3_checksum P = blake3_checksum Q"

lemma put_calm:
  assumes put: "StorageClient_Put P \<lparr>data_plane = GrpcDataPlaneClient_vtable P
        (conn_stub (FileChunkStore_vtable Q store) addr) c, worker = ep\<rparr> oid src s n = (st, s', n')"
    and hash: "same_hash P Q" and laws: "conn_inv Q store n" and c: "calm n" and sm: "smooth s"
    and src: "fs_dir (fsys s) src = Some i" "\<not> name_too_long src"
    and len: "kHeaderSize + length (fs_data (fsys s) i) < off_limit"
    and t: "takes Q store addr \<lparr>chunk_id_value = object_id_value oid\<rparr> (cn_worker n)" and u: "utf8 (object_id_value oid)"
  shows "st_code st = (if conn_view store n \<lparr>chunk_id_value = object_id_value oid\<rparr> = None then kOk else kAlreadyExists)"
proof -
  let ?d = "fs_data (fsys s) i" and ?cid = "\<lparr>chunk_id_value = object_id_value oid\<rparr>"
  let ?req = "\<lparr>put_chunk_id = ?cid, expected_size = word_of_nat (length ?d), expected_checksum = blake3_checksum P ?d\<rparr>"
  let ?stub = "conn_stub (FileChunkStore_vtable Q store) addr"
  have b: "blake3_laws P" "blake3_laws Q" and eq: "blake3_checksum P = blake3_checksum Q"
    using laws hash by (simp_all add: conn_inv_def platform_ok_def same_hash_def)
  have "ObjectId_valid oid" using t by (auto simp: takes_def storable_iff ObjectId_valid_def)
  moreover have "hash_errs src s = {}" using sm src by (simp add: hash_errs_def)
  ultimately obtain s1 where q: "quiet s s1" "sched_tail s s1"
    and call: "GrpcDataPlaneClient_PutChunk P ?stub c ep ?req src s1 n = (st, s', n')"
    using gdp.storage_put [OF put b(1)] src(1) by (auto simp: GrpcDataPlaneClient_vtable_def)
  have f1: "fsys s1 = fsys s" using q(1) by (simp add: quiet_def)
  have ex: "put_exchange ?stub (stub_put_open ?stub (MakeStub_target ep) (deadline c) n) ?req ?d st n'"
    using Client_PutChunk_effect [OF call] src f1 sched_tail_smooth [OF q(2) sm] by auto
  have "length ?d < 2 ^ 64" using len by (simp add: off_limit_def)
  then have "length ?d = unat (expected_size ?req)" by (simp add: unat_of_nat_u64)
  from put_exchange_calm [OF ex c laws put_valid_digest [OF b(2), folded eq] _ _ len this] t u eq show ?thesis
    by (simp add: takes_def)
qed

section \<open>Downloads\<close>

lemma head_calm:
  assumes c: "calm n" and i: "conn_inv P store n" and t: "storable cid"
    and v: "conn_view store n cid = Some (ck, payload)"
  shows "\<exists>n1. GrpcDataPlaneClient_HeadChunk (conn_stub (FileChunkStore_vtable P store) addr) gc ep \<lparr>head_chunk_id = cid\<rparr> n =
      (StatusOr_value \<lparr>resp_chunk_id = cid, resp_size = word_of_nat (length payload), resp_checksum = ck\<rparr>, n1) \<and> calm n1"
proof -
  have ok: "sizes_ok (fsys (cn_worker n))" using i by (simp add: conn_inv_def platform_ok_def)
  obtain res w where h: "FileChunkStore_Head P store cid (cn_worker n) = (res, w)" by fastforce
  note r = Head_reads [OF h ok]
  have at: "chunk_at store (fsys (cn_worker n)) cid = Some (ck, payload)" using v by (simp add: conn_view_def store_view_def)
  have sm: "smooth (cn_worker n)" using c by (simp add: calm_def)
  have "so_opt res \<noteq> None"
    using readsD(5) [OF r] sm t at by (auto simp: head_errs_def storable_def chunk_at_def split: option.splits)
  then obtain x where x: "so_opt res = Some x" by blast
  have xv: "resp_chunk_id x = cid" "resp_checksum x = ck" "unat (resp_size x) = length payload"
    using readsD(4) [OF r x] at by (auto simp: head_value_iff)
  have "resp_size x = word_of_nat (length payload)" by (simp flip: xv(3))
  then have xe: "x = \<lparr>resp_chunk_id = cid, resp_size = word_of_nat (length payload), resp_checksum = ck\<rparr>"
    using xv by (cases x) simp
  have "ck = blake3_checksum P payload" using chunk_at_digest [of P, OF _ at] i by (simp add: conn_inv_def platform_ok_def)
  then have u: "utf8 (chunk_id_value cid)" "utf8 (checksum_value ck)"
    using i v utf8_digest by (auto simp: conn_inv_def wire_ids_def)
  have "ChunkId_valid cid" using t by (simp add: storable_iff ChunkId_valid_def)
  then have "GrpcDataPlaneClient_HeadChunk (conn_stub (FileChunkStore_vtable P store) addr) gc ep \<lparr>head_chunk_id = cid\<rparr> n =
      (StatusOr_value x, n\<lparr>cn_worker := w\<rparr>)"
    using calm_disturbance [OF c] h x xe u
    by (simp add: GrpcDataPlaneClient_HeadChunk_def conn_stub_def conn_head_def WorkerService_HeadChunk_def head_parses_def
        DataPlaneService_HeadChunk_def FileChunkStore_vtable_def Let_def grpc_ok_def Grpc_Ok_def chunk_id_eta checksum_eta
        SetStatus_def Status_Ok_def Status_default_def FromRpcStatus_def status_ok_def)
  moreover have "calm (n\<lparr>cn_worker := w\<rparr>)" using c sched_tail_smooth [OF readsD(2) [OF r]] by (simp add: calm_def)
  ultimately show ?thesis using xe by blast
qed

lemma list_writer_accepting: "accepting (rpc_output list_writer)"
  by (simp add: accepting_def rpc_output_def RpcOutputStream_Write_def list_writer_def)

lemma get_exchange_calm:
  assumes c: "calm n" and i: "conn_inv P store n" and t: "storable cid"
    and v: "conn_view store n cid = Some (ck, payload)"
  shows "\<exists>fr g n1. get_exchange (conn_stub (FileChunkStore_vtable P store) addr) gc ep
      \<lparr>get_chunk_id = cid, get_range = \<lparr>range_offset = 0, range_size = word_of_nat (length payload)\<rparr>\<rparr> n = ((fr, g), n1) \<and>
     grpc_ok g \<and> concat fr = payload"
proof -
  let ?req = "\<lparr>get_chunk_id = cid, get_range = \<lparr>range_offset = 0, range_size = word_of_nat (length payload)\<rparr>\<rparr> :: GetChunkRequest"
  have ok: "sizes_ok (fsys (cn_worker n))" using i by (simp add: conn_inv_def platform_ok_def)
  have at: "chunk_at store (fsys (cn_worker n)) cid = Some (ck, payload)" using v by (simp add: conn_view_def store_view_def)
  obtain st fr w where g: "FileChunkStore_Get P store ?req (rpc_output list_writer) [] (cn_worker n) = (st, fr, w)"
    by (metis surj_pair)
  have size: "unat (word_of_nat (length payload) :: u64) = length payload" by (rule chunk_at_length(2) [OF ok at])
  then have "status_ok st" "concat fr = payload"
    using Get_get_post [OF g ok] at c t list_writer_accepting
    by (auto simp: get_post_def calm_def ValidateByteRange_ok_iff pieces_def range_of_def feed_list_writer)
  moreover have "ChunkId_valid cid" using t by (simp add: storable_iff ChunkId_valid_def)
  moreover have "utf8 (chunk_id_value cid)" using i v by (auto simp: conn_inv_def wire_ids_def)
  moreover have "next_disturbance (n\<lparr>cn_cancelled := False\<rparr>) = (Deliver, n\<lparr>cn_cancelled := False\<rparr>)"
    using c by (simp add: calm_def next_disturbance_def)
  ultimately have "get_exchange (conn_stub (FileChunkStore_vtable P store) addr) gc ep ?req n =
      ((fr, ToGrpcStatus st), n\<lparr>cn_cancelled := False, cn_worker := w, cn_answer := ToGrpcStatus st\<rparr>)"
    using g
    by (simp add: get_exchange_def get_call_def conn_stub_def conn_get_def conn_get_finish_def WorkerService_GetChunk_def
        DataPlaneService_GetChunk_def FileChunkStore_vtable_def chunk_id_eta)
  then show ?thesis using \<open>status_ok st\<close> \<open>concat fr = payload\<close> by (simp add: grpc_ok_def)
qed

text \<open>A name that a new file can take.\<close>

definition vacant :: "path \<Rightarrow> fs \<Rightarrow> bool" where
  "vacant p f \<longleftrightarrow> \<not> name_too_long p \<and> fs_dir f p = None \<and> p \<notin> fs_dirs f"

lemma path_exists_vacant:
  assumes "vacant p (fsys s)" and "smooth s"
  obtains s1 where "path_exists p s = (Inr False, s1)" and "fsys s1 = fsys s" and "smooth s1"
proof -
  obtain r s1 where e: "path_exists p s = (r, s1)" by fastforce
  show thesis
    using that [of s1] path_exists_cases [OF e] assms e
    by (auto simp: vacant_def quiet_def dest: sched_tail_smooth)
qed

lemma get_calm:
  assumes get: "StorageClient_Get P \<lparr>data_plane = GrpcDataPlaneClient_vtable P
        (conn_stub (FileChunkStore_vtable Q store) addr) gc, worker = ep\<rparr> oid dest k s n = (res, k', s', n')"
    and hash: "same_hash P Q" and i: "conn_inv Q store n" and c: "calm n" and sm: "smooth s"
    and cid: "cid = \<lparr>chunk_id_value = object_id_value oid\<rparr>" "storable cid"
    and v: "conn_view store n cid = Some (ck, payload)"
    and free: "vacant dest (fsys s)" "vacant (get_temp_path P dest k) (fsys s)"
  shows "res = Inr Status_Ok"
proof -
  let ?stub = "conn_stub (FileChunkStore_vtable Q store) addr" and ?p = "get_temp_path P dest k"
  let ?h = "\<lparr>resp_chunk_id = cid, resp_size = word_of_nat (length payload), resp_checksum = ck\<rparr>"
  obtain s1 where e1: "path_exists dest s = (Inr False, s1)" "fsys s1 = fsys s" "smooth s1"
    by (rule path_exists_vacant [OF free(1) sm])
  obtain n1 where h: "GrpcDataPlaneClient_HeadChunk ?stub gc ep \<lparr>head_chunk_id = cid\<rparr> n = (StatusOr_value ?h, n1)" "calm n1"
    using head_calm [OF c i cid(2) v] by blast
  have n1: "conn_inv Q store n1" "conn_view store n1 = conn_view store n"
    using wch.head_call_keeps [OF h(1) i] by auto
  obtain s2 where e2: "path_exists ?p s1 = (Inr False, s2)" "fsys s2 = fsys s1" "smooth s2"
    using path_exists_vacant [of ?p s1] free(2) e1 by metis
  let ?req = "\<lparr>get_chunk_id = cid, get_range = \<lparr>range_offset = 0, range_size = word_of_nat (length payload)\<rparr>\<rparr> :: GetChunkRequest"
  obtain fr g n2 where x: "get_exchange ?stub gc ep ?req n1 = ((fr, g), n2)" "grpc_ok g" "concat fr = payload"
    using get_exchange_calm [OF h(2) n1(1) cid(2), of ck payload addr gc ep] v n1(2) by auto
  obtain st s3 n3 where g: "GrpcDataPlaneClient_GetChunk P ?stub gc ep ?req ?p s2 n1 = (st, s3, n3)" by (metis surj_pair)
  have ok: "platform_ok Q store (cn_worker n)" and at: "chunk_at store (fsys (cn_worker n)) cid = Some (ck, payload)"
    using i v by (simp_all add: conn_inv_def conn_view_def store_view_def)
  have len: "length payload < off_limit"
    using chunk_at_length(1) [OF _ at] ok by (simp add: platform_ok_def off_limit_def)
  note ge = Client_GetChunk_effect [OF g, unfolded x(1)]
  have st: "status_ok st" using ge e1(2) e2(2,3) free(2) x(2,3) len by (simp add: vacant_def)
  then have f3: "fsys s3 = temp_fs (fsys s) ?p (Some (fs_next (fsys s))) payload payload" and sm3: "smooth s3"
    using ge e1(2) e2(2,3) x(3) sched_tail_smooth by auto
  obtain gst s4 where gp: "get_publish P ?h ?p dest s3 = (gst, s4)" by fastforce
  have laws: "blake3_laws P" using hash by (simp add: same_hash_def)
  have "file_digest P payload = (resp_size ?h, resp_checksum ?h)"
    using chunk_at_digest [of Q, OF _ at] ok hash by (simp add: file_digest_def platform_ok_def same_hash_def)
  then have "st_code gst = kOk"
    using get_publish_phases [OF gp laws f3 len get_temp_neq] sm3 free by (simp add: vacant_def)
  then have "gst = Status_Ok"
    using get_publish_phases [OF gp laws f3 len get_temp_neq] by (auto simp: status_ok_def)
  moreover have "ObjectId_valid oid" using cid by (simp add: storable_iff ObjectId_valid_def)
  ultimately show ?thesis
    using get Get_passed [of oid cid dest s s1 "GrpcDataPlaneClient_vtable P ?stub gc" ep n "StatusOr_value ?h" n1 ?h P k s2 st s3 n3]
      cid(1) e1(1) e2(1) h(1) g st gp
    by (simp add: GrpcDataPlaneClient_vtable_def)
qed

end
