(* ===== verification/Sample_Client.thy ===== *)
theory Sample_Client
  imports Calm_Runs Sample_Run
begin

text \<open>
  A client connected to a worker, and a concrete client machine with one small file, on which the
  properties of the client are exercised.
\<close>

section \<open>A client connected to a worker\<close>

definition connected ::
  "'h platform \<Rightarrow> 'k platform \<Rightarrow> FileChunkStore \<Rightarrow> u64 \<Rightarrow> GrpcDataPlaneClient \<Rightarrow> WorkerEndpoint \<Rightarrow> conn StorageClient" where
  "connected P Q store addr c ep =
     \<lparr>data_plane = GrpcDataPlaneClient_vtable P (conn_stub (FileChunkStore_vtable Q store) addr) c, worker = ep\<rparr>"

definition object_chunk :: "ObjectId \<Rightarrow> ChunkId" where
  "object_chunk oid = \<lparr>chunk_id_value = object_id_value oid\<rparr>"

definition client_fs :: fs where
  "client_fs = empty_fs\<lparr>fs_dir := (\<lambda>p. if p = ''/in'' then Some 0 else None), fs_data := (\<lambda>i. [1, 2, 3]), fs_next := 1\<rparr>"

definition client_os :: os where
  "client_os = sample_os\<lparr>fsys := client_fs\<rparr>"

definition sample_endpoint :: WorkerEndpoint where
  "sample_endpoint = \<lparr>host = ''127.0.0.1'', control_port = 50052, data_port = 50052\<rparr>"

definition conn_to :: "os \<Rightarrow> conn" where
  "conn_to w = \<lparr>cn_worker = w, cn_sent = [], cn_cancelled = False, cn_answer = Grpc_Ok, cn_unparsed = cancelled, cn_writes = [], cn_plan = []\<rparr>"

definition sample_client :: "conn StorageClient" where
  "sample_client = connected sample_platform sample_platform sample_store 42 GrpcDataPlaneClient_default sample_endpoint"

definition sample_object :: ObjectId where
  "sample_object = \<lparr>object_id_value = ''a''\<rparr>"

definition upload :: "Status \<times> os \<times> conn" where
  "upload = StorageClient_Put sample_platform sample_client sample_object ''/in'' client_os (conn_to sample_os)"

definition download :: "(errno + Status) \<times> u64 \<times> os \<times> conn" where
  "download = StorageClient_Get sample_platform sample_client sample_object ''/out'' 0 client_os (conn_to rested)"

lemma upload_eq:
  "StorageClient_Put sample_platform sample_client sample_object ''/in'' client_os (conn_to sample_os) =
     (fst upload, fst (snd upload), snd (snd upload))"
  by (simp add: upload_def)

lemma download_eq:
  "StorageClient_Get sample_platform sample_client sample_object ''/out'' 0 client_os (conn_to rested) =
     (fst download, fst (snd download), fst (snd (snd download)), snd (snd (snd download)))"
  by (simp add: download_def)

lemma sample_ids: "utf8 ''a''" "wire_ids (store_view sample_store sample_os)" "wire_ids (store_view sample_store rested)"
proof -
  show a: "utf8 ''a''" by (rule utf8_ascii) (simp add: byte_in_def)
  have none: "store_view sample_store sample_os cid = None" for cid
    by (simp add: store_view_def chunk_at_def stored_def sample_os_def empty_fs_def)
  then show "wire_ids (store_view sample_store sample_os)" by (simp add: wire_ids_def)
  have "store_view sample_store rested = store_view sample_store sample_stored" by (simp add: rested_def store_view_def fun_eq_iff)
  moreover have "put_spec (blake3_checksum sample_platform) sample_request list_input [[1, 2], [3]] (fst sample_put) (fst (snd sample_put))
      (store_view sample_store sample_os) (store_view sample_store sample_stored)"
    using fcs.put_law [OF sample_platform_ok list_input_ok, of sample_request]
    by (simp add: FileChunkStore_vtable_def sample_put_eq)
  ultimately show "wire_ids (store_view sample_store rested)"
    using a none sample_put_ok
    by (auto simp: put_spec_def put_stored_def wire_ids_def sample_request_def sample_id_def split: if_splits)
qed

lemma sample_conns:
  "conn_inv sample_platform sample_store (conn_to sample_os)" "conn_inv sample_platform sample_store (conn_to rested)"
  "calm (conn_to sample_os)" "calm (conn_to rested)" "same_hash sample_platform sample_platform"
  using sample_platform_ok rested_ok rested_smooth sample_laws sample_ids
  by (simp_all add: conn_inv_def conn_view_def conn_to_def calm_def same_hash_def) (simp add: sample_os_def)

lemma client_os_facts:
  "sizes_ok (fsys client_os)" "smooth client_os" "fs_dir (fsys client_os) ''/in'' = Some 0"
  "fs_data (fsys client_os) 0 = [1, 2, 3]" "fs_next (fsys client_os) = 1"
  by (simp_all add: client_os_def client_fs_def sample_os_def sizes_ok_def off_limit_def)

lemma sample_object_chunk: "object_chunk sample_object = sample_id" "storable sample_id"
  by (simp_all add: object_chunk_def sample_object_def sample_id_def storable_iff)

lemma sample_takes: "takes sample_platform sample_store 42 sample_id sample_os"
  using sample_names sample_object_chunk(2) by (simp add: takes_def sample_os_def empty_fs_def)

lemma sample_views:
  "conn_view sample_store (conn_to sample_os) sample_id = None"
  "conn_view sample_store (conn_to rested) sample_id = Some (expected_checksum sample_request, [1, 2, 3])"
  using rested_chunk
  by (simp_all add: conn_view_def conn_to_def store_view_def chunk_at_def stored_def sample_os_def empty_fs_def)

lemma local_names:
  "path_filename ''/in'' = ''in''" "path_filename ''/out'' = ''out''" "path_parent ''/out'' = ''/''"
  by (simp_all add: path_filename_def path_parent_def slash_def)

lemma sample_vacant:
  "vacant ''/out'' (fsys client_os)" "vacant (get_temp_path sample_platform ''/out'' 0) (fsys client_os)"
proof -
  show "vacant ''/out'' (fsys client_os)"
    using local_names by (simp add: vacant_def name_too_long_def NAME_MAX_def client_os_def client_fs_def empty_fs_def)
  have "path_filename (get_temp_path sample_platform ''/out'' 0) = ''out.tmp.7.0''"
    unfolding path_filename_temp local_names by (simp add: sample_platform_def to_string_nat.simps digit_char_def char_of_def bit_0)
  then show "vacant (get_temp_path sample_platform ''/out'' 0) (fsys client_os)"
    using local_names by (auto simp: vacant_def name_too_long_def NAME_MAX_def client_os_def client_fs_def empty_fs_def)
qed

lemma upload_ok: "status_ok (fst upload)"
proof -
  have "takes sample_platform sample_store 42 \<lparr>chunk_id_value = object_id_value sample_object\<rparr> (cn_worker (conn_to sample_os))"
    "conn_view sample_store (conn_to sample_os) \<lparr>chunk_id_value = object_id_value sample_object\<rparr> = None"
    using sample_takes sample_views(1) sample_object_chunk(1) by (simp_all add: conn_to_def object_chunk_def)
  then show ?thesis
    using put_calm [OF upload_eq [unfolded sample_client_def connected_def] sample_conns(5,1,3) client_os_facts(2,3)]
      local_names client_os_facts(4) sample_ids(1)
    by (simp add: status_ok_def sample_object_def name_too_long_def NAME_MAX_def off_limit_def kHeaderSize_eq)
qed

lemma upload_stored:
  "conn_view sample_store (snd (snd upload)) sample_id = Some (blake3_checksum sample_platform [1, 2, 3], [1, 2, 3])"
proof -
  have "conn_view sample_store (snd (snd upload)) (object_chunk sample_object) =
      Some (blake3_checksum sample_platform [1, 2, 3], [1, 2, 3])"
    using wch.channel_put [OF upload_eq [unfolded sample_client_def connected_def] sample_laws refl sample_conns(1)
        client_os_facts(1)] upload_ok client_os_facts(3,4)
    by (auto simp: object_chunk_def)
  then show ?thesis by (simp add: sample_object_chunk)
qed

lemma download_ok: "fst download = Inr Status_Ok"
  by (rule get_calm [OF download_eq [unfolded sample_client_def connected_def] sample_conns(5,2,4) client_os_facts(2)
        sample_object_chunk(1) [symmetric, unfolded object_chunk_def] sample_object_chunk(2) sample_views(2) sample_vacant])

lemma put_call_ok:
  "status_ok (fst (GrpcDataPlaneClient_PutChunk sample_platform (conn_stub (FileChunkStore_vtable sample_platform sample_store) 42)
     GrpcDataPlaneClient_default sample_endpoint sample_request ''/in'' client_os (conn_to sample_os)))"
proof -
  let ?stub = "conn_stub (FileChunkStore_vtable sample_platform sample_store) 42"
  let ?call = "GrpcDataPlaneClient_PutChunk sample_platform ?stub
       GrpcDataPlaneClient_default sample_endpoint sample_request ''/in'' client_os (conn_to sample_os)"
  have "?call = (fst ?call, fst (snd ?call), snd (snd ?call))" by simp
  note e = Client_PutChunk_effect [OF this]
  have ex: "put_exchange ?stub (stub_put_open ?stub (MakeStub_target sample_endpoint) (deadline GrpcDataPlaneClient_default)
      (conn_to sample_os)) sample_request [1, 2, 3] (fst ?call) (snd (snd ?call))"
    using e client_os_facts local_names by (auto simp: name_too_long_def NAME_MAX_def)
  have "put_chunk_id sample_request = sample_id" by (simp add: sample_request_def)
  with put_exchange_calm [OF ex sample_conns(3,1) sample_valid] sample_takes sample_views(1) sample_ids(1) show ?thesis
    by (simp add: status_ok_def sample_id_def conn_to_def kHeaderSize_eq off_limit_def sample_request_def)
qed

end
