(* ===== verification/Client_Properties.thy ===== *)
theory Client_Properties
  imports Sample_Client
begin

text \<open>
  Properties of the client, alone against any peer, and together with the worker over a
  connection that may refuse frames, break in the middle of a call and lose answers.
\<close>

section \<open>Client and worker\<close>

text \<open>
  C15: an upload is all or nothing. Whatever system calls fail on either machine and however the
  connection is disturbed, \<open>StorageClient::Put\<close> changes nothing on the client, and the worker
  either keeps its chunks as they were or has gained exactly the source file, under an identifier
  that was free, with its digest; it has gained it if the client reports success.
\<close>

theorem client_upload:
  assumes "StorageClient_Put P (connected P Q store addr c ep) oid src s n = (st, s', n')"
    and "same_hash P Q" and "conn_inv Q store n" and "sizes_ok (fsys s)"
  shows "fsys s' = fsys s \<and> fds s' = fds s \<and> conn_inv Q store n' \<and>
    ((\<not> status_ok st \<and> conn_view store n' = conn_view store n) \<or>
     (\<exists>i. fs_dir (fsys s) src = Some i \<and> conn_view store n (object_chunk oid) = None \<and>
        conn_view store n' = (conn_view store n)
          (object_chunk oid \<mapsto> (blake3_checksum Q (fs_data (fsys s) i), fs_data (fsys s) i))))"
  using wch.channel_put [OF assms(1) [unfolded connected_def] _ _ assms(3,4)] assms(2)
  by (auto simp: same_hash_def object_chunk_def quiet_def)

theorem client_upload_witness:
  "conn_view sample_store (snd (snd upload)) (object_chunk sample_object) =
     Some (blake3_checksum sample_platform [1, 2, 3], [1, 2, 3])"
  using client_upload [OF upload_eq [unfolded sample_client_def] sample_conns(5,1) client_os_facts(1)]
    client_os_facts(3,4) upload_ok by auto

text \<open>
  C16: a download is the stored object. Whatever fails, \<open>StorageClient::Get\<close> changes no chunk. If
  it reports success, the destination did not exist and now is a file that holds exactly the
  payload of the worker's chunk, forced to disk; otherwise no file but the temporary one has
  changed, and at no moment in between is a destination visible that is not complete.
\<close>

theorem client_download:
  assumes "StorageClient_Get P (connected P Q store addr c ep) oid dest k s n = (res, k', s', n')"
    and "same_hash P Q" and "conn_inv Q store n"
  shows "conn_inv Q store n' \<and> conn_view store n' = conn_view store n \<and> fds s' = fds s \<and>
    (if res = Inr Status_Ok
     then \<exists>i ck payload. conn_view store n (object_chunk oid) = Some (ck, payload) \<and> fs_dir (fsys s) dest = None \<and>
            fs_dir (fsys s') dest = Some i \<and> fs_data (fsys s') i = payload \<and> dur_data (fsys s') i = payload \<and>
            (\<forall>g new. trace s' = new @ trace s \<and> g \<in> set new \<longrightarrow> fs_dir g dest = None \<or>
               (fs_dir g dest = Some i \<and> fs_data g i = payload))
     else (\<forall>st. res = Inr st \<longrightarrow> \<not> status_ok st) \<and>
          (\<forall>g new. trace s' = new @ trace s \<and> g \<in> insert (fsys s') (set new) \<longrightarrow>
             (\<forall>q. q \<noteq> get_temp_path P dest k \<longrightarrow> fs_dir g q = fs_dir (fsys s) q) \<and>
             (\<forall>i < fs_next (fsys s). fs_data g i = fs_data (fsys s) i)))"
proof -
  let ?p = "get_temp_path P dest k"
  have laws: "blake3_laws P" using assms(2) by (simp add: same_hash_def)
  note ne = get_temp_neq [of P dest k]
  note g = wch.channel_get [OF assms(1) [unfolded connected_def] laws assms(3), folded object_chunk_def]
  show ?thesis
  proof (cases "res = Inr Status_Ok")
    case False
    then have k: "keeps (only_temp (fsys s) ?p) s s'" "\<forall>st. res = Inr st \<longrightarrow> \<not> status_ok st" using g by auto
    have "only_temp (fsys s) ?p h" if "trace s' = new @ trace s" "h \<in> insert (fsys s') (set new)" for h new
      using keeps_moments [OF k(1) that(1)] keeps_last [OF k(1)] that(2) by auto
    with k(2) g False show ?thesis by (auto dest: only_temp_frame)
  next
    case True
    then obtain payload where d: "fs_dir (fsys s) dest = None"
      "conn_view store n (object_chunk oid) = Some (blake3_checksum P payload, payload)"
      "keeps (put_moment (fsys s) ?p dest payload) s s'" "committed (fsys s) ?p dest payload (fsys s')"
      using g by auto
    let ?i = "fs_next (fsys s)"
    have e: "fs_dir (fsys s') dest = Some ?i" "fs_data (fsys s') ?i = payload" "dur_data (fsys s') ?i = payload"
      using d(4) by (auto simp: committed_def)
    have m: "\<forall>h new. trace s' = new @ trace s \<and> h \<in> set new \<longrightarrow>
        fs_dir h dest = None \<or> (fs_dir h dest = Some ?i \<and> fs_data h ?i = payload)"
      using keeps_moments [OF d(3)] d(1) ne by (fastforce simp: put_moment_def scratch_def committed_def)
    show ?thesis
      by (subst if_P [OF True]) (use g d(1,2) e m in blast)
  qed
qed

theorem client_download_witness:
  "\<exists>i. fs_dir (fsys (fst (snd (snd download)))) ''/out'' = Some i \<and> fs_data (fsys (fst (snd (snd download)))) i = [1, 2, 3]"
  using client_download [OF download_eq [unfolded sample_client_def] sample_conns(5,2)] download_ok sample_views(2)
  by (auto simp: sample_object_chunk)

text \<open>
  C17: round trip. If an upload reported success and the chunk has not been touched since, a
  download that reports success, on the same or another client, yields a file with the contents
  the source had.
\<close>

theorem client_roundtrip:
  assumes "StorageClient_Put P (connected P Q store addr c ep) oid src s n = (st, s1, n1)" and "status_ok st"
    and "StorageClient_Get P' (connected P' Q store addr' c' ep') oid dest k t m = (Inr Status_Ok, k', t', m')"
    and "same_hash P Q" and "same_hash P' Q" and "conn_inv Q store n" and "conn_inv Q store m" and "sizes_ok (fsys s)"
    and "conn_view store m (object_chunk oid) = conn_view store n1 (object_chunk oid)"
  shows "\<exists>i j. fs_dir (fsys s) src = Some i \<and> fs_dir (fsys t') dest = Some j \<and>
    fs_data (fsys t') j = fs_data (fsys s) i"
proof -
  have P: "blake3_laws P" "blake3_checksum Q = blake3_checksum P" and P': "blake3_laws P'"
    using assms(4,5) by (simp_all add: same_hash_def)
  obtain i where i: "fs_dir (fsys s) src = Some i"
    "conn_view store n1 (object_chunk oid) = Some (blake3_checksum Q (fs_data (fsys s) i), fs_data (fsys s) i)"
    using wch.channel_put [OF assms(1) [unfolded connected_def] P assms(6,8)] assms(2) by (auto simp: object_chunk_def)
  obtain payload where "conn_view store m (object_chunk oid) = Some (blake3_checksum P' payload, payload)"
    "committed (fsys t) (get_temp_path P' dest k) dest payload (fsys t')"
    using wch.channel_get [OF assms(3) [unfolded connected_def] P' assms(7)] by (auto simp: object_chunk_def)
  then have "fs_dir (fsys t') dest = Some (fs_next (fsys t))" "fs_data (fsys t') (fs_next (fsys t)) = fs_data (fsys s) i"
    using assms(9) i(2) by (auto simp: committed_def)
  with i(1) show ?thesis by blast
qed

theorem client_roundtrip_witness:
  "\<exists>j. fs_dir (fsys (fst (snd (snd download)))) ''/out'' = Some j \<and>
     fs_data (fsys (fst (snd (snd download)))) j = fs_data (fsys client_os) 0"
proof -
  have "conn_view sample_store (conn_to rested) (object_chunk sample_object) =
      conn_view sample_store (snd (snd upload)) (object_chunk sample_object)"
    using sample_views(2) upload_stored by (simp add: sample_object_chunk sample_request_def)
  from client_roundtrip [OF upload_eq [unfolded sample_client_def] upload_ok
      download_eq [unfolded sample_client_def download_ok] sample_conns(5,5,1,2) client_os_facts(1) this]
  show ?thesis using client_os_facts(3) by simp
qed

text \<open>
  C26: completeness of uploads. Where no system call fails and the connection is undisturbed, the
  source can be opened, the identifier is UTF-8, which the string fields of the protocol demand, and
  it fits the worker's file names, an upload of any file up to the size limit is accepted if the
  identifier is free, and answered with \<open>kAlreadyExists\<close> otherwise.
\<close>

theorem upload_complete:
  assumes "StorageClient_Put P (connected P Q store addr c ep) oid src s n = (st, s', n')"
    and "same_hash P Q" and "conn_inv Q store n" and "calm n" and "smooth s"
    and "fs_dir (fsys s) src = Some i" and "\<not> name_too_long src"
    and "kHeaderSize + length (fs_data (fsys s) i) < off_limit"
    and "takes Q store addr (object_chunk oid) (cn_worker n)" and "utf8 (object_id_value oid)"
  shows "st_code st = (if conn_view store n (object_chunk oid) = None then kOk else kAlreadyExists)"
  using put_calm [OF assms(1) [unfolded connected_def] assms(2-8)] assms(9,10) by (simp add: object_chunk_def)

theorem upload_complete_witness: "st_code (fst upload) = kOk"
proof -
  have "\<not> name_too_long ''/in''" "kHeaderSize + length (fs_data (fsys client_os) 0) < off_limit"
    "takes sample_platform sample_store 42 (object_chunk sample_object) (cn_worker (conn_to sample_os))" "utf8 (object_id_value sample_object)"
    using local_names client_os_facts(4) sample_takes sample_ids(1)
    by (simp_all add: name_too_long_def NAME_MAX_def off_limit_def kHeaderSize_eq sample_object_chunk conn_to_def) (simp add: sample_object_def)
  from upload_complete [OF upload_eq [unfolded sample_client_def] sample_conns(5,1,3) client_os_facts(2,3) this]
  show ?thesis using sample_views(1) by (simp add: sample_object_chunk)
qed

text \<open>
  The hypothesis is needed: whatever the connection does, an upload under any other identifier fails,
  although \<open>ObjectId\<close> and \<open>ChunkId\<close> accept it.
\<close>

lemma upload_needs_utf8:
  assumes "StorageClient_Put P (connected P Q store addr c ep) oid src s n = (st, s', n')"
    and "same_hash P Q" and "conn_inv Q store n" and "sizes_ok (fsys s)" and "\<not> utf8 (object_id_value oid)"
  shows "\<not> status_ok st \<and> conn_view store n' = conn_view store n"
proof -
  have laws: "blake3_laws P" using assms(2) by (simp add: same_hash_def)
  note up = wch.channel_put [OF assms(1) [unfolded connected_def] laws _ assms(3,4), folded object_chunk_def]
  have "wire_ids (conn_view store n')" "\<not> utf8 (chunk_id_value (object_chunk oid))"
    using up assms(2,5) by (simp_all add: same_hash_def conn_inv_def object_chunk_def)
  then have "conn_view store n' (object_chunk oid) = None" unfolding wire_ids_def by blast
  then show ?thesis using up assms(2) by (auto simp: same_hash_def)
qed

text \<open>
  C27: completeness of downloads. Where no system call fails and the connection is undisturbed, an
  existing object can be downloaded to any name that is free, its temporary name being free too.
\<close>

theorem download_complete:
  assumes "StorageClient_Get P (connected P Q store addr c ep) oid dest k s n = (res, k', s', n')"
    and "same_hash P Q" and "conn_inv Q store n" and "calm n" and "smooth s" and "storable (object_chunk oid)"
    and "conn_view store n (object_chunk oid) = Some (ck, payload)"
    and "vacant dest (fsys s)" and "vacant (get_temp_path P dest k) (fsys s)"
  shows "res = Inr Status_Ok"
  by (rule get_calm [OF assms(1) [unfolded connected_def] assms(2-5) object_chunk_def assms(6-9)])

theorem download_complete_witness: "fst download = Inr Status_Ok"
  using download_complete [OF download_eq [unfolded sample_client_def] sample_conns(5,2,4) client_os_facts(2) _ _ sample_vacant]
    sample_object_chunk sample_views(2) by simp

text \<open>
  C34: deletion and metadata from the client. \<open>Delete\<close> removes at most the named object, even if the
  answer is lost, and has removed it if it reports success; \<open>Head\<close> changes nothing and reports
  only the size and checksum of an existing object.
\<close>

theorem client_delete_head:
  assumes "conn_inv Q store n"
    and "StorageClient_Delete (connected P Q store addr c ep) oid n = (st, n1)"
    and "StorageClient_Head (connected P Q store addr c ep) oid n = (res, n2)"
  shows "(conn_view store n1 = conn_view store n \<and> \<not> status_ok st \<or>
      conn_view store n (object_chunk oid) \<noteq> None \<and> conn_view store n1 = (conn_view store n)(object_chunk oid := None)) \<and>
    conn_view store n2 = conn_view store n \<and>
    (\<forall>h. so_opt res = Some h \<longrightarrow> (\<exists>payload. conn_view store n (object_chunk oid) = Some (resp_checksum h, payload) \<and>
       unat (resp_size h) = length payload))"
proof -
  have d: "(conn_view store n1 = conn_view store n \<and> \<not> status_ok st \<or>
      conn_view store n (object_chunk oid) \<noteq> None \<and> conn_view store n1 = (conn_view store n)(object_chunk oid := None))"
    using wch.channel_delete [OF assms(2) [unfolded connected_def] assms(1)] unfolding object_chunk_def by blast
  show ?thesis
  proof (cases "ObjectId_valid oid")
    case False
    then have "res = StatusOr_error (mk_Status kInvalidArgument ''object_id cannot be empty'')" "n2 = n"
      using assms(3) by (auto simp: StorageClient_Head_def ToChunkId_def)
    then show ?thesis using d by simp
  next
    case True
    then have "GrpcDataPlaneClient_HeadChunk (conn_stub (FileChunkStore_vtable Q store) addr) c ep
        \<lparr>head_chunk_id = object_chunk oid\<rparr> n = (res, n2)"
      using assms(3)
      by (simp add: StorageClient_Head_def ToChunkId_def connected_def GrpcDataPlaneClient_vtable_def object_chunk_def)
    from wch.head_call_keeps [OF this assms(1)] d show ?thesis by simp
  qed
qed

theorem client_delete_head_witness:
  "conn_view sample_store (snd (StorageClient_Head sample_client sample_object (conn_to rested))) =
     conn_view sample_store (conn_to rested)"
  using client_delete_head [OF sample_conns(2) surjective_pairing [of "StorageClient_Delete sample_client sample_object (conn_to rested)",
        unfolded sample_client_def] surjective_pairing [of "StorageClient_Head sample_client sample_object (conn_to rested)",
        unfolded sample_client_def]]
  unfolding sample_client_def by blast

section \<open>The client against any peer\<close>

text \<open>
  C25: integrity. Whatever the peer sends, a download that reports success has linked to the
  destination, which did not exist, a file of exactly the size and with exactly the digest that
  the peer announced for it, and has changed no other file.
\<close>

theorem download_integrity:
  assumes "StorageClient_Get P \<lparr>data_plane = GrpcDataPlaneClient_vtable P stub c, worker = ep\<rparr> oid dest k s n =
      (Inr st, k', s', n')" and "blake3_laws P" and "status_ok st"
  shows "\<exists>h n1 v i. GrpcDataPlaneClient_HeadChunk stub c ep \<lparr>head_chunk_id = object_chunk oid\<rparr> n = (h, n1) \<and>
    so_opt h = Some v \<and> fs_dir (fsys s) dest = None \<and> fs_dir (fsys s') dest = Some i \<and>
    length (fs_data (fsys s') i) = unat (resp_size v) \<and> blake3_checksum P (fs_data (fsys s') i) = resp_checksum v \<and>
    (\<forall>q. q \<noteq> dest \<and> q \<noteq> get_temp_path P dest k \<longrightarrow> fs_dir (fsys s') q = fs_dir (fsys s) q) \<and>
    (\<forall>j < fs_next (fsys s). fs_data (fsys s') j = fs_data (fsys s) j)"
proof -
  let ?p = "get_temp_path P dest k" and ?i = "fs_next (fsys s)"
  obtain h n1 v d where g: "fs_dir (fsys s) dest = None"
    "GrpcDataPlaneClient_HeadChunk stub c ep \<lparr>head_chunk_id = object_chunk oid\<rparr> n = (h, n1)" "so_opt h = Some v"
    "file_digest P d = (resp_size v, resp_checksum v)" "length d < off_limit" "committed (fsys s) ?p dest d (fsys s')"
    using gdp.storage_get [OF assms(1,2)] assms(3) by (auto simp: GrpcDataPlaneClient_vtable_def object_chunk_def)
  have "length d < 2 ^ 64" using g(5) by (simp add: off_limit_def)
  then have size: "length d = unat (resp_size v)" "blake3_checksum P d = resp_checksum v"
    using g(4) unat_of_nat_u64 [of "length d"] by (auto simp: file_digest_def)
  have "fs_dir (fsys s') dest = Some ?i" "fs_data (fsys s') ?i = d"
    "\<forall>q. q \<noteq> dest \<and> q \<noteq> ?p \<longrightarrow> fs_dir (fsys s') q = fs_dir (fsys s) q" "\<forall>j < ?i. fs_data (fsys s') j = fs_data (fsys s) j"
    using g(6) by (auto simp: committed_def)
  with g(1-3) size show ?thesis by blast
qed

theorem download_integrity_witness:
  "\<exists>i (v :: HeadChunkResponse). fs_dir (fsys (fst (snd (snd download)))) ''/out'' = Some i \<and>
     length (fs_data (fsys (fst (snd (snd download)))) i) = unat (resp_size v)"
  using download_integrity [OF download_eq [unfolded sample_client_def connected_def download_ok] sample_laws status_ok_Ok]
  by - (elim exE conjE, intro exI conjI, assumption+)

text \<open>
  \<open>HashFile\<close> ends under every schedule of interruptions and failures, changes nothing, and
  returns the size and digest of the whole file, or \<open>kIoError\<close>; it succeeds if no call fails, the
  file exists and its name is not too long.
\<close>

theorem hash_file:
  assumes "HashFile P p s = (res, s')" and "blake3_laws P"
  shows "fsys s' = fsys s \<and> fds s' = fds s \<and>
    (case so_opt res of
       Some (z, ck) \<Rightarrow> (\<exists>i. fs_dir (fsys s) p = Some i \<and> z = word_of_nat (length (fs_data (fsys s) i)) \<and>
                          ck = blake3_checksum P (fs_data (fsys s) i))
     | None \<Rightarrow> st_code (so_status res) = kIoError \<and>
                (smooth s \<longrightarrow> name_too_long p \<or> fs_dir (fsys s) p = None))"
proof -
  note r = HashFile_reads [OF assms]
  have "fsys s' = fsys s" "fds s' = fds s" using readsD(1) [OF r] by (simp_all add: quiet_def)
  then show ?thesis
    using readsD(4,5) [OF r] by (auto simp: file_digest_def hash_errs_def split: option.splits if_splits)
qed

theorem hash_file_witness:
  "so_opt (fst (HashFile sample_platform ''/in'' client_os)) = Some (3, blake3_checksum sample_platform [1, 2, 3])"
proof -
  have "\<not> name_too_long ''/in''" using local_names by (simp add: name_too_long_def NAME_MAX_def)
  with hash_file [OF surjective_pairing sample_laws, of "''/in''" client_os] client_os_facts show ?thesis
    by (auto split: option.splits)
qed

text \<open>
  What goes over the wire. An upload that reports success has offered to the peer, in one call,
  the metadata of the request followed by the source file cut into non-empty frames of at most
  3 MiB, in order and without gaps, and the whole file unless the peer refused a frame; no local
  file has changed.
\<close>

theorem upload_frames:
  assumes "GrpcDataPlaneClient_PutChunk P stub c ep req src s n = (st, s', n')" and "status_ok st"
  shows "fsys s' = fsys s \<and> fds s' = fds s \<and>
    (\<exists>i ds all n1. fs_dir (fsys s) src = Some i \<and> prefix (concat ds) (fs_data (fsys s) i) \<and>
      (\<forall>d \<in> set ds. d \<noteq> [] \<and> length d \<le> 3 * 1024 * 1024) \<and>
      offer stub (FrameMetadata (request_metadata req) # map FrameData ds)
        (stub_put_open stub (MakeStub_target ep) (deadline c) n) = (all, n1) \<and>
      (all \<longrightarrow> concat ds = fs_data (fsys s) i))"
proof -
  let ?n0 = "stub_put_open stub (MakeStub_target ep) (deadline c) n"
  note e = Client_PutChunk_effect [OF assms(1)]
  have q: "fsys s' = fsys s" "fds s' = fds s" using e by (simp_all add: quiet_def)
  obtain i where i: "fs_dir (fsys s) src = Some i" "put_exchange stub ?n0 req (fs_data (fsys s) i) st n'"
    using e assms(2) by (auto simp: status_ok_def)
  then obtain ds rest all n1 where "\<forall>d \<in> set ds. d \<noteq> [] \<and> length d \<le> kPutBufferSize" "fs_data (fsys s) i = concat ds @ rest"
    "offer stub (FrameMetadata (request_metadata req) # map FrameData ds) ?n0 = (all, n1)" "all \<longrightarrow> rest = []"
    unfolding put_exchange_def by blast
  then have "prefix (concat ds) (fs_data (fsys s) i) \<and> (\<forall>d \<in> set ds. d \<noteq> [] \<and> length d \<le> 3 * 1024 * 1024) \<and>
      offer stub (FrameMetadata (request_metadata req) # map FrameData ds) ?n0 = (all, n1) \<and>
      (all \<longrightarrow> concat ds = fs_data (fsys s) i)"
    by (auto simp: kPutBufferSize_def)
  with q i(1) show ?thesis by blast
qed

theorem upload_frames_witness:
  "\<exists>i. fs_dir (fsys client_os) ''/in'' = Some i \<and>
     fsys (fst (snd (GrpcDataPlaneClient_PutChunk sample_platform (conn_stub (FileChunkStore_vtable sample_platform sample_store) 42)
       GrpcDataPlaneClient_default sample_endpoint sample_request ''/in'' client_os (conn_to sample_os)))) = fsys client_os"
proof -
  let ?call = "GrpcDataPlaneClient_PutChunk sample_platform (conn_stub (FileChunkStore_vtable sample_platform sample_store) 42)
       GrpcDataPlaneClient_default sample_endpoint sample_request ''/in'' client_os (conn_to sample_os)"
  have "?call = (fst ?call, fst (snd ?call), snd (snd ?call))" by simp
  from upload_frames [OF this] put_call_ok show ?thesis by blast
qed

text \<open>
  C35: statuses survive the wire. Every well-formed status a handler reports is reconstructed by the
  client without change, from a response as well as from the status of the call, and a code the
  client does not know is never taken for success.
\<close>

theorem wire_statuses:
  assumes "status_inv st"
  shows "FromRpcStatus (SetStatus st) = st \<and> FromGrpcStatus (ToGrpcStatus st) = st \<and>
    (\<forall>k m. st_code (FromRpcStatus \<lparr>rpc_code = STATUS_CODE_OTHER k, rpc_message = m\<rparr>) = kInternal) \<and>
    (\<forall>g. status_ok (FromGrpcStatus g) \<longleftrightarrow> grpc_code g = GRPC_OK)"
  using FromRpcStatus_SetStatus [OF assms] FromGrpcStatus_ToGrpcStatus [OF assms]
  by (simp add: FromRpcStatus_def grpc_ok_def)

theorem wire_statuses_witness:
  "FromGrpcStatus (ToGrpcStatus (mk_Status kCorruption ''bad'')) = mk_Status kCorruption ''bad''"
  using wire_statuses [OF status_inv_mk_Status, of kCorruption "''bad''"] by blast

text \<open>
  C39: the types of the answers. Whatever the schedule of failures, the files on disk and the peer are
  like, the handlers of a worker answer with well-formed statuses, which the client reconstructs
  unchanged, and only with the codes listed here for each operation; the codes \<open>kInternal\<close>, \<open>kTimeout\<close>
  and \<open>kResourceExhausted\<close> never occur, in particular no \<open>StatusOr\<close> is built from an OK status.
\<close>

theorem worker_answers:
  assumes "WorkerService_PutChunk (worker_over (FileChunkStore_vtable P store)) addr R rd resp s = (g1, resp1, rd1, s1)"
    and "WorkerService_GetChunk (worker_over (FileChunkStore_vtable P store)) req W x s = (g2, x2, s2)"
    and "WorkerService_HeadChunk (worker_over (FileChunkStore_vtable P store)) cid hresp s = (g3, resp3, s3)"
    and "WorkerService_DeleteChunk (worker_over (FileChunkStore_vtable P store)) cid resp s = (g4, resp4, s4)"
  shows "((\<exists>st. answers {kOk, kInvalidArgument, kAlreadyExists, kUnavailable, kIoError, kCorruption} st \<and>
             g1 = Grpc_Ok \<and> op_status resp1 = SetStatus st \<and> FromRpcStatus (op_status resp1) = st) \<or>
           (FromGrpcStatus g1 = mk_Status kInvalidArgument ''first put frame must contain metadata'' \<and> s1 = s)) \<and>
    (\<exists>st. answers {kOk, kInvalidArgument, kNotFound, kUnavailable, kIoError, kCorruption} st \<and>
       g2 = ToGrpcStatus st \<and> FromGrpcStatus g2 = st) \<and>
    (\<exists>st. answers {kOk, kInvalidArgument, kNotFound, kIoError, kCorruption} st \<and>
       g3 = Grpc_Ok \<and> rhead_status resp3 = SetStatus st \<and> FromRpcStatus (rhead_status resp3) = st) \<and>
    (\<exists>st. answers {kOk, kInvalidArgument, kNotFound, kIoError} st \<and>
       g4 = Grpc_Ok \<and> op_status resp4 = SetStatus st \<and> FromRpcStatus (op_status resp4) = st)"
proof -
  have codes: "{kOk} \<union> put_codes = {kOk, kInvalidArgument, kAlreadyExists, kUnavailable, kIoError, kCorruption}"
    "{kOk} \<union> head_codes \<union> {kUnavailable} = {kOk, kInvalidArgument, kNotFound, kUnavailable, kIoError, kCorruption}"
    "{kOk} \<union> head_codes = {kOk, kInvalidArgument, kNotFound, kIoError, kCorruption}"
    by (auto simp: put_codes_def head_codes_def)
  note h = put_handler_answers [OF refl assms(1), unfolded codes(1)] get_handler_answers [OF refl assms(2), unfolded codes(2)]
    head_handler_answers [OF refl assms(3), unfolded codes(3)] delete_handler_answers [OF refl assms(4)]
  show ?thesis by (intro conjI) (rule h)+
qed

theorem worker_answers_witness:
  "\<exists>st. answers {kOk, kInvalidArgument, kAlreadyExists, kUnavailable, kIoError, kCorruption} st \<and>
     FromRpcStatus (op_status (fst (snd sample_call))) = st"
proof -
  let ?w = "worker_over (FileChunkStore_vtable sample_platform sample_store :: (PutChunkFrame list RpcInputStream, byte list list, os) ChunkStore)"
  let ?req = "\<lparr>rget_chunk_id = ''a'', rget_offset = 0, rget_size = 3\<rparr>"
  have p: "WorkerService_PutChunk (worker_over (FileChunkStore_vtable sample_platform sample_store :: (_, byte list, os) ChunkStore)) 42
      list_reader sample_frames unset_operation sample_os =
      (fst sample_call, fst (snd sample_call), fst (snd (snd sample_call)), snd (snd (snd sample_call)))"
    by (simp add: sample_call_def unset_operation_def)
  obtain g2 x2 s2 where g: "WorkerService_GetChunk ?w ?req list_writer [] sample_os = (g2, x2, s2)" by (metis surj_pair)
  obtain g3 r3 s3 where h: "WorkerService_HeadChunk ?w ''a'' unset_head sample_os = (g3, r3, s3)" by (metis surj_pair)
  obtain g4 r4 s4 where d: "WorkerService_DeleteChunk ?w ''a'' unset_operation sample_os = (g4, r4, s4)" by (metis surj_pair)
  have "fst sample_call = Grpc_Ok"
    by (simp add: sample_call_def WorkerService_PutChunk_def sample_frames_def list_reader_def Let_def split: prod.splits)
  then have "FromGrpcStatus (fst sample_call) = Status_Ok" by (simp add: FromGrpcStatus_def grpc_ok_def Grpc_Ok_def)
  with worker_answers [OF p g h d] show ?thesis by auto
qed

end
