(* ===== verification/Process_Mains.thy ===== *)
theory Process_Mains
  imports Sample_Client
begin

text \<open>
  The processes around the components: their configuration (\<open>src/common/config.cpp\<close>), the set-up of
  logging (\<open>src/common/logging.cpp\<close>) and the three \<open>main\<close> functions (\<open>src/control/control_main.cpp\<close>,
  \<open>src/worker/worker_main.cpp\<close>, \<open>src/client/client_main.cpp\<close>).

  CLI11, spdlog and the gRPC server are parameters. A parser of the command line returns the
  message of a \<open>CLI::ParseError\<close> or the values given to the declared options; the logging library
  is a state with the functions the code calls; a server builder says whether a server started
  on an address. What a process prints, serves and returns is its result.
\<close>

section \<open>Configuration\<close>

text \<open>\<open>app.parse\<close> with the description of the application and the names of its options.\<close>

type_synonym parser = "string \<Rightarrow> string list \<Rightarrow> string list \<Rightarrow> string + (string \<Rightarrow> string option)"

definition Parse :: "parser \<Rightarrow> string \<Rightarrow> string list \<Rightarrow> string list \<Rightarrow> Status \<times> (string \<Rightarrow> string option)" where
  "Parse parse app options argv =
     (case parse app options argv of
        Inl what \<Rightarrow> (mk_Status kInvalidArgument what, Map.empty)
      | Inr given \<Rightarrow> (Status_Ok, given))"

text \<open>An option that is not given leaves the variable bound to it as it was.\<close>

definition bound :: "(string \<Rightarrow> string option) \<Rightarrow> string \<Rightarrow> string \<Rightarrow> string" where
  "bound given name initial = (case given name of None \<Rightarrow> initial | Some v \<Rightarrow> v)"

record ControlConfig =
  control_listen_address :: string

record WorkerConfig =
  config_worker_id :: WorkerId
  worker_listen_address :: string
  storage_root :: path

record ClientConfig =
  config_control_address :: string
  config_worker_address :: string

definition ControlConfig_default :: ControlConfig where
  "ControlConfig_default = \<lparr>control_listen_address = ''127.0.0.1:50051''\<rparr>"

definition WorkerConfig_default :: WorkerConfig where
  "WorkerConfig_default =
     \<lparr>config_worker_id = \<lparr>worker_id_value = ''worker-v0''\<rparr>, worker_listen_address = ''127.0.0.1:50052'',
      storage_root = ''./worker-data''\<rparr>"

definition ClientConfig_default :: ClientConfig where
  "ClientConfig_default =
     \<lparr>config_control_address = ''127.0.0.1:50051'', config_worker_address = ''127.0.0.1:50052''\<rparr>"

definition LoadControlConfig :: "parser \<Rightarrow> string list \<Rightarrow> ControlConfig StatusOr" where
  "LoadControlConfig parse argv =
     (let config = ControlConfig_default in
      case Parse parse ''Storage control plane'' [''--listen''] argv of (status, given) \<Rightarrow>
        if \<not> status_ok status then StatusOr_error status
        else StatusOr_value
          (config\<lparr>control_listen_address := bound given ''--listen'' (control_listen_address config)\<rparr>))"

definition LoadWorkerConfig :: "parser \<Rightarrow> string list \<Rightarrow> WorkerConfig StatusOr" where
  "LoadWorkerConfig parse argv =
     (let config = WorkerConfig_default in
      case Parse parse ''Storage worker'' [''--listen'', ''--worker-id'', ''--storage-root''] argv of (status, given) \<Rightarrow>
        if \<not> status_ok status then StatusOr_error status
        else
          let config =
            config\<lparr>worker_listen_address := bound given ''--listen'' (worker_listen_address config),
                   config_worker_id :=
                     \<lparr>worker_id_value = bound given ''--worker-id'' (worker_id_value (config_worker_id config))\<rparr>,
                   storage_root := bound given ''--storage-root'' (storage_root config)\<rparr>
          in if \<not> WorkerId_valid (config_worker_id config)
             then StatusOr_error (mk_Status kInvalidArgument ''--worker-id cannot be empty'')
             else StatusOr_value config)"

definition LoadClientConfig :: "parser \<Rightarrow> string list \<Rightarrow> ClientConfig StatusOr" where
  "LoadClientConfig parse argv =
     (let config = ClientConfig_default in
      case Parse parse ''Storage health client'' [''--control'', ''--worker''] argv of (status, given) \<Rightarrow>
        if \<not> status_ok status then StatusOr_error status
        else StatusOr_value
          (config\<lparr>config_control_address := bound given ''--control'' (config_control_address config),
                  config_worker_address := bound given ''--worker'' (config_worker_address config)\<rparr>))"

section \<open>Logging\<close>

datatype LogDestination = kStdout | kStderr

record LoggingOptions =
  log_level :: string
  log_pattern :: string
  log_destination :: LogDestination

definition LoggingOptions_default :: LoggingOptions where
  "LoggingOptions_default =
     \<lparr>log_level = ''info'', log_pattern = ''[%Y-%m-%d %H:%M:%S.%e] [%l] %v'', log_destination = kStderr\<rparr>"

text \<open>
  spdlog: its levels with \<open>off\<close> among them, a state, and the calls. Making a logger may throw.
\<close>

record ('lv, 'lg, 'l) Spdlog =
  from_str :: "string \<Rightarrow> 'lv"
  level_off :: 'lv
  stdout_color_mt :: "string \<Rightarrow> 'l \<Rightarrow> (string + 'lg) \<times> 'l"
  stderr_color_mt :: "string \<Rightarrow> 'l \<Rightarrow> (string + 'lg) \<times> 'l"
  set_default_logger :: "'lg \<Rightarrow> 'l \<Rightarrow> 'l"
  set_level :: "'lv \<Rightarrow> 'l \<Rightarrow> 'l"
  set_pattern :: "string \<Rightarrow> 'l \<Rightarrow> 'l"

text \<open>\<open>Inl\<close> is an exception of the library, with its message.\<close>

definition InitLogging :: "('lv, 'lg, 'l) Spdlog \<Rightarrow> LoggingOptions \<Rightarrow> 'l \<Rightarrow> (string + Status) \<times> 'l" where
  "InitLogging spd options l =
     (let level = from_str spd (log_level options) in
      if level = level_off spd \<and> log_level options \<noteq> ''off''
      then (Inr (mk_Status kInvalidArgument (''unknown log level: '' @ log_level options)), l)
      else (case (if log_destination options = kStdout then stdout_color_mt spd ''storage'' l
                  else stderr_color_mt spd ''storage'' l) of
              (Inl what, l) \<Rightarrow> (Inl what, l)
            | (Inr logger, l) \<Rightarrow>
                (Inr Status_Ok,
                 set_pattern spd (log_pattern options) (set_level spd level (set_default_logger spd logger l)))))"

section \<open>The servers\<close>

text \<open>What a server process does that others can see.\<close>

datatype 'sv event = LogError string | LogInfo string | Serve string 'sv

text \<open>How a process ends: with an exit code, or by an exception that nothing catches.\<close>

datatype exit = ExitCode int | Uncaught

datatype ('s, 'o, 'w) service = ControlPlane | Worker "('s, 'o, 'w) WorkerService"

text \<open>\<open>start\<close>: whether \<open>BuildAndStart\<close> gave a server; if it did, \<open>Wait\<close> returns when it is shut down.\<close>

definition control_main ::
  "('lv, 'lg, 'l) Spdlog \<Rightarrow> parser \<Rightarrow> (string \<Rightarrow> bool) \<Rightarrow> string list \<Rightarrow> 'l \<Rightarrow>
     exit \<times> ('s, 'o, 'w) service event list \<times> 'l" where
  "control_main spd parse start argv l =
     (case InitLogging spd LoggingOptions_default l of
        (Inl what, l) \<Rightarrow> (Uncaught, [], l)
      | (Inr log_status, l) \<Rightarrow>
          if \<not> status_ok log_status then (ExitCode 1, [], l)
          else (let config = LoadControlConfig parse argv in
            case so_opt config of
              None \<Rightarrow> (ExitCode 1,
                [LogError (''invalid control-plane configuration: '' @ st_message (so_status config))], l)
            | Some cfg \<Rightarrow>
                if \<not> start (control_listen_address cfg)
                then (ExitCode 1, [LogError (''failed to start control-plane on '' @ control_listen_address cfg)], l)
                else (ExitCode 0,
                  [LogInfo (''control-plane listening on '' @ control_listen_address cfg),
                   Serve (control_listen_address cfg) ControlPlane], l)))"

definition worker_main ::
  "'h platform \<Rightarrow> ('lv, 'lg, 'l) Spdlog \<Rightarrow> parser \<Rightarrow> (string \<Rightarrow> bool) \<Rightarrow> string list \<Rightarrow> 'l \<Rightarrow>
     exit \<times> ('s, 'o, os) service event list \<times> 'l" where
  "worker_main P spd parse start argv l =
     (case InitLogging spd LoggingOptions_default l of
        (Inl what, l) \<Rightarrow> (Uncaught, [], l)
      | (Inr log_status, l) \<Rightarrow>
          if \<not> status_ok log_status then (ExitCode 1, [], l)
          else (let config = LoadWorkerConfig parse argv in
            case so_opt config of
              None \<Rightarrow> (ExitCode 1,
                [LogError (''invalid worker configuration: '' @ st_message (so_status config))], l)
            | Some cfg \<Rightarrow>
                (let chunk_store = \<lparr>store_root = storage_root cfg\<rparr>;
                     data_plane = DataPlaneService_make (FileChunkStore_vtable P chunk_store);
                     service = WorkerService_make data_plane in
                 if \<not> start (worker_listen_address cfg)
                 then (ExitCode 1, [LogError (''failed to start worker on '' @ worker_listen_address cfg)], l)
                 else (ExitCode 0,
                   [LogInfo (''worker '' @ worker_id_value (config_worker_id cfg) @ '' listening on '' @ worker_listen_address cfg),
                    LogInfo (''worker storage root: '' @ storage_root cfg),
                    Serve (worker_listen_address cfg) (Worker service)], l))))"

section \<open>The client\<close>

definition Report :: "Status \<Rightarrow> int \<times> string" where
  "Report status =
     (if status_ok status then (0, [])
      else (1, ''error: '' @ st_message status @ [CHR 0x0A]))"

text \<open>
  What \<open>CLI11_PARSE\<close> leaves behind: it ends \<open>main\<close> with an exit code and a text on one of the
  streams, or one subcommand was chosen (\<open>require_subcommand(1)\<close>) and its required arguments are
  given; the ports were converted to 16 bits.
\<close>

record CommandLine =
  cl_worker_host :: "string option"
  cl_control_port :: "u16 option"
  cl_data_port :: "u16 option"
  cl_subcommand :: string
  cl_object_id :: string
  cl_path :: string

record Streams =
  out_text :: string
  err_text :: string

definition given_or :: "'a option \<Rightarrow> 'a \<Rightarrow> 'a" where
  "given_or x initial = (case x of None \<Rightarrow> initial | Some v \<Rightarrow> v)"

definition main_client :: "'h platform \<Rightarrow> 'n WorkerStub \<Rightarrow> CommandLine \<Rightarrow> 'n StorageClient" where
  "main_client P stub cl =
     \<lparr>data_plane = GrpcDataPlaneClient_vtable P stub \<lparr>deadline = 3600\<rparr>,
      worker = \<lparr>host = given_or (cl_worker_host cl) ''127.0.0.1'',
                control_port = given_or (cl_control_port cl) 50052,
                data_port = given_or (cl_data_port cl) 50052\<rparr>\<rparr>"

definition head_line :: "string \<Rightarrow> u64 \<Rightarrow> Checksum \<Rightarrow> string" where
  "head_line object_id sz ck =
     ''object_id='' @ object_id @ '' size='' @ to_string_nat (unat sz) @ '' checksum='' @ checksum_value ck @ [CHR 0x0A]"

definition client_main ::
  "'h platform \<Rightarrow> 'n WorkerStub \<Rightarrow> (string list \<Rightarrow> (int \<times> Streams) + CommandLine) \<Rightarrow> string list \<Rightarrow> os \<Rightarrow> 'n \<Rightarrow>
     exit \<times> Streams \<times> os \<times> 'n" where
  "client_main P stub parse argv s n =
     (case parse argv of
        Inl (code, streams) \<Rightarrow> (ExitCode code, streams, s, n)
      | Inr cl \<Rightarrow>
          (let client = main_client P stub cl; object_id = \<lparr>object_id_value = cl_object_id cl\<rparr> in
           if cl_subcommand cl = ''put''
           then (case StorageClient_Put P client object_id (cl_path cl) s n of
                   (status, s, n) \<Rightarrow>
                     (ExitCode (fst (Report status)), \<lparr>out_text = [], err_text = snd (Report status)\<rparr>, s, n))
           else if cl_subcommand cl = ''get''
           then (case StorageClient_Get P client object_id (cl_path cl) 0 s n of
                   (Inl e, k, s, n) \<Rightarrow> (Uncaught, \<lparr>out_text = [], err_text = []\<rparr>, s, n)
                 | (Inr status, k, s, n) \<Rightarrow>
                     (ExitCode (fst (Report status)), \<lparr>out_text = [], err_text = snd (Report status)\<rparr>, s, n))
           else if cl_subcommand cl = ''delete''
           then (case StorageClient_Delete client object_id n of
                   (status, n) \<Rightarrow>
                     (ExitCode (fst (Report status)), \<lparr>out_text = [], err_text = snd (Report status)\<rparr>, s, n))
           else (case StorageClient_Head client object_id n of
                   (response, n) \<Rightarrow>
                     (case so_opt response of
                        None \<Rightarrow> (ExitCode (fst (Report (so_status response))),
                                  \<lparr>out_text = [], err_text = snd (Report (so_status response))\<rparr>, s, n)
                      | Some r \<Rightarrow>
                          (ExitCode 0,
                           \<lparr>out_text = head_line (cl_object_id cl) (resp_size r) (resp_checksum r), err_text = []\<rparr>, s, n)))))"

section \<open>Properties\<close>

lemma InitLogging_unknown_level:
  assumes "InitLogging spd LoggingOptions_default l = (il, l1)" and "from_str spd ''info'' = level_off spd"
  shows "(\<exists>st. il = Inr st \<and> \<not> status_ok st) \<and> l1 = l"
  using assms by (auto simp: InitLogging_def LoggingOptions_default_def)

lemma LoadWorkerConfig_value:
  assumes "so_opt (LoadWorkerConfig parse argv) = Some x"
  shows "LoadWorkerConfig parse argv = StatusOr_value x \<and> WorkerId_valid (config_worker_id x)"
  using assms by (auto simp: LoadWorkerConfig_def Let_def split: prod.splits if_splits)

lemma LoadControlConfig_value:
  assumes "so_opt (LoadControlConfig parse argv) = Some x"
  shows "LoadControlConfig parse argv = StatusOr_value x"
  using assms by (auto simp: LoadControlConfig_def Let_def split: prod.splits if_splits)

text \<open>
  Either a process had a configuration and a server, and it served, or it ended with an error
  before it served anything.
\<close>

lemma worker_main_outcome:
  assumes "worker_main P spd parse start argv l = (e, events, l')"
  shows "(\<exists>cfg. e = ExitCode 0 \<and> LoadWorkerConfig parse argv = StatusOr_value cfg \<and> WorkerId_valid (config_worker_id cfg) \<and>
      start (worker_listen_address cfg) \<and> (\<forall>addr sv. Serve addr sv \<in> set events \<longleftrightarrow> addr = worker_listen_address cfg \<and>
        sv = Worker (worker_over (FileChunkStore_vtable P \<lparr>store_root = storage_root cfg\<rparr>)))) \<or>
    (e \<noteq> ExitCode 0 \<and> (\<forall>addr sv. Serve addr sv \<notin> set events))"
  using assms LoadWorkerConfig_value [of parse argv]
  by (auto simp: worker_main_def Let_def split: prod.splits sum.splits if_splits option.splits)

lemma control_main_outcome:
  assumes "control_main spd parse start argv l = (e, events, l')"
  shows "(\<exists>cfg. e = ExitCode 0 \<and> LoadControlConfig parse argv = StatusOr_value cfg \<and> start (control_listen_address cfg) \<and>
      (\<forall>addr sv. Serve addr sv \<in> set events \<longleftrightarrow> addr = control_listen_address cfg \<and> sv = ControlPlane)) \<or>
    (e \<noteq> ExitCode 0 \<and> (\<forall>addr sv. Serve addr sv \<notin> set events))"
  using assms LoadControlConfig_value [of parse argv]
  by (auto simp: control_main_def Let_def split: prod.splits sum.splits if_splits option.splits)

text \<open>
  C36: the server processes. Each ends with code 0 exactly if it served; then it served, on the
  configured address, on which a server had started, nothing but its own service: the worker the
  store under the configured root, and its identifier is not empty. The log level is checked
  before the logging library is touched: if the library does not know it, the process ends with
  code 1 and has done nothing.
\<close>

theorem server_processes:
  assumes "worker_main P spd parse start argv l = (e, events, l')"
    and "control_main spd parse start argv l = (f, fevents, m')"
  shows "(e = ExitCode 0 \<longleftrightarrow> (\<exists>addr sv. Serve addr sv \<in> set events)) \<and>
    (\<forall>addr sv. Serve addr sv \<in> set events \<longrightarrow>
       start addr \<and> (\<exists>cfg. LoadWorkerConfig parse argv = StatusOr_value cfg \<and> WorkerId_valid (config_worker_id cfg) \<and>
         addr = worker_listen_address cfg \<and> sv = Worker (worker_over (FileChunkStore_vtable P \<lparr>store_root = storage_root cfg\<rparr>)))) \<and>
    (f = ExitCode 0 \<longleftrightarrow> (\<exists>addr sv. Serve addr sv \<in> set fevents)) \<and>
    (\<forall>addr sv. Serve addr sv \<in> set fevents \<longrightarrow>
       start addr \<and> sv = ControlPlane \<and>
       (\<exists>cfg. LoadControlConfig parse argv = StatusOr_value cfg \<and> addr = control_listen_address cfg)) \<and>
    (from_str spd ''info'' = level_off spd \<longrightarrow>
       e = ExitCode 1 \<and> events = [] \<and> l' = l \<and> f = ExitCode 1 \<and> fevents = [] \<and> m' = l)"
proof -
  obtain il l1 where il: "InitLogging spd LoggingOptions_default l = (il, l1)" by fastforce
  have unknown: "e = ExitCode 1 \<and> events = [] \<and> l' = l \<and> f = ExitCode 1 \<and> fevents = [] \<and> m' = l"
    if "from_str spd ''info'' = level_off spd"
    using assms il InitLogging_unknown_level [OF il that] by (auto simp: worker_main_def control_main_def)
  have "(e = ExitCode 0 \<longleftrightarrow> (\<exists>addr sv. Serve addr sv \<in> set events)) \<and>
    (\<forall>addr sv. Serve addr sv \<in> set events \<longrightarrow>
       start addr \<and> (\<exists>cfg. LoadWorkerConfig parse argv = StatusOr_value cfg \<and> WorkerId_valid (config_worker_id cfg) \<and>
         addr = worker_listen_address cfg \<and> sv = Worker (worker_over (FileChunkStore_vtable P \<lparr>store_root = storage_root cfg\<rparr>))))"
    using worker_main_outcome [OF assms(1)] by (elim disjE exE conjE) simp_all
  moreover have "(f = ExitCode 0 \<longleftrightarrow> (\<exists>addr sv. Serve addr sv \<in> set fevents)) \<and>
    (\<forall>addr sv. Serve addr sv \<in> set fevents \<longrightarrow>
       start addr \<and> sv = ControlPlane \<and>
       (\<exists>cfg. LoadControlConfig parse argv = StatusOr_value cfg \<and> addr = control_listen_address cfg))"
    using control_main_outcome [OF assms(2)] by (elim disjE exE conjE) simp_all
  ultimately show ?thesis using unknown by simp
qed

definition sample_spdlog :: "(nat, unit, nat) Spdlog" where
  "sample_spdlog =
     \<lparr>from_str = (\<lambda>s. if s = ''info'' then 2 else 6), level_off = 6, stdout_color_mt = (\<lambda>name l. (Inr (), l)),
      stderr_color_mt = (\<lambda>name l. (Inr (), l)), set_default_logger = (\<lambda>lg l. l), set_level = (\<lambda>lv l. lv),
      set_pattern = (\<lambda>p l. l)\<rparr>"

type_synonym sample_events = "(PutChunkFrame list RpcInputStream, byte list list, os) service event list"

definition sample_worker_run :: "exit \<times> sample_events \<times> nat" where
  "sample_worker_run = worker_main sample_platform sample_spdlog (\<lambda>app options argv. Inr Map.empty) (\<lambda>addr. True) [] 0"

definition sample_control_run :: "exit \<times> sample_events \<times> nat" where
  "sample_control_run = control_main sample_spdlog (\<lambda>app options argv. Inr Map.empty) (\<lambda>addr. True) [] 0"

lemma sample_worker_serves:
  "Serve ''127.0.0.1:50052'' (Worker (worker_over (FileChunkStore_vtable sample_platform \<lparr>store_root = ''./worker-data''\<rparr>)))
     \<in> set (fst (snd sample_worker_run))"
  by (simp add: sample_worker_run_def worker_main_def InitLogging_def LoggingOptions_default_def sample_spdlog_def
      LoadWorkerConfig_def Parse_def bound_def WorkerConfig_default_def WorkerId_valid_def)

theorem server_processes_witness: "fst sample_worker_run = ExitCode 0"
proof -
  have "worker_main sample_platform sample_spdlog (\<lambda>app options argv. Inr Map.empty) (\<lambda>addr. True) [] 0 =
      (fst sample_worker_run, fst (snd sample_worker_run), snd (snd sample_worker_run))"
    by (simp add: sample_worker_run_def)
  moreover have "control_main sample_spdlog (\<lambda>app options argv. Inr Map.empty) (\<lambda>addr. True) [] 0 =
      (fst sample_control_run, fst (snd sample_control_run), snd (snd sample_control_run))"
    by (simp add: sample_control_run_def)
  ultimately have "fst sample_worker_run = ExitCode 0 \<longleftrightarrow> (\<exists>addr sv. Serve addr sv \<in> set (fst (snd sample_worker_run)))"
    by (rule server_processes [THEN conjunct1])
  with sample_worker_serves show ?thesis by blast
qed

definition sample_command :: CommandLine where
  "sample_command =
     \<lparr>cl_worker_host = None, cl_control_port = None, cl_data_port = None, cl_subcommand = ''put'',
      cl_object_id = ''a'', cl_path = ''/in''\<rparr>"

definition main_put :: "exit \<times> Streams \<times> os \<times> conn" where
  "main_put = client_main sample_platform (conn_stub (FileChunkStore_vtable sample_platform sample_store) 42)
     (\<lambda>argv. Inr sample_command) [] client_os (conn_to sample_os)"

lemma main_put_ok: "fst main_put = ExitCode 0"
proof -
  let ?stub = "conn_stub (FileChunkStore_vtable sample_platform sample_store) 42"
  obtain st s' n' where c: "StorageClient_Put sample_platform (main_client sample_platform ?stub sample_command)
      \<lparr>object_id_value = ''a''\<rparr> ''/in'' client_os (conn_to sample_os) = (st, s', n')" by (metis surj_pair)
  have "st_code st = kOk"
    using put_calm [OF c [unfolded main_client_def] sample_conns(5,1,3) client_os_facts(2,3)] local_names client_os_facts(4)
      sample_takes sample_views(1) sample_ids(1)
    by (simp add: name_too_long_def NAME_MAX_def off_limit_def kHeaderSize_eq sample_id_def conn_to_def)
  with c show ?thesis by (simp add: main_put_def client_main_def sample_command_def Report_def status_ok_def)
qed

text \<open>What a subcommand that ends with \<open>Report\<close> makes of a status.\<close>

definition reported :: "Status \<Rightarrow> exit \<Rightarrow> Streams \<Rightarrow> bool" where
  "reported st e io \<longleftrightarrow> e = ExitCode (fst (Report st)) \<and> io = \<lparr>out_text = [], err_text = snd (Report st)\<rparr>"

lemma client_main_put:
  assumes "client_main P stub parse argv s n = (e, io, s', n')" and "parse argv = Inr cl" and "cl_subcommand cl = ''put''"
  obtains st where "StorageClient_Put P (main_client P stub cl) \<lparr>object_id_value = cl_object_id cl\<rparr> (cl_path cl) s n = (st, s', n')"
    and "reported st e io"
  using assms by (auto simp: client_main_def reported_def split: prod.splits)

lemma client_main_get:
  assumes "client_main P stub parse argv s n = (e, io, s', n')" and "parse argv = Inr cl" and "cl_subcommand cl = ''get''"
  obtains res k where "StorageClient_Get P (main_client P stub cl) \<lparr>object_id_value = cl_object_id cl\<rparr> (cl_path cl) 0 s n = (res, k, s', n')"
    and "case res of Inl x \<Rightarrow> e = Uncaught | Inr st \<Rightarrow> reported st e io"
  using assms by (auto simp: client_main_def reported_def split: prod.splits sum.splits)

lemma client_main_delete:
  assumes "client_main P stub parse argv s n = (e, io, s', n')" and "parse argv = Inr cl" and "cl_subcommand cl = ''delete''"
  obtains st where "StorageClient_Delete (main_client P stub cl) \<lparr>object_id_value = cl_object_id cl\<rparr> n = (st, n')"
    and "reported st e io"
  using assms by (auto simp: client_main_def reported_def split: prod.splits)

lemma client_main_head:
  assumes "client_main P stub parse argv s n = (e, io, s', n')" and "parse argv = Inr cl"
    and "cl_subcommand cl \<notin> {''put'', ''get'', ''delete''}"
  obtains res where "StorageClient_Head (main_client P stub cl) \<lparr>object_id_value = cl_object_id cl\<rparr> n = (res, n')"
    and "case so_opt res of None \<Rightarrow> reported (so_status res) e io | Some v \<Rightarrow> e = ExitCode 0 \<and> err_text io = [] \<and>
      out_text io = head_line (cl_object_id cl) (resp_size v) (resp_checksum v)"
  using assms by (auto simp: client_main_def reported_def split: prod.splits option.splits)

text \<open>Metadata that the client reports is that of an object the worker has.\<close>

lemma client_head_truthful:
  assumes "StorageClient_Head \<lparr>data_plane = GrpcDataPlaneClient_vtable P (conn_stub (FileChunkStore_vtable Q store) addr) c,
      worker = ep\<rparr> oid n = (res, n')" and "conn_inv Q store n" and "so_opt res = Some v"
  shows "\<exists>payload. conn_view store n \<lparr>chunk_id_value = object_id_value oid\<rparr> = Some (resp_checksum v, payload) \<and>
    unat (resp_size v) = length payload"
proof -
  have "GrpcDataPlaneClient_HeadChunk (conn_stub (FileChunkStore_vtable Q store) addr) c ep
      \<lparr>head_chunk_id = \<lparr>chunk_id_value = object_id_value oid\<rparr>\<rparr> n = (res, n')"
    using assms(1,3) by (auto simp: StorageClient_Head_def ToChunkId_def GrpcDataPlaneClient_vtable_def split: if_splits)
  from wch.head_call_keeps [OF this assms(2)] assms(3) show ?thesis by simp
qed

lemma StorageClient_Head_error:
  assumes "StorageClient_Head \<lparr>data_plane = GrpcDataPlaneClient_vtable P stub c, worker = ep\<rparr> oid n = (res, n')"
    and "so_opt res = None"
  shows "\<not> status_ok (so_status res)"
proof -
  have "statusor_inv res"
    using assms(1) gdp.head_law [of P stub c ep "\<lparr>head_chunk_id = \<lparr>chunk_id_value = object_id_value oid\<rparr>\<rparr>" n]
    by (auto simp: StorageClient_Head_def ToChunkId_def split: if_splits)
  then show ?thesis using assms(2) by (simp add: statusor_inv_def so_ok_def)
qed

text \<open>An exit code that tells the truth: 0 if \<open>good\<close> has been done, else 1 with a message.\<close>

definition truthful :: "exit \<Rightarrow> Streams \<Rightarrow> bool \<Rightarrow> bool" where
  "truthful e io good \<longleftrightarrow> (e = ExitCode 0 \<and> err_text io = [] \<and> good) \<or>
     (e = ExitCode 1 \<and> prefix ''error: '' (err_text io) \<and> out_text io = [])"

lemma reported_truthful: "reported st e io \<Longrightarrow> (status_ok st \<Longrightarrow> good) \<Longrightarrow> truthful e io good"
  by (cases "status_ok st") (auto simp: reported_def Report_def truthful_def)

lemma put_truthful:
  assumes "client_main P (conn_stub (FileChunkStore_vtable Q store) addr) parse argv s n = (e, io, s', n')"
    and "parse argv = Inr cl" and "same_hash P Q" and "conn_inv Q store n" and "sizes_ok (fsys s)" and "cl_subcommand cl = ''put''"
  defines "cid \<equiv> \<lparr>chunk_id_value = cl_object_id cl\<rparr>"
  shows "truthful e io (\<exists>i. fs_dir (fsys s) (cl_path cl) = Some i \<and> conn_view store n cid = None \<and>
    conn_view store n' = (conn_view store n)(cid \<mapsto> (blake3_checksum Q (fs_data (fsys s) i), fs_data (fsys s) i)))"
proof -
  have P: "blake3_laws P" "blake3_checksum Q = blake3_checksum P" using assms(3) by (simp_all add: same_hash_def)
  obtain st where c: "StorageClient_Put P (main_client P (conn_stub (FileChunkStore_vtable Q store) addr) cl)
      \<lparr>object_id_value = cl_object_id cl\<rparr> (cl_path cl) s n = (st, s', n')" "reported st e io"
    by (rule client_main_put [OF assms(1,2,6)])
  show ?thesis
    by (rule reported_truthful [OF c(2)])
      (use wch.channel_put [OF c(1) [unfolded main_client_def] P assms(4,5)] in \<open>auto simp: cid_def\<close>)
qed

lemma get_truthful:
  assumes "client_main P (conn_stub (FileChunkStore_vtable Q store) addr) parse argv s n = (e, io, s', n')"
    and "parse argv = Inr cl" and "same_hash P Q" and "conn_inv Q store n" and "cl_subcommand cl = ''get''"
  defines "cid \<equiv> \<lparr>chunk_id_value = cl_object_id cl\<rparr>"
  shows "e = Uncaught \<or> truthful e io (fs_dir (fsys s) (cl_path cl) = None \<and>
    (\<exists>i ck payload. conn_view store n cid = Some (ck, payload) \<and> fs_dir (fsys s') (cl_path cl) = Some i \<and> fs_data (fsys s') i = payload))"
proof -
  have P: "blake3_laws P" using assms(3) by (simp add: same_hash_def)
  obtain res k where c: "StorageClient_Get P (main_client P (conn_stub (FileChunkStore_vtable Q store) addr) cl)
      \<lparr>object_id_value = cl_object_id cl\<rparr> (cl_path cl) 0 s n = (res, k, s', n')"
    "case res of Inl x \<Rightarrow> e = Uncaught | Inr st \<Rightarrow> reported st e io" by (rule client_main_get [OF assms(1,2,5)])
  show ?thesis
  proof (cases res)
    case (Inr st)
    then have r: "reported st e io" using c(2) by simp
    show ?thesis
      by (rule disjI2 [OF reported_truthful [OF r]])
        (use wch.channel_get [OF c(1) [unfolded main_client_def] P assms(4)] Inr in \<open>auto simp: cid_def committed_def\<close>)
  qed (use c(2) in simp)
qed

lemma delete_truthful:
  assumes "client_main P (conn_stub (FileChunkStore_vtable Q store) addr) parse argv s n = (e, io, s', n')"
    and "parse argv = Inr cl" and "conn_inv Q store n" and "cl_subcommand cl = ''delete''"
  defines "cid \<equiv> \<lparr>chunk_id_value = cl_object_id cl\<rparr>"
  shows "truthful e io (conn_view store n cid \<noteq> None \<and> conn_view store n' = (conn_view store n)(cid := None))"
proof -
  obtain st where c: "StorageClient_Delete (main_client P (conn_stub (FileChunkStore_vtable Q store) addr) cl)
      \<lparr>object_id_value = cl_object_id cl\<rparr> n = (st, n')" "reported st e io" by (rule client_main_delete [OF assms(1,2,4)])
  show ?thesis
    by (rule reported_truthful [OF c(2)])
      (use wch.channel_delete [OF c(1) [unfolded main_client_def] assms(3)] in \<open>auto simp: cid_def\<close>)
qed

lemma head_truthful:
  assumes "client_main P (conn_stub (FileChunkStore_vtable Q store) addr) parse argv s n = (e, io, s', n')"
    and "parse argv = Inr cl" and "conn_inv Q store n" and "cl_subcommand cl \<notin> {''put'', ''get'', ''delete''}"
  defines "cid \<equiv> \<lparr>chunk_id_value = cl_object_id cl\<rparr>"
  shows "truthful e io (\<exists>ck payload sz. conn_view store n cid = Some (ck, payload) \<and>
    unat sz = length payload \<and> out_text io = head_line (cl_object_id cl) sz ck)"
proof -
  obtain res where c: "StorageClient_Head (main_client P (conn_stub (FileChunkStore_vtable Q store) addr) cl)
      \<lparr>object_id_value = cl_object_id cl\<rparr> n = (res, n')"
    "case so_opt res of None \<Rightarrow> reported (so_status res) e io | Some v \<Rightarrow> e = ExitCode 0 \<and> err_text io = [] \<and>
      out_text io = head_line (cl_object_id cl) (resp_size v) (resp_checksum v)" by (rule client_main_head [OF assms(1,2,4)])
  show ?thesis
  proof (cases "so_opt res")
    case None
    then have "reported (so_status res) e io" using c(2) by simp
    then show ?thesis by (rule reported_truthful) (use StorageClient_Head_error [OF c(1) [unfolded main_client_def] None] in simp)
  next
    case (Some v)
    then show ?thesis using c(2) client_head_truthful [OF c(1) [unfolded main_client_def] assms(3) Some]
      by (auto simp: truthful_def cid_def)
  qed
qed

text \<open>
  C28: the exit code of the client tells the truth. Over any connection and whatever fails, a client
  process that ends with code 0 has done what its subcommand says: the source is stored as a new
  object, the destination holds the object, the object is gone, the line on the output has the size
  and the checksum of the object. If it ends with another code,
  that is 1 and the reason is on the error stream. Only a download can end in an exception.
\<close>

theorem client_exit:
  assumes "client_main P (conn_stub (FileChunkStore_vtable Q store) addr) parse argv s n = (e, io, s', n')"
    and "parse argv = Inr cl" and "same_hash P Q" and "conn_inv Q store n" and "sizes_ok (fsys s)"
  defines "cid \<equiv> \<lparr>chunk_id_value = cl_object_id cl\<rparr>"
  shows "(e = ExitCode 0 \<longrightarrow> err_text io = [] \<and>
      (cl_subcommand cl = ''put'' \<longrightarrow> (\<exists>i. fs_dir (fsys s) (cl_path cl) = Some i \<and> conn_view store n cid = None \<and>
         conn_view store n' = (conn_view store n)(cid \<mapsto> (blake3_checksum Q (fs_data (fsys s) i), fs_data (fsys s) i)))) \<and>
      (cl_subcommand cl = ''get'' \<longrightarrow> fs_dir (fsys s) (cl_path cl) = None \<and>
         (\<exists>i ck payload. conn_view store n cid = Some (ck, payload) \<and>
            fs_dir (fsys s') (cl_path cl) = Some i \<and> fs_data (fsys s') i = payload)) \<and>
      (cl_subcommand cl = ''delete'' \<longrightarrow> conn_view store n cid \<noteq> None \<and> conn_view store n' = (conn_view store n)(cid := None)) \<and>
      (cl_subcommand cl = ''head'' \<longrightarrow> (\<exists>ck payload sz. conn_view store n cid = Some (ck, payload) \<and>
         unat sz = length payload \<and> out_text io = head_line (cl_object_id cl) sz ck))) \<and>
    (e \<noteq> ExitCode 0 \<longrightarrow> (e = ExitCode 1 \<and> prefix ''error: '' (err_text io) \<and> out_text io = []) \<or>
       (e = Uncaught \<and> cl_subcommand cl = ''get''))"
proof -
  consider (put) "cl_subcommand cl = ''put''" | (get) "cl_subcommand cl = ''get''" | (del) "cl_subcommand cl = ''delete''"
    | (head) "cl_subcommand cl \<notin> {''put'', ''get'', ''delete''}" by blast
  then show ?thesis
  proof cases
    case put
    then show ?thesis using put_truthful [OF assms(1-5) put] unfolding cid_def truthful_def by auto
  next
    case get
    then show ?thesis using get_truthful [OF assms(1-4) get] unfolding cid_def truthful_def by auto
  next
    case del
    then show ?thesis using delete_truthful [OF assms(1,2,4) del] unfolding cid_def truthful_def by auto
  next
    case head
    then show ?thesis using head_truthful [OF assms(1,2,4) head] unfolding cid_def truthful_def by auto
  qed
qed

theorem client_exit_witness:
  "\<exists>i. fs_dir (fsys client_os) ''/in'' = Some i \<and>
     conn_view sample_store (snd (snd (snd main_put))) sample_id =
       Some (blake3_checksum sample_platform (fs_data (fsys client_os) i), fs_data (fsys client_os) i)"
proof -
  have "client_main sample_platform (conn_stub (FileChunkStore_vtable sample_platform sample_store) 42)
     (\<lambda>argv. Inr sample_command) [] client_os (conn_to sample_os) =
      (fst main_put, fst (snd main_put), fst (snd (snd main_put)), snd (snd (snd main_put)))" by (simp add: main_put_def)
  from client_exit [OF this refl sample_conns(5,1) client_os_facts(1)] main_put_ok
  show ?thesis by (auto simp: sample_command_def sample_id_def)
qed

end
