(* ===== verification/Step_Machines.thy ===== *)
theory Step_Machines
  imports Main
begin

text \<open>
  Machines that take one step at a time on a shared state, as a thread of a process does: a run
  without interruption, its result, and the embedding of one machine in another, for an
  operation that calls another one.
\<close>

inductive runs :: "('p \<Rightarrow> 'w \<Rightarrow> 'p \<times> 'w) \<Rightarrow> 'p \<Rightarrow> 'w \<Rightarrow> 'p \<Rightarrow> 'w \<Rightarrow> bool" for step where
  stop: "runs step p w p w"
| go: "step p w = (p1, w1) \<Longrightarrow> runs step p1 w1 p' w' \<Longrightarrow> runs step p w p' w'"

lemma runs_trans: "runs step p w p1 w1 \<Longrightarrow> runs step p1 w1 p2 w2 \<Longrightarrow> runs step p w p2 w2"
  by (induction rule: runs.induct) (auto intro: runs.go)

lemma runs_one: "step p w = (p1, w1) \<Longrightarrow> runs step p w p1 w1"
  by (auto intro: runs.intros)

lemma runs_halted: "runs step p w p' w' \<Longrightarrow> step p w = (p, w) \<Longrightarrow> p' = p \<and> w' = w"
  by (induction rule: runs.induct) auto

text \<open>Runs are deterministic, so they have one end.\<close>

lemma runs_unique:
  assumes "runs step p w p1 w1" and "step p1 w1 = (p1, w1)" and "runs step p w p2 w2" and "step p2 w2 = (p2, w2)"
  shows "p2 = p1 \<and> w2 = w1"
  using assms
proof (induction rule: runs.induct)
  case (stop p w)
  then show ?case using runs_halted [OF stop.prems(2,1)] by simp
next
  case (go p w p' w' p1 w1)
  from go.prems(2) show ?case
  proof (cases rule: runs.cases)
    case stop
    then have "p' = p" "w' = w" using go.hyps(1) go.prems(3) by auto
    then show ?thesis using runs_halted [OF go.hyps(2)] go.prems(3) stop by auto
  next
    case (go p3 w3)
    then show ?thesis using go.IH go.hyps go.prems by auto
  qed
qed

lemma runs_result:
  assumes "runs step p w p1 w1" and "step p1 w1 = (p1, w1)" and "step p2 w2 = (p2, w2)"
  shows "runs step p w p2 w2 \<longleftrightarrow> p2 = p1 \<and> w2 = w1"
  using assms(1) runs_unique [OF assms(1,2) _ assms(3)] by blast

text \<open>A machine that runs another one until that one has halted.\<close>

lemma runs_embedded:
  assumes "runs step p w p' w'"
    and "\<And>p w. \<not> halted p \<Longrightarrow> step' (F p) w = (case step p w of (p, w) \<Rightarrow> (F p, w))"
    and "\<And>p w. halted p \<Longrightarrow> step p w = (p, w)"
  shows "runs step' (F p) w (F p') w'"
  using assms(1)
proof (induction rule: runs.induct)
  case (stop p w)
  show ?case by (rule runs.stop)
next
  case (go p w p1 w1 p' w')
  show ?case
  proof (cases "halted p")
    case True
    then show ?thesis using go assms(3) by simp
  next
    case False
    then show ?thesis using go assms(2) [OF False, of w] by (auto intro: runs.go)
  qed
qed

text \<open>A machine that does what another one does, with a record of the shared state of its own.\<close>

lemma runs_simulated:
  assumes "runs step p w p' w'" and "\<And>p w p1 w1. step p w = (p1, w1) \<Longrightarrow> step' (F p w) w = (F p1 w1, w1)"
  shows "runs step' (F p w) w (F p' w') w'"
  using assms(1)
  by (induction rule: runs.induct) (auto intro: runs.stop runs.go [where step = step'] assms(2))

end
