(* ===== verification/Thread_Pools.thy ===== *)
theory Thread_Pools
  imports Step_Machines
begin

text \<open>
  Threads that interleave on a shared state: a pool that accepts new threads and runs its threads
  in any order, and, once and for all, how an invariant of such a pool follows from laws about
  a single step (locale \<open>interleaving\<close>).
\<close>

section \<open>Pools\<close>

text \<open>
  A pool accepts new threads and runs one of its threads by one step. \<open>fresh\<close> says how a thread
  starts, \<open>joins p q\<close> that \<open>q\<close> may start while \<open>p\<close> is in the pool.
\<close>

inductive pool_step ::
  "('p \<Rightarrow> 'w \<Rightarrow> 'p \<times> 'w) \<Rightarrow> ('p \<Rightarrow> bool) \<Rightarrow> ('p \<Rightarrow> 'p \<Rightarrow> bool) \<Rightarrow>
     (nat \<Rightarrow> 'p option) \<times> 'w \<Rightarrow> (nat \<Rightarrow> 'p option) \<times> 'w \<Rightarrow> bool" for step fresh joins where
  accept: "ts k = None \<Longrightarrow> fresh q \<Longrightarrow> (\<And>j p. ts j = Some p \<Longrightarrow> joins p q) \<Longrightarrow>
     pool_step step fresh joins (ts, w) (ts(k \<mapsto> q), w)"
| run: "ts k = Some p \<Longrightarrow> step p w = (p', w') \<Longrightarrow> pool_step step fresh joins (ts, w) (ts(k \<mapsto> p'), w')"

inductive pool_reach ::
  "('p \<Rightarrow> 'w \<Rightarrow> 'p \<times> 'w) \<Rightarrow> ('p \<Rightarrow> bool) \<Rightarrow> ('p \<Rightarrow> 'p \<Rightarrow> bool) \<Rightarrow> 'w \<Rightarrow> (nat \<Rightarrow> 'p option) \<Rightarrow> 'w \<Rightarrow> bool"
  for step fresh joins w0 where
  empty: "pool_reach step fresh joins w0 (\<lambda>k. None) w0"
| more: "pool_reach step fresh joins w0 ts w \<Longrightarrow> pool_step step fresh joins (ts, w) (ts', w') \<Longrightarrow>
     pool_reach step fresh joins w0 ts' w'"

text \<open>A part of an execution: the configurations it goes through, the newest first.\<close>

inductive pool_run ::
  "('p \<Rightarrow> 'w \<Rightarrow> 'p \<times> 'w) \<Rightarrow> ('p \<Rightarrow> bool) \<Rightarrow> ('p \<Rightarrow> 'p \<Rightarrow> bool) \<Rightarrow> ((nat \<Rightarrow> 'p option) \<times> 'w) list \<Rightarrow> bool"
  for step fresh joins where
  start: "pool_run step fresh joins [c]"
| continue: "pool_run step fresh joins (c # cs) \<Longrightarrow> pool_step step fresh joins c c' \<Longrightarrow>
     pool_run step fresh joins (c' # c # cs)"

lemma pool_run_reach:
  assumes "pool_run step fresh joins cs" and "pool_reach step fresh joins w0 (fst (last cs)) (snd (last cs))"
  shows "pool_reach step fresh joins w0 (fst (hd cs)) (snd (hd cs))"
  using assms
proof (induction rule: pool_run.induct)
  case (continue c cs c')
  then show ?case using pool_reach.more [of step fresh joins w0 "fst c" "snd c" "fst c'" "snd c'"] by simp
qed simp

lemma pool_reach_accept:
  "pool_reach step fresh joins w0 ts w \<Longrightarrow> ts k = None \<Longrightarrow> fresh q \<Longrightarrow> (\<And>j p. ts j = Some p \<Longrightarrow> joins p q) \<Longrightarrow>
     pool_reach step fresh joins w0 (ts(k \<mapsto> q)) w"
  by (erule pool_reach.more) (rule pool_step.accept)

text \<open>A thread that runs for a while undisturbed.\<close>

lemma pool_run_alone:
  assumes "runs step p w p' w'" and "pool_run step fresh joins cs" and "hd cs = (ts(k \<mapsto> p), w)"
  shows "\<exists>cs'. pool_run step fresh joins cs' \<and> last cs' = last cs \<and> hd cs' = (ts(k \<mapsto> p'), w')"
  using assms
proof (induction arbitrary: cs rule: runs.induct)
  case (stop p w)
  then show ?case by blast
next
  case (go p w p1 w1 p' w')
  have "cs \<noteq> []" using go.prems(1) by (auto elim: pool_run.cases)
  then obtain rest where cs: "cs = (ts(k \<mapsto> p), w) # rest" using go.prems(2) by (metis list.collapse)
  have "pool_step step fresh joins (ts(k \<mapsto> p), w) ((ts(k \<mapsto> p))(k \<mapsto> p1), w1)"
    by (rule pool_step.run) (use go.hyps(1) in simp_all)
  then have st: "pool_step step fresh joins (ts(k \<mapsto> p), w) (ts(k \<mapsto> p1), w1)" by simp
  have "pool_run step fresh joins ((ts(k \<mapsto> p1), w1) # cs)" unfolding cs by (rule pool_run.continue [OF _ st]) (use go.prems(1) cs in simp)
  from go.IH [OF this list.sel(1)] show ?case using \<open>cs \<noteq> []\<close> by simp
qed

lemma pool_reach_alone:
  assumes "runs step p w p' w'" and "pool_reach step fresh joins w0 (ts(k \<mapsto> p)) w"
  shows "pool_reach step fresh joins w0 (ts(k \<mapsto> p')) w'"
proof -
  obtain cs where "pool_run step fresh joins cs" "last cs = (ts(k \<mapsto> p), w)" "hd cs = (ts(k \<mapsto> p'), w')"
    using pool_run_alone [OF assms(1) pool_run.start, of "(ts(k \<mapsto> p), w)" ts k fresh joins] by auto
  then show ?thesis using pool_run_reach [of step fresh joins cs w0] assms(2) by simp
qed

locale interleaving =
  fixes step :: "'p \<Rightarrow> 'w \<Rightarrow> 'p \<times> 'w"
    and fresh :: "'p \<Rightarrow> bool"
    and joins :: "'p \<Rightarrow> 'p \<Rightarrow> bool"
    and shared :: "'w \<Rightarrow> bool"
    and own :: "'p \<Rightarrow> 'w \<Rightarrow> bool"
    and apart :: "'p \<Rightarrow> 'p \<Rightarrow> 'w \<Rightarrow> bool"
  assumes step_law: "shared w \<Longrightarrow> own p w \<Longrightarrow> step p w = (p', w') \<Longrightarrow> shared w' \<and> own p' w'"
    and other_law: "shared w \<Longrightarrow> own p w \<Longrightarrow> own q w \<Longrightarrow> apart p q w \<Longrightarrow> step p w = (p', w') \<Longrightarrow>
      own q w' \<and> apart p' q w'"
    and third_law: "shared w \<Longrightarrow> own p w \<Longrightarrow> own q w \<Longrightarrow> own r w \<Longrightarrow> apart p q w \<Longrightarrow> apart p r w \<Longrightarrow> apart q r w \<Longrightarrow>
      step p w = (p', w') \<Longrightarrow> apart q r w'"
    and apart_sym: "apart p q w \<Longrightarrow> apart q p w"
    and fresh_law: "fresh q \<Longrightarrow> own q w"
    and join_law: "own p w \<Longrightarrow> fresh q \<Longrightarrow> joins p q \<Longrightarrow> apart p q w"
begin

definition pool_inv :: "(nat \<Rightarrow> 'p option) \<Rightarrow> 'w \<Rightarrow> bool" where
  "pool_inv ts w \<longleftrightarrow> shared w \<and> (\<forall>k p. ts k = Some p \<longrightarrow> own p w) \<and>
     (\<forall>j k p q. j \<noteq> k \<longrightarrow> ts j = Some p \<longrightarrow> ts k = Some q \<longrightarrow> apart p q w)"

lemma pool_inv_accept:
  assumes "pool_inv ts w" and "fresh q" and "\<And>j p. ts j = Some p \<Longrightarrow> joins p q"
  shows "pool_inv (ts(k \<mapsto> q)) w"
proof -
  have "own q w" by (rule fresh_law [OF assms(2)])
  moreover have "apart p q w \<and> apart q p w" if "ts j = Some p" for j p
    using that assms join_law [OF _ assms(2)] apart_sym unfolding pool_inv_def by blast
  ultimately show ?thesis using assms(1) unfolding pool_inv_def by auto
qed

lemma pool_inv_run:
  assumes inv: "pool_inv ts w" and p: "ts k = Some p" and st: "step p w = (p', w')"
  shows "pool_inv (ts(k \<mapsto> p')) w'"
proof -
  have sh: "shared w" "own p w" using inv p by (auto simp: pool_inv_def)
  have o: "own q w' \<and> apart p' q w' \<and> apart q p' w'" if "j \<noteq> k" "ts j = Some q" for j q
  proof -
    have q: "own q w" "apart p q w" using that inv p unfolding pool_inv_def by metis+
    show ?thesis using other_law [OF sh q st] apart_sym by blast
  qed
  have t: "apart q r w'" if "i \<noteq> j" "i \<noteq> k" "j \<noteq> k" "ts i = Some q" "ts j = Some r" for i j q r
  proof -
    have q: "own q w" "own r w" "apart p q w" "apart p r w" "apart q r w" using that inv p unfolding pool_inv_def by metis+
    show ?thesis by (rule third_law [OF sh q st])
  qed
  have "own q w'" if "(ts(k \<mapsto> p')) j = Some q" for j q
    using that step_law [OF sh st] o [of j q] by (cases "j = k") auto
  moreover have "apart q r w'" if "i \<noteq> j" "(ts(k \<mapsto> p')) i = Some q" "(ts(k \<mapsto> p')) j = Some r" for i j q r
    using that o [of i q] o [of j r] t [of i j q r] by (cases "i = k"; cases "j = k") auto
  ultimately show ?thesis using step_law [OF sh st] unfolding pool_inv_def by blast
qed

lemma pool_inv_step:
  assumes "pool_inv ts w" and "pool_step step fresh joins (ts, w) (ts', w')"
  shows "pool_inv ts' w'"
  using assms(2)
proof (cases rule: pool_step.cases)
  case (accept k q)
  show ?thesis unfolding accept(1,2) by (rule pool_inv_accept [OF assms(1) accept(4,5)])
next
  case (run k p p')
  show ?thesis unfolding run(1) by (rule pool_inv_run [OF assms(1) run(2,3)])
qed

lemma pool_inv_run_all:
  assumes "pool_run step fresh joins cs" and "pool_inv (fst (last cs)) (snd (last cs))"
  shows "\<forall>c \<in> set cs. pool_inv (fst c) (snd c)"
  using assms
proof (induction rule: pool_run.induct)
  case (continue c cs c')
  have IH: "\<forall>c \<in> set (c # cs). pool_inv (fst c) (snd c)"
    by (rule continue.IH) (use continue.prems in simp)
  then have inv: "pool_inv (fst c) (snd c)" by simp
  have "pool_step step fresh joins (fst c, snd c) (fst c', snd c')" using continue.hyps(2) by simp
  from pool_inv_step [OF inv this] IH show ?case by simp
qed simp

lemma pool_inv_reach: "pool_reach step fresh joins w0 ts w \<Longrightarrow> shared w0 \<Longrightarrow> pool_inv ts w"
  by (induction rule: pool_reach.induct) (auto simp: pool_inv_def [of "\<lambda>k. None"] intro: pool_inv_step)

end

end
