(* ===== verification/Put_Steps.thy ===== *)
theory Put_Steps
  imports Store_Contract Step_Machines
begin

text \<open>
  \<open>FileChunkStore::Put\<close> (\<open>src/storage/worker/file_chunk_store.cpp\<close>) as a state machine with one
  system call per step, for the worker's threads, which run several uploads at once. The points
  between two steps are where another thread may be scheduled. Run without interruption, the
  machine computes exactly \<open>FileChunkStore_Put\<close>.
\<close>

section \<open>The machine\<close>

text \<open>
  Where an upload is, with its local variables: the owner of the temporary file, the byte count
  and the hasher of the receive loop, the block that is being written with the number of bytes
  written so far, the owner of the directory, the status that will be returned; the last
  component is the input stream.
\<close>

datatype ('h, 's) put_pc =
    PutStart 's
  | PutOpen 's
  | PutHeader UniqueFd nat 's
  | PutReceive UniqueFd u64 'h 's
  | PutWrite UniqueFd u64 'h "byte list" nat 's
  | PutSync UniqueFd 's
  | PutClose UniqueFd 's
  | PutLink UniqueFd 's
  | PutRefused UniqueFd errno 's
  | PutCommitted UniqueFd 's
  | PutOpenDir UniqueFd 's
  | PutSyncDir UniqueFd UniqueFd 's
  | PutCloseDir UniqueFd UniqueFd Status 's
  | PutCleanup UniqueFd Status 's
  | PutReturn UniqueFd Status 's
  | PutDone Status 's

text \<open>One turn of the loop in \<open>WriteAll\<close>: the status to return, or the number of bytes written.\<close>

definition write_turn :: "'h platform \<Rightarrow> int \<Rightarrow> byte list \<Rightarrow> nat \<Rightarrow> os \<Rightarrow> (Status + nat) \<times> os" where
  "write_turn P fd data written s =
     (case sys_write fd (drop written data) s of (result, s) \<Rightarrow>
        if result < 0 \<and> os_errno s = EINTR then (Inr written, s)
        else if result \<le> 0 then (Inl (mk_Status kIoError (''write failed: '' @ strerror P (os_errno s))), s)
        else (Inr (written + nat result), s))"

text \<open>What the receive loop does with the result of a read: give up, verify, or write the block.\<close>

definition put_received ::
  "'h platform \<Rightarrow> PutChunkRequest \<Rightarrow> UniqueFd \<Rightarrow> u64 \<Rightarrow> 'h \<Rightarrow> byte list StatusOr \<Rightarrow> 's \<Rightarrow> ('h, 's) put_pc" where
  "put_received P request fd received hasher count inp =
     (case so_opt count of
        None \<Rightarrow> PutCleanup fd (so_status count) inp
      | Some bytes \<Rightarrow>
          if bytes = [] then
            (if received \<noteq> expected_size request
             then PutCleanup fd (mk_Status kCorruption ''received byte count does not match expected_size'') inp
             else if FinalizeHex P hasher \<noteq> checksum_value (expected_checksum request)
             then PutCleanup fd (mk_Status kCorruption ''BLAKE3 checksum mismatch'') inp
             else PutSync fd inp)
          else if length bytes > kBufferSize \<or> received > expected_size request \<or>
                  word_of_nat (length bytes) > expected_size request - received
          then PutCleanup fd (mk_Status kCorruption ''received more bytes than expected'') inp
          else PutWrite fd received hasher bytes 0 inp)"

fun put_step ::
  "'h platform \<Rightarrow> FileChunkStore \<Rightarrow> PutChunkRequest \<Rightarrow> 's ChunkInputStream \<Rightarrow> ('h, 's) put_pc \<Rightarrow> os \<Rightarrow>
     ('h, 's) put_pc \<times> os" where
  "put_step P store request I (PutStart inp) s =
     (if \<not> status_ok (ValidateId (put_chunk_id request)) then (PutDone (ValidateId (put_chunk_id request)) inp, s)
      else if \<not> status_ok (ValidateChecksum (expected_checksum request))
      then (PutDone (ValidateChecksum (expected_checksum request)) inp, s)
      else (case create_directories (store_root store) s of
              (Some e, s) \<Rightarrow> (PutDone (mk_Status kIoError (''create storage root failed: '' @ strerror P e)) inp, s)
            | (None, s) \<Rightarrow> (PutOpen inp, s)))"
| "put_step P store request I (PutOpen inp) s =
     (let temp_path = temp_path_of P store (in_address I) (put_chunk_id request) in
      case sys_open_excl temp_path s of (raw, s) \<Rightarrow>
        (let fd = ufd_make raw in
         if \<not> ufd_valid fd
         then (PutReturn fd (if os_errno s = EEXIST then mk_Status kUnavailable ''temporary file collision''
                             else IoError P ''create'' temp_path s) inp, s)
         else (PutHeader fd 0 inp, s)))"
| "put_step P store request I (PutHeader fd written inp) s =
     (let header = MakeHeader (expected_size request) (expected_checksum request) in
      if written < length header
      then (case write_turn P (ufd_get fd) header written s of
              (Inl status, s) \<Rightarrow> (PutCleanup fd status inp, s)
            | (Inr written, s) \<Rightarrow> (PutHeader fd written inp, s))
      else (PutReceive fd 0 (b3_init P) inp, s))"
| "put_step P store request I (PutReceive fd received hasher inp) s =
     (case in_read I inp kBufferSize of (count, inp) \<Rightarrow> (put_received P request fd received hasher count inp, s))"
| "put_step P store request I (PutWrite fd received hasher bytes written inp) s =
     (if written < length bytes
      then (case write_turn P (ufd_get fd) bytes written s of
              (Inl status, s) \<Rightarrow> (PutCleanup fd status inp, s)
            | (Inr written, s) \<Rightarrow> (PutWrite fd received hasher bytes written inp, s))
      else (PutReceive fd (received + word_of_nat (length bytes)) (b3_update P hasher bytes) inp, s))"
| "put_step P store request I (PutSync fd inp) s =
     (case sys_fdatasync (ufd_get fd) s of (rc, s) \<Rightarrow>
        if rc \<noteq> 0
        then (PutCleanup fd
                (IoError P ''fdatasync'' (temp_path_of P store (in_address I) (put_chunk_id request)) s) inp, s)
        else (PutClose fd inp, s))"
| "put_step P store request I (PutClose fd inp) s =
     (case ufd_reset fd (-1) s of (fd, s) \<Rightarrow> (PutLink fd inp, s))"
| "put_step P store request I (PutLink fd inp) s =
     (case sys_link (temp_path_of P store (in_address I) (put_chunk_id request))
             (PathFor store (put_chunk_id request)) s of
        (rc, s) \<Rightarrow> if rc \<noteq> 0 then (PutRefused fd (os_errno s) inp, s) else (PutCommitted fd inp, s))"
| "put_step P store request I (PutRefused fd link_error inp) s =
     (let s = cleanup (temp_path_of P store (in_address I) (put_chunk_id request)) s in
      if link_error = EEXIST
      then (PutReturn fd (mk_Status kAlreadyExists
              (''chunk already exists: '' @ chunk_id_value (put_chunk_id request))) inp, s)
      else (let s = s\<lparr>os_errno := link_error\<rparr>
            in (PutReturn fd (IoError P ''commit'' (PathFor store (put_chunk_id request)) s) inp, s)))"
| "put_step P store request I (PutCommitted fd inp) s =
     (PutOpenDir fd inp, cleanup (temp_path_of P store (in_address I) (put_chunk_id request)) s)"
| "put_step P store request I (PutOpenDir fd inp) s =
     (case sys_open_dir (store_root store) s of (raw, s) \<Rightarrow>
        (let directory_fd = ufd_make raw in
         if \<not> ufd_valid directory_fd
         then (PutCloseDir fd directory_fd (IoError P ''fsync directory'' (store_root store) s) inp, s)
         else (PutSyncDir fd directory_fd inp, s)))"
| "put_step P store request I (PutSyncDir fd directory_fd inp) s =
     (case sys_fsync_dir (ufd_get directory_fd) s of (rc, s) \<Rightarrow>
        (PutCloseDir fd directory_fd
           (if rc \<noteq> 0 then IoError P ''fsync directory'' (store_root store) s else Status_Ok) inp, s))"
| "put_step P store request I (PutCloseDir fd directory_fd status inp) s =
     (PutReturn fd status inp, ufd_destroy directory_fd s)"
| "put_step P store request I (PutCleanup fd status inp) s =
     (PutReturn fd status inp, cleanup (temp_path_of P store (in_address I) (put_chunk_id request)) s)"
| "put_step P store request I (PutReturn fd status inp) s = (PutDone status inp, ufd_destroy fd s)"
| "put_step P store request I (PutDone status inp) s = (PutDone status inp, s)"

section \<open>Running it alone\<close>

abbreviation put_run ::
  "'h platform \<Rightarrow> FileChunkStore \<Rightarrow> PutChunkRequest \<Rightarrow> 's ChunkInputStream \<Rightarrow> ('h, 's) put_pc \<Rightarrow> os \<Rightarrow>
     ('h, 's) put_pc \<Rightarrow> os \<Rightarrow> bool" where
  "put_run P store request I \<equiv> runs (put_step P store request I)"

lemmas put_run_one = runs_one [where step = "put_step P store req I" for P store req I]
  and put_run_go = runs.go [where step = "put_step P store req I" for P store req I]

text \<open>A phase that repeats \<open>write_turn\<close> runs as \<open>WriteAll\<close> does.\<close>

lemma put_run_write:
  assumes "WriteAll_loop P fd data written s = (st, s')"
    and "\<And>w t. w < length data \<Longrightarrow> put_step P store req I (K w) t =
           (case write_turn P fd data w t of (Inl st, t) \<Rightarrow> (E st, t) | (Inr w, t) \<Rightarrow> (K w, t))"
    and "\<And>w t. \<not> w < length data \<Longrightarrow> put_step P store req I (K w) t = (F, t)"
  shows "put_run P store req I (K written) s (if status_ok st then F else E st) s'"
  using assms
proof (induction P fd data written s arbitrary: st s' rule: WriteAll_loop.induct)
  case (1 P fd data written s)
  note turn = "1.prems"(2) [of written s]
  from "1.prems"(1) show ?case
  proof (cases rule: WriteAll_turn)
    case finished
    then show ?thesis using put_run_one [OF "1.prems"(3)] by simp
  next
    case (again r s1)
    then have "put_step P store req I (K written) s = (K written, s1)" using turn by (simp add: write_turn_def)
    then show ?thesis by (rule put_run_go) (rule "1.IH"(1) [OF again(1) again(2) [symmetric] again(3,4) "1.prems"(2,3)])
  next
    case (failed r)
    then have "put_step P store req I (K written) s = (E st, s')" using turn by (auto simp: write_turn_def)
    then show ?thesis using put_run_one failed(5) by simp
  next
    case (more r s1)
    then have "put_step P store req I (K written) s = (K (written + nat r), s1)" using turn by (simp add: write_turn_def)
    then show ?thesis by (rule put_run_go) (rule "1.IH"(2) [OF more(1) more(2) [symmetric] more(3-5) "1.prems"(2,3)])
  qed
qed

lemma put_run_header:
  assumes "WriteAll P (ufd_get fd) (MakeHeader (expected_size req) (expected_checksum req)) s = (st, s')"
  shows "put_run P store req I (PutHeader fd 0 inp) s
    (if status_ok st then PutReceive fd 0 (b3_init P) inp else PutCleanup fd st inp) s'"
  by (rule put_run_write [OF assms [unfolded WriteAll_def], of store req I "\<lambda>w. PutHeader fd w inp"
        "\<lambda>st. PutCleanup fd st inp"]) (simp_all add: Let_def)

lemma put_run_block:
  assumes "WriteAll P (ufd_get fd) bytes s = (st, s')"
  shows "put_run P store req I (PutWrite fd r h bytes 0 inp) s
    (if status_ok st then PutReceive fd (r + word_of_nat (length bytes)) (b3_update P h bytes) inp
     else PutCleanup fd st inp) s'"
  by (rule put_run_write [OF assms [unfolded WriteAll_def], of store req I "\<lambda>w. PutWrite fd r h bytes w inp"
        "\<lambda>st. PutCleanup fd st inp"]) simp_all

text \<open>The receive loop: it ends where the stream has ended and the verification is still to come, or gives up.\<close>

lemma put_run_loop:
  assumes "put_loop P I p (ufd_get fd) (expected_size req) r h inp s = (res, inp', s')"
    and "p = temp_path_of P store (in_address I) (put_chunk_id req)"
  shows "case res of
      Inl st \<Rightarrow> put_run P store req I (PutReceive fd r h inp) s (PutReturn fd st inp') s'
    | Inr (r', h') \<Rightarrow>
        put_run P store req I (PutReceive fd r h inp) s (put_received P req fd r' h' (StatusOr_value []) inp') s'"
  using assms
proof (induction P I p "ufd_get fd" "expected_size req" r h inp s arbitrary: res inp' s' rule: put_loop.induct)
  case (1 P I p r h inp s)
  let ?start = "PutReceive fd r h inp"
  have give_up: "put_run P store req I ?start s (PutReturn fd st inp1) (cleanup p t)"
    if "put_run P store req I ?start s (PutCleanup fd st inp1) t" for st inp1 t
    by (rule runs_trans [OF that put_run_one]) (simp add: "1.prems"(2))
  have block: "put_run P store req I ?start s
      (if status_ok st then PutReceive fd (r + word_of_nat (length b)) (b3_update P h b) inp1 else PutCleanup fd st inp1) s1"
    if "in_read I inp kBufferSize = (c, inp1)" "so_opt c = Some b" "b \<noteq> []"
      "\<not> (length b > kBufferSize \<or> r > expected_size req \<or> word_of_nat (length b) > expected_size req - r)"
      "WriteAll P (ufd_get fd) b s = (st, s1)" for c inp1 b st s1
    by (rule put_run_go [OF _ put_run_block [OF that(5)]]) (use that(1-4) in \<open>simp add: put_received_def\<close>)
  from "1.prems"(1) show ?case
  proof (cases rule: put_loop_turn)
    case (failed c)
    then show ?thesis using give_up [OF put_run_one, of "so_status c" inp' s] by (simp add: put_received_def)
  next
    case (finished c)
    then show ?thesis using put_run_one [of P store req I ?start s] by (simp add: put_received_def)
  next
    case (over c b)
    then show ?thesis using give_up [OF put_run_one, of "mk_Status kCorruption ''received more bytes than expected''" inp' s]
      by (simp add: put_received_def)
  next
    case (unwritten c b st s1)
    then show ?thesis using give_up block [OF unwritten(1-5)] by simp
  next
    case (more c inp1 b st s1)
    have "put_run P store req I ?start s pc t"
      if "put_run P store req I (PutReceive fd (r + word_of_nat (length b)) (b3_update P h b) inp1) s1 pc t" for pc t
      using runs_trans [OF block [OF more(1-5)]] that more(6) by simp
    then show ?thesis
      using "1.hyps" [OF more(1) [symmetric] more(2-4) more(5) [symmetric] _ more(7) "1.prems"(2)] more(6) by (auto split: sum.splits)
  qed
qed

text \<open>The ways out of an upload.\<close>

lemma put_run_return: "put_run P store req I (PutReturn fd st inp) s (PutDone st inp) (ufd_destroy fd s)"
  by (rule put_run_one) simp

lemma put_run_cleanup:
  "p = temp_path_of P store (in_address I) (put_chunk_id req) \<Longrightarrow>
     put_run P store req I (PutCleanup fd st inp) s (PutDone st inp) (ufd_destroy fd (cleanup p s))"
  by (rule put_run_go [OF _ put_run_return]) simp

lemma put_run_publish:
  assumes "put_publish P store p s = (st, s')" and "p = temp_path_of P store (in_address I) (put_chunk_id req)"
  shows "put_run P store req I (PutCommitted fd inp) s (PutDone st inp) (ufd_destroy fd s')"
proof -
  obtain raw s1 where o: "sys_open_dir (store_root store) (cleanup p s) = (raw, s1)" by fastforce
  have close: "put_run P store req I (PutCloseDir fd dfd st inp) t (PutDone st inp) (ufd_destroy fd (ufd_destroy dfd t))"
    for dfd st t by (rule put_run_go [OF _ put_run_return]) simp
  have start: "put_run P store req I (PutOpenDir fd inp) (cleanup p s) pc t \<Longrightarrow> put_run P store req I (PutCommitted fd inp) s pc t"
    for pc t by (rule put_run_go) (simp_all add: assms(2))
  show ?thesis
  proof (cases "ufd_valid (ufd_make raw)")
    case False
    then have "put_step P store req I (PutOpenDir fd inp) (cleanup p s) = (PutCloseDir fd (ufd_make raw) st inp, s1)"
      "s' = ufd_destroy (ufd_make raw) s1" using assms(1) o by (auto simp: put_publish_def Let_def)
    then show ?thesis using start put_run_go [OF _ close] by auto
  next
    case True
    obtain rc s2 where f: "sys_fsync_dir raw s1 = (rc, s2)" by fastforce
    have "put_step P store req I (PutOpenDir fd inp) (cleanup p s) = (PutSyncDir fd (ufd_make raw) inp, s1)"
      "put_step P store req I (PutSyncDir fd (ufd_make raw) inp) s1 = (PutCloseDir fd (ufd_make raw) st inp, s2)"
      "s' = ufd_destroy (ufd_make raw) s2"
      using True assms(1) o f by (auto simp: put_publish_def Let_def split: if_splits)
    then show ?thesis using start put_run_go [OF _ put_run_go [OF _ close]] by auto
  qed
qed

lemma put_run_commit:
  assumes "put_commit P store req p (PathFor store (put_chunk_id req)) fd r h s = (st, s')"
    and p: "p = temp_path_of P store (in_address I) (put_chunk_id req)"
  shows "put_run P store req I (put_received P req fd r h (StatusOr_value []) inp) s (PutDone st inp) s'"
proof (cases "r \<noteq> expected_size req \<or> FinalizeHex P h \<noteq> checksum_value (expected_checksum req)")
  case True
  then have "put_received P req fd r h (StatusOr_value []) inp = PutCleanup fd st inp" "s' = ufd_destroy fd (cleanup p s)"
    using assms(1) by (auto simp: put_received_def put_commit_def split: if_splits)
  then show ?thesis using put_run_cleanup [OF p] by simp
next
  case False
  then have pc: "put_received P req fd r h (StatusOr_value []) inp = PutSync fd inp" by (simp add: put_received_def)
  obtain rc s1 where f: "sys_fdatasync (ufd_get fd) s = (rc, s1)" by fastforce
  obtain fd2 s2 where c: "ufd_reset fd (-1) s1 = (fd2, s2)" by fastforce
  obtain rl s3 where l: "sys_link p (PathFor store (put_chunk_id req)) s2 = (rl, s3)" by fastforce
  note unf = assms(1) [unfolded put_commit_def]
  show ?thesis
  proof (cases "rc = 0")
    case False': False
    then have "put_step P store req I (PutSync fd inp) s = (PutCleanup fd st inp, s1)" "s' = ufd_destroy fd (cleanup p s1)"
      using unf False f p by (auto simp: Let_def)
    then show ?thesis unfolding pc using put_run_go [OF _ put_run_cleanup [OF p]] by auto
  next
    case True
    have to_link: "put_run P store req I (PutSync fd inp) s (PutLink fd2 inp) s2"
      using f c True by (auto intro!: put_run_go [OF _ put_run_one])
    show ?thesis
    proof (cases "rl = 0")
      case ok: True
      obtain st1 s4 where pub: "put_publish P store p s3 = (st1, s4)" by fastforce
      have "put_step P store req I (PutLink fd2 inp) s2 = (PutCommitted fd2 inp, s3)" using l p ok by simp
      moreover have "st = st1" "s' = ufd_destroy fd2 s4" using unf False True f c l ok pub by auto
      ultimately show ?thesis
        unfolding pc using runs_trans [OF to_link put_run_go [OF _ put_run_publish [OF pub p]]] by auto
    next
      case bad: False
      have "put_step P store req I (PutLink fd2 inp) s2 = (PutRefused fd2 (os_errno s3) inp, s3)" using l p bad by simp
      moreover have "put_run P store req I (PutRefused fd2 (os_errno s3) inp) s3 (PutDone st inp) s'"
        using unf False True f c l bad p
        by (auto simp: Let_def split: if_splits intro!: put_run_go [OF _ put_run_return])
      ultimately show ?thesis unfolding pc using runs_trans [OF to_link put_run_go] by blast
    qed
  qed
qed

text \<open>An upload that is not interrupted is \<open>FileChunkStore_Put\<close>.\<close>

lemma put_run_Put:
  assumes "FileChunkStore_Put P store req I inp s = (st, inp', s')"
  shows "put_run P store req I (PutStart inp) s (PutDone st inp') s'"
proof -
  define p where "p = temp_path_of P store (in_address I) (put_chunk_id req)"
  have start: "put_step P store req I (PutStart inp) s = (PutOpen inp, s1)"
    if "put_valid req" "create_directories (store_root store) s = (None, s1)" for s1
    using that by (simp add: put_valid_def)
  have hd: "put_run P store req I (PutStart inp) s
      (if status_ok wst then PutReceive (ufd_make fd) 0 (b3_init P) inp else PutCleanup (ufd_make fd) wst inp) s3"
    if "put_valid req" "create_directories (store_root store) s = (None, s1)" "sys_open_excl p s1 = (fd, s2)" "0 \<le> fd"
      "WriteAll P fd (MakeHeader (expected_size req) (expected_checksum req)) s2 = (wst, s3)" for s1 fd s2 wst s3
  proof -
    have "put_step P store req I (PutOpen inp) s1 = (PutHeader (ufd_make fd) 0 inp, s2)" using that(3,4) by (simp add: p_def)
    then show ?thesis using put_run_go [OF start [OF that(1,2)] put_run_go [OF _ put_run_header]] that(5) by simp
  qed
  from assms p_def show ?thesis
  proof (cases rule: Put_paths)
    case invalid
    then show ?thesis by (auto simp: put_valid_def intro!: put_run_one)
  next
    case (rootless e s1)
    then show ?thesis by (auto simp: put_valid_def intro!: put_run_one)
  next
    case (refused fd s1 s2)
    then have "put_step P store req I (PutOpen inp) s1 = (PutReturn (ufd_make fd) st inp, s2)" by (simp add: p_def Let_def)
    then have "put_run P store req I (PutStart inp) s (PutDone st inp) (ufd_destroy (ufd_make fd) s2)"
      by (rule put_run_go [OF start [OF refused(1,2)] put_run_go [OF _ put_run_return]])
    then show ?thesis using refused(4-6) by (simp add: ufd_destroy_make)
  next
    case (headless fd s1 s2 s3)
    then show ?thesis using runs_trans [OF hd [OF headless(1-5)]] put_run_cleanup [OF p_def] by simp
  next
    case (broken fd s1 s2 wst s3 s4)
    then have "put_run P store req I (PutReceive (ufd_make fd) 0 (b3_init P) inp) s3 (PutReturn (ufd_make fd) st inp') s4"
      using put_run_loop [OF _ p_def, where fd = "ufd_make fd"] by force
    then have "put_run P store req I (PutStart inp) s (PutReturn (ufd_make fd) st inp') s4"
      using runs_trans [OF hd [OF broken(1-5)]] broken(6) by simp
    then show ?thesis using runs_trans [OF _ put_run_return] broken(8) by simp
  next
    case (received fd s1 s2 wst s3 s4 r h)
    then have "put_run P store req I (PutReceive (ufd_make fd) 0 (b3_init P) inp) s3
        (put_received P req (ufd_make fd) r h (StatusOr_value []) inp') s4"
      using put_run_loop [OF _ p_def, where fd = "ufd_make fd"] by force
    then have "put_run P store req I (PutStart inp) s (put_received P req (ufd_make fd) r h (StatusOr_value []) inp') s4"
      using runs_trans [OF hd [OF received(1-5)]] received(6) by simp
    then show ?thesis by (rule runs_trans [OF _ put_run_commit [OF received(8) p_def]])
  qed
qed

end
