(* ===== verification/Get_Steps.thy ===== *)
theory Get_Steps
  imports Store_Contract Step_Machines
begin

text \<open>
  \<open>FileChunkStore::Head\<close> and \<open>FileChunkStore::Get\<close> (\<open>src/storage/worker/file_chunk_store.cpp\<close>) as
  state machines with one system call per step. \<open>Get\<close> calls \<open>Head\<close> and then opens the file a second
  time, so that other threads may act between the two. Run without interruption, the machines
  compute exactly \<open>FileChunkStore_Head\<close> and \<open>FileChunkStore_Get\<close>.
\<close>

section \<open>The machines\<close>

text \<open>One turn of the loop in \<open>PreadSome\<close>: nothing yet after an interruption, else its result.\<close>

definition pread_turn :: "'h platform \<Rightarrow> int \<Rightarrow> nat \<Rightarrow> u64 \<Rightarrow> os \<Rightarrow> byte list StatusOr option \<times> os" where
  "pread_turn P fd n off s =
     (if off > off_t_max
      then (Some (StatusOr_error (mk_Status kInvalidArgument ''file offset exceeds platform limit'')), s)
      else (case sys_pread fd n (unat off) s of ((result, bytes), s) \<Rightarrow>
        if result < 0 \<and> os_errno s = EINTR then (None, s)
        else if result < 0
        then (Some (StatusOr_error (mk_Status kIoError (''pread failed: '' @ strerror P (os_errno s)))), s)
        else (Some (StatusOr_value bytes), s)))"

text \<open>
  Where a \<open>Head\<close> is: reading the header (with the bytes it has), about to ask for the size of the
  file, about to close it and return.
\<close>

datatype head_pc =
    HeadStart
  | HeadRead UniqueFd "byte list"
  | HeadStat UniqueFd "byte list"
  | HeadClose UniqueFd "HeadChunkResponse StatusOr"
  | HeadDone "HeadChunkResponse StatusOr"

text \<open>What \<open>ReadHeader\<close> does with the result of a read, with a complete header, and with the size.\<close>

definition head_received :: "UniqueFd \<Rightarrow> byte list \<Rightarrow> byte list StatusOr \<Rightarrow> head_pc" where
  "head_received fd header result =
     (case so_opt result of
        None \<Rightarrow> HeadClose fd (StatusOr_error (so_status result))
      | Some bytes \<Rightarrow>
          if bytes = [] then HeadClose fd (StatusOr_error (mk_Status kCorruption ''truncated chunk header''))
          else HeadRead fd (header @ bytes))"

definition head_checked :: "UniqueFd \<Rightarrow> byte list \<Rightarrow> head_pc" where
  "head_checked fd header =
     (if take (length kMagic) header \<noteq> kMagic
      then HeadClose fd (StatusOr_error (mk_Status kCorruption ''invalid chunk file magic''))
      else if \<not> status_ok (ValidateChecksum (header_checksum header))
      then HeadClose fd (StatusOr_error (mk_Status kCorruption ''invalid persisted checksum''))
      else HeadStat fd header)"

definition head_sized :: "'h platform \<Rightarrow> ChunkId \<Rightarrow> byte list \<Rightarrow> int \<Rightarrow> int \<Rightarrow> os \<Rightarrow> HeadChunkResponse StatusOr" where
  "head_sized P chunk_id header rc st_size s =
     (let size = header_size header in
      if rc \<noteq> 0 then StatusOr_error (mk_Status kIoError (''fstat failed: '' @ strerror P (os_errno s)))
      else if size > - 1 - word_of_nat kHeaderSize \<or> st_size < 0 \<or>
              (word_of_int st_size :: u64) \<noteq> size + word_of_nat kHeaderSize
      then StatusOr_error (mk_Status kCorruption ''chunk file size does not match header'')
      else StatusOr_value \<lparr>resp_chunk_id = chunk_id, resp_size = size, resp_checksum = header_checksum header\<rparr>)"

fun head_step :: "'h platform \<Rightarrow> FileChunkStore \<Rightarrow> ChunkId \<Rightarrow> head_pc \<Rightarrow> os \<Rightarrow> head_pc \<times> os" where
  "head_step P store chunk_id HeadStart s =
     (if \<not> status_ok (ValidateId chunk_id) then (HeadDone (StatusOr_error (ValidateId chunk_id)), s)
      else (case sys_open_rd (PathFor store chunk_id) s of (raw, s) \<Rightarrow>
        (let fd = ufd_make raw in
         if \<not> ufd_valid fd
         then (HeadClose fd (StatusOr_error
                 (if os_errno s = ENOENT
                  then mk_Status kNotFound (''chunk not found: '' @ chunk_id_value chunk_id)
                  else IoError P ''open'' (PathFor store chunk_id) s)), s)
         else (HeadRead fd [], s))))"
| "head_step P store chunk_id (HeadRead fd header) s =
     (if length header < kHeaderSize
      then (case pread_turn P (ufd_get fd) (kHeaderSize - length header) (word_of_nat (length header)) s of
              (None, s) \<Rightarrow> (HeadRead fd header, s)
            | (Some result, s) \<Rightarrow> (head_received fd header result, s))
      else (head_checked fd header, s))"
| "head_step P store chunk_id (HeadStat fd header) s =
     (case sys_fstat (ufd_get fd) s of ((rc, st_size), s) \<Rightarrow>
        (HeadClose fd (head_sized P chunk_id header rc st_size s), s))"
| "head_step P store chunk_id (HeadClose fd res) s = (HeadDone res, ufd_destroy fd s)"
| "head_step P store chunk_id (HeadDone res) s = (HeadDone res, s)"

text \<open>Where a \<open>Get\<close> is: in \<open>Head\<close>, about to open the file, in the transfer loop, about to return.\<close>

datatype 'o get_pc =
    GetHead head_pc 'o
  | GetOpen 'o
  | GetSend UniqueFd u64 u64 'o
  | GetReturn UniqueFd Status 'o
  | GetDone Status 'o

definition get_ranged :: "GetChunkRequest \<Rightarrow> HeadChunkResponse StatusOr \<Rightarrow> 'o \<Rightarrow> 'o get_pc" where
  "get_ranged request head out =
     (case so_opt head of
        None \<Rightarrow> GetDone (so_status head) out
      | Some h \<Rightarrow>
          if \<not> status_ok (ValidateByteRange (get_range request) (resp_size h))
          then GetDone (ValidateByteRange (get_range request) (resp_size h)) out
          else GetOpen out)"

definition get_received ::
  "'o ChunkOutputStream \<Rightarrow> UniqueFd \<Rightarrow> u64 \<Rightarrow> u64 \<Rightarrow> byte list StatusOr \<Rightarrow> 'o \<Rightarrow> 'o get_pc" where
  "get_received O' fd remaining offset count out =
     (case so_opt count of
        None \<Rightarrow> GetReturn fd (so_status count) out
      | Some bytes \<Rightarrow>
          if bytes = [] then GetReturn fd (mk_Status kCorruption ''unexpected EOF while reading chunk'') out
          else (case out_write O' out bytes of (status, out) \<Rightarrow>
            if \<not> status_ok status then GetReturn fd status out
            else GetSend fd (remaining - word_of_nat (length bytes)) (offset + word_of_nat (length bytes)) out))"

fun get_step ::
  "'h platform \<Rightarrow> FileChunkStore \<Rightarrow> GetChunkRequest \<Rightarrow> 'o ChunkOutputStream \<Rightarrow> 'o get_pc \<Rightarrow> os \<Rightarrow> 'o get_pc \<times> os" where
  "get_step P store request O' (GetHead (HeadDone head) out) s = (get_ranged request head out, s)"
| "get_step P store request O' (GetHead pc out) s =
     (case head_step P store (get_chunk_id request) pc s of (pc, s) \<Rightarrow> (GetHead pc out, s))"
| "get_step P store request O' (GetOpen out) s =
     (case sys_open_rd (PathFor store (get_chunk_id request)) s of (raw, s) \<Rightarrow>
        (let fd = ufd_make raw in
         if \<not> ufd_valid fd
         then (GetReturn fd (if os_errno s = ENOENT
                then mk_Status kNotFound (''chunk not found: '' @ chunk_id_value (get_chunk_id request))
                else IoError P ''open'' (PathFor store (get_chunk_id request)) s) out, s)
         else (GetSend fd (range_size (get_range request))
                 (range_offset (get_range request) + word_of_nat kHeaderSize) out, s)))"
| "get_step P store request O' (GetSend fd remaining offset out) s =
     (if remaining > 0
      then (case pread_turn P (ufd_get fd) (min (unat remaining) kBufferSize) offset s of
              (None, s) \<Rightarrow> (GetSend fd remaining offset out, s)
            | (Some count, s) \<Rightarrow> (get_received O' fd remaining offset count out, s))
      else (GetReturn fd Status_Ok out, s))"
| "get_step P store request O' (GetReturn fd status out) s = (GetDone status out, ufd_destroy fd s)"
| "get_step P store request O' (GetDone status out) s = (GetDone status out, s)"

section \<open>Running them alone\<close>

abbreviation head_run :: "'h platform \<Rightarrow> FileChunkStore \<Rightarrow> ChunkId \<Rightarrow> head_pc \<Rightarrow> os \<Rightarrow> head_pc \<Rightarrow> os \<Rightarrow> bool" where
  "head_run P store cid \<equiv> runs (head_step P store cid)"

abbreviation get_run ::
  "'h platform \<Rightarrow> FileChunkStore \<Rightarrow> GetChunkRequest \<Rightarrow> 'o ChunkOutputStream \<Rightarrow> 'o get_pc \<Rightarrow> os \<Rightarrow> 'o get_pc \<Rightarrow> os \<Rightarrow> bool" where
  "get_run P store req O' \<equiv> runs (get_step P store req O')"

lemmas head_run_one = runs_one [where step = "head_step P store cid" for P store cid]
  and head_run_go = runs.go [where step = "head_step P store cid" for P store cid]
  and get_run_one = runs_one [where step = "get_step P store req O'" for P store req O']
  and get_run_go = runs.go [where step = "get_step P store req O'" for P store req O']

text \<open>A phase that repeats \<open>pread_turn\<close> runs as \<open>PreadSome\<close> does.\<close>

lemma runs_pread:
  assumes "PreadSome P fd n off s = (res, s')"
    and turn: "\<And>t. step p t = (case pread_turn P fd n off t of (None, t) \<Rightarrow> (p, t) | (Some r, t) \<Rightarrow> (F r, t))"
  shows "runs step p s (F res) s'"
proof (cases "off > off_t_max")
  case True
  then show ?thesis using assms(1) turn [of s] by (auto simp: PreadSome_def pread_turn_def intro: runs_one)
next
  case False
  then have "PreadSome_loop P fd n off s = (res, s')" using assms(1) by (simp add: PreadSome_def)
  then show ?thesis
    using turn False
  proof (induction P fd n off s rule: PreadSome_loop.induct)
    case (1 P fd n off s)
    obtain r bs s1 where p: "sys_pread fd n (unat off) s = ((r, bs), s1)" by (metis surj_pair)
    note unf = PreadSome_loop.simps [of P fd n off s]
    show ?case
    proof (cases "r < 0 \<and> os_errno s1 = EINTR")
      case True
      then have "PreadSome_loop P fd n off s1 = (res, s')" using "1.prems"(1) p by (simp add: unf)
      then have "runs step p s1 (F res) s'" by (intro "1.IH" [OF p [symmetric] refl _ _ "1.prems"(2,3)]) (use True in auto)
      moreover have "step p s = (p, s1)" using "1.prems"(2) [of s] True p "1.prems"(3) by (simp add: pread_turn_def)
      ultimately show ?thesis by (rule runs.go [rotated])
    next
      case False
      then have "step p s = (F res, s')"
        using "1.prems"(1,3) "1.prems"(2) [of s] p by (auto simp: unf pread_turn_def split: if_splits)
      then show ?thesis by (rule runs_one)
    qed
  qed
qed

lemma StatusOr_error_again: "StatusOr_error (so_status (StatusOr_error st)) = StatusOr_error st"
  by (simp add: StatusOr_error_def)

lemma head_run_loop:
  assumes "ReadHeader_loop P (ufd_get fd) header s = (res, s')"
  shows "case so_opt res of
      None \<Rightarrow> head_run P store cid (HeadRead fd header) s (HeadClose fd (StatusOr_error (so_status res))) s'
    | Some h \<Rightarrow> head_run P store cid (HeadRead fd header) s (head_checked fd h) s'"
  using assms
proof (induction P "ufd_get fd" header s rule: ReadHeader_loop.induct)
  case (1 P header s)
  note unf = ReadHeader_loop.simps [of P "ufd_get fd" header s]
  show ?case
  proof (cases "length header < kHeaderSize")
    case False
    then show ?thesis using "1.prems" by (auto simp: unf intro!: head_run_one)
  next
    case True
    obtain r s1 where p: "PreadSome P (ufd_get fd) (kHeaderSize - length header) (word_of_nat (length header)) s = (r, s1)" by fastforce
    have run: "head_run P store cid (HeadRead fd header) s (head_received fd header r) s1"
      by (rule runs_pread [OF p]) (use True in simp)
    show ?thesis
    proof (cases "\<exists>b. so_opt r = Some b \<and> b \<noteq> []")
      case False
      then show ?thesis
        using "1.prems" True p run by (cases "so_opt r") (auto simp: unf head_received_def StatusOr_error_again)
    next
      case more: True
      then obtain b where b: "so_opt r = Some b" "b \<noteq> []" by blast
      then have rec: "ReadHeader_loop P (ufd_get fd) (header @ b) s1 = (res, s')" using "1.prems" True p by (simp add: unf)
      from "1.hyps" [OF True p [symmetric] b rec] run b show ?thesis
        by (auto simp: head_received_def split: option.splits intro: runs_trans)
    qed
  qed
qed

lemma head_run_ReadHeader:
  assumes "ReadHeader P (ufd_get fd) cid s = (res, s')"
  shows "head_run P store cid (HeadRead fd []) s (HeadClose fd res) s'"
proof -
  obtain r s1 where l: "ReadHeader_loop P (ufd_get fd) [] s = (r, s1)" by fastforce
  note loop = head_run_loop [OF l, of store cid] and unf = assms [unfolded ReadHeader_def l]
  show ?thesis
  proof (cases "so_opt r")
    case None
    then show ?thesis using loop unf by simp
  next
    case (Some h)
    obtain rc n s2 where f: "sys_fstat (ufd_get fd) s1 = ((rc, n), s2)" by (metis surj_pair)
    have "head_run P store cid (HeadStat fd h) s1 (HeadClose fd (head_sized P cid h rc n s2)) s2"
      by (rule head_run_one) (simp add: f)
    moreover have "head_run P store cid (HeadRead fd []) s (head_checked fd h) s1" using loop Some by simp
    ultimately show ?thesis
      using unf Some f by (auto simp: head_checked_def head_sized_def Let_def split: if_splits intro: runs_trans)
  qed
qed

text \<open>A \<open>Head\<close> that is not interrupted is \<open>FileChunkStore_Head\<close>.\<close>

lemma head_run_Head:
  assumes "FileChunkStore_Head P store cid s = (res, s')"
  shows "head_run P store cid HeadStart s (HeadDone res) s'"
proof (cases "status_ok (ValidateId cid)")
  case False
  then show ?thesis using assms by (auto simp: FileChunkStore_Head_def intro!: head_run_one)
next
  case True
  obtain raw s1 where o: "sys_open_rd (PathFor store cid) s = (raw, s1)" by fastforce
  note unf = assms [unfolded FileChunkStore_Head_def Let_def o]
  have close: "head_run P store cid pc t (HeadClose fd r) t' \<Longrightarrow> head_run P store cid pc t (HeadDone r) (ufd_destroy fd t')"
    for pc t fd r t' by (erule runs_trans) (rule head_run_one, simp)
  show ?thesis
  proof (cases "ufd_valid (ufd_make raw)")
    case False
    then have "head_step P store cid HeadStart s = (HeadClose (ufd_make raw) res, s1)" "s' = ufd_destroy (ufd_make raw) s1"
      using unf True o by (auto simp: Let_def)
    then show ?thesis using close [OF head_run_one] by blast
  next
    case ok: True
    obtain r s2 where h: "ReadHeader P (ufd_get (ufd_make raw)) cid s1 = (r, s2)" by fastforce
    have "head_step P store cid HeadStart s = (HeadRead (ufd_make raw) [], s1)" using True ok o by simp
    then have "head_run P store cid HeadStart s (HeadClose (ufd_make raw) r) s2"
      by (rule head_run_go [OF _ head_run_ReadHeader [OF h]])
    moreover have "res = r" "s' = ufd_destroy (ufd_make raw) s2" using unf True ok h by auto
    ultimately show ?thesis using close by blast
  qed
qed

lemma get_run_loop:
  assumes "get_loop P O' (ufd_get fd) remaining offset out s = (st, out', s')"
  shows "get_run P store req O' (GetSend fd remaining offset out) s (GetReturn fd st out') s'"
  using assms
proof (induction P O' "ufd_get fd" remaining offset out s rule: get_loop.induct)
  case (1 P O' remaining offset out s)
  have run: "get_run P store req O' (GetSend fd remaining offset out) s (get_received O' fd remaining offset c out) s1"
    if "remaining > 0" "PreadSome P (ufd_get fd) (min (unat remaining) kBufferSize) offset s = (c, s1)" for c s1
    by (rule runs_pread [OF that(2)]) (use that(1) in simp)
  from "1.prems" show ?case
  proof (cases rule: get_loop_turn)
    case finished
    then show ?thesis by (auto intro!: get_run_one)
  next
    case (failed c)
    then show ?thesis using run [OF failed(1,2)] by (simp add: get_received_def)
  next
    case (eof c)
    then show ?thesis using run [OF eof(1,2)] by (simp add: get_received_def)
  next
    case (rejected c b)
    then show ?thesis using run [OF rejected(1,2)] by (simp add: get_received_def)
  next
    case (more c s1 b st1 out1)
    then show ?thesis
      using runs_trans [OF run [OF more(1,2)]] "1.hyps" [OF more(1) more(2) [symmetric] more(3,4) more(5) [symmetric] _ more(7)]
      by (simp add: get_received_def)
  qed
qed

text \<open>A \<open>Get\<close> that is not interrupted is \<open>FileChunkStore_Get\<close>.\<close>

fun head_halted :: "head_pc \<Rightarrow> bool" where
  "head_halted (HeadDone res) \<longleftrightarrow> True"
| "head_halted pc \<longleftrightarrow> False"

lemma head_halted_step: "head_halted pc \<Longrightarrow> head_step P store cid pc s = (pc, s)"
  by (cases pc) simp_all

lemma get_step_head:
  "\<not> head_halted pc \<Longrightarrow> get_step P store req O' (GetHead pc out) s =
     (case head_step P store (get_chunk_id req) pc s of (pc, s) \<Rightarrow> (GetHead pc out, s))"
  by (cases pc) simp_all

lemma get_run_head:
  assumes "FileChunkStore_Head P store (get_chunk_id req) s = (head, s')"
  shows "get_run P store req O' (GetHead HeadStart out) s (get_ranged req head out) s'"
proof -
  have "get_run P store req O' (GetHead HeadStart out) s (GetHead (HeadDone head) out) s'"
    by (rule runs_embedded [where F = "\<lambda>pc. GetHead pc out" and halted = head_halted, OF head_run_Head [OF assms]])
      (simp_all add: get_step_head head_halted_step)
  then show ?thesis by (rule runs_trans) (rule get_run_one, simp)
qed

lemma get_run_Get:
  assumes "FileChunkStore_Get P store req O' out s = (st, out', s')"
  shows "get_run P store req O' (GetHead HeadStart out) s (GetDone st out') s'"
proof -
  let ?rg = "get_range req"
  have return: "get_run P store req O' pc t (GetReturn fd r o') t' \<Longrightarrow> get_run P store req O' pc t (GetDone r o') (ufd_destroy fd t')"
    for pc t fd r o' t' by (erule runs_trans) (rule get_run_one, simp)
  from assms show ?thesis
  proof (cases rule: Get_paths)
    case (headless h s1)
    then show ?thesis using get_run_head [OF headless(1), of O' out] by (simp add: get_ranged_def)
  next
    case (outside h s1 v)
    then show ?thesis using get_run_head [OF outside(1), of O' out] by (simp add: get_ranged_def)
  next
    case (vanished h s1 v fd s2)
    then have "get_run P store req O' (GetHead HeadStart out) s (GetOpen out) s1"
      using get_run_head [OF vanished(1), of O' out] by (simp add: get_ranged_def)
    moreover have "get_run P store req O' (GetOpen out) s1 (GetReturn (ufd_make fd) st out) s2"
      using vanished(4-6) by (intro get_run_one) (simp add: Let_def)
    ultimately have "get_run P store req O' (GetHead HeadStart out) s (GetDone st out) (ufd_destroy (ufd_make fd) s2)"
      by (rule return [OF runs_trans])
    then show ?thesis using vanished(5,7,8) by (simp add: ufd_destroy_make)
  next
    case (sent h s1 v fd s2 s3)
    then have "get_run P store req O' (GetHead HeadStart out) s (GetOpen out) s1"
      using get_run_head [OF sent(1), of O' out] by (simp add: get_ranged_def)
    moreover have "get_step P store req O' (GetOpen out) s1 =
        (GetSend (ufd_make fd) (range_size ?rg) (range_offset ?rg + word_of_nat kHeaderSize) out, s2)"
      using sent(4,5) by simp
    moreover have "get_run P store req O' (GetSend (ufd_make fd) (range_size ?rg) (range_offset ?rg + word_of_nat kHeaderSize) out) s2
        (GetReturn (ufd_make fd) st out') s3" by (rule get_run_loop) (simp add: sent(6))
    ultimately show ?thesis unfolding sent(7) by (intro return) (blast intro: runs_trans get_run_go)
  qed
qed

end
