(* ===== verification/Shared_Calls.thy ===== *)
theory Shared_Calls
  imports Put_Steps Get_Steps
begin

text \<open>
  The system calls of an upload in a process whose other threads use the same descriptor table:
  what each does to the files and to the table, with the thread's descriptor anywhere in it. And
  \<open>kept\<close>, what a thread that owns a temporary name, an inode and some descriptors leaves alone.
\<close>

section \<open>The descriptor table\<close>

abbreviation open_fds :: "os \<Rightarrow> int set" where
  "open_fds s \<equiv> fst ` set (fds s)"

text \<open>The descriptor an object owns, if any.\<close>

definition held :: "UniqueFd \<Rightarrow> int set" where
  "held u = (if ufd_valid u then {ufd_get u} else {})"

section \<open>Calls through a descriptor\<close>

lemma sys_write_shared:
  assumes "sys_write fd bs s = (r, s')" and "map_of (fds s) fd = Some (OFile i (length (fs_data (fsys s) i)))"
  shows "(r = -1 \<and> quiet s s') \<or>
    (\<exists>k \<le> length bs. r = int k \<and>
       fsys s' = (fsys s)\<lparr>fs_data := (fs_data (fsys s))(i := fs_data (fsys s) i @ take k bs)\<rparr> \<and>
       fds s' = fd_set fd (OFile i (length (fs_data (fsys s) i) + k)) (fds s))"
proof -
  obtain x s1 where n: "next_outcome s = (x, s1)" by fastforce
  note fr = next_outcome_frame [OF n]
  define bs' where "bs' = (case x of Short k \<Rightarrow> take k bs | _ \<Rightarrow> bs)"
  define d where "d = fs_data (fsys s) i"
  show ?thesis
  proof (cases "(\<exists>e. x = Fail e) \<or> off_limit \<le> length d + length bs'")
    case True
    with assms n fr have "r = -1 \<and> quiet s s'"
      by (auto simp: sys_write_def sys_fail_def quiet_def bs'_def d_def split: outcome.splits)
    then show ?thesis by blast
  next
    case False
    then have "do_write fd i (length d) bs' s1 = (r, s')"
      using assms n fr by (cases x) (auto simp: sys_write_def bs'_def d_def)
    then have "r = int (length bs')" "fsys s' = (fsys s)\<lparr>fs_data := (fs_data (fsys s))(i := d @ bs')\<rparr>"
      "fds s' = fd_set fd (OFile i (length d + length bs')) (fds s)"
      using fr by (auto simp: do_write_def Let_def set_fs_def write_at_def d_def)
    moreover have "bs' = take (length bs') bs" "length bs' \<le> length bs"
      by (cases x; auto simp: bs'_def min_def)+
    ultimately show ?thesis unfolding d_def by (intro disjI2 exI [of _ "length bs'"]) auto
  qed
qed

lemma write_turn_shared:
  assumes "write_turn P fd bs w s = (res, s')" and "map_of (fds s) fd = Some (OFile i (length (fs_data (fsys s) i)))"
    and "w < length bs"
  shows "quiet s s' \<and> (\<forall>w'. res = Inr w' \<longrightarrow> w' = w) \<and> (\<forall>st. res = Inl st \<longrightarrow> \<not> status_ok st) \<or>
    (\<exists>k. (\<forall>w'. res = Inr w' \<longrightarrow> w' = w + k) \<and> w + k \<le> length bs \<and> (\<forall>st. res = Inl st \<longrightarrow> \<not> status_ok st) \<and>
       fsys s' = (fsys s)\<lparr>fs_data := (fs_data (fsys s))(i := fs_data (fsys s) i @ take k (drop w bs))\<rparr> \<and>
       fds s' = fd_set fd (OFile i (length (fs_data (fsys s) i) + k)) (fds s))"
proof -
  obtain r s1 where wr: "sys_write fd (drop w bs) s = (r, s1)" by fastforce
  from sys_write_shared [OF this assms(2)] consider (bad) "r = -1" "quiet s s1"
    | (ok) k where "k \<le> length (drop w bs)" "r = int k"
       "fsys s1 = (fsys s)\<lparr>fs_data := (fs_data (fsys s))(i := fs_data (fsys s) i @ take k (drop w bs))\<rparr>"
       "fds s1 = fd_set fd (OFile i (length (fs_data (fsys s) i) + k)) (fds s)" by blast
  then show ?thesis
  proof cases
    case bad
    then show ?thesis using assms(1) wr by (auto simp: write_turn_def split: if_splits)
  next
    case ok
    have "s' = s1" "\<forall>w'. res = Inr w' \<longrightarrow> w' = w + k" "\<forall>st. res = Inl st \<longrightarrow> \<not> status_ok st"
      using assms(1) wr ok(2) by (auto simp: write_turn_def split: if_splits)
    then show ?thesis using ok assms(3) by (intro disjI2 exI [of _ k]) auto
  qed
qed

lemma sys_fdatasync_shared:
  assumes "sys_fdatasync fd s = (rc, s')" and "map_of (fds s) fd = Some (OFile i pos)"
  shows "(rc \<noteq> 0 \<and> quiet s s') \<or>
    (rc = 0 \<and> changes ((fsys s)\<lparr>dur_data := (dur_data (fsys s))(i := fs_data (fsys s) i)\<rparr>) s s')"
proof -
  obtain x s1 where n: "next_outcome s = (x, s1)" and q: "quiet s s1" using take_outcome [of s] by blast
  then show ?thesis
    using assms changes_set_fs [OF q] by (auto simp: sys_fdatasync_def sys_fail_def Let_def quiet_def split: outcome.splits)
qed

lemma sys_fsync_dir_shared:
  assumes "sys_fsync_dir fd s = (rc, s')"
  shows "quiet s s' \<or>
    (\<exists>r. changes ((fsys s)\<lparr>fs_had := (\<lambda>p. if in_dir r p then {} else fs_had (fsys s) p)\<rparr>) s s')"
proof -
  obtain x s1 where n: "next_outcome s = (x, s1)" and q: "quiet s s1" using take_outcome [of s] by blast
  then show ?thesis
    using assms changes_set_fs [OF q]
    by (auto simp: sys_fsync_dir_def sys_fail_def Let_def quiet_def split: outcome.splits option.splits ofile.splits)
qed

lemma ufd_destroy_shared:
  "fsys (ufd_destroy u s) = fsys s"
  "map_of (fds (ufd_destroy u s)) k = (if ufd_valid u \<and> k = ufd_get u then None else map_of (fds s) k)"
  "open_fds (ufd_destroy u s) = open_fds s - (if ufd_valid u then {ufd_get u} else {})"
  by (auto simp: ufd_destroy_def ufd_reset_def sys_close_def map_of_fd_remove fd_table_keys ufd_valid_def ufd_get_def)

lemma cleanup_shared:
  "quiet s (cleanup p s) \<or> changes (rebind p None (fsys s)) s (cleanup p s)"
  using sys_unlink_cases [of p s "fst (sys_unlink p s)" "snd (sys_unlink p s)"] by (auto simp: cleanup_def)

section \<open>What a thread leaves alone\<close>

text \<open>
  Between \<open>s\<close> and \<open>s'\<close> a thread changed at most the name \<open>p\<close>, names of chunks, the inodes \<open>own\<close>
  and new ones, and the descriptors \<open>mine\<close> and new ones; chunk names refer to no further old
  inode but those of \<open>own\<close>.
\<close>

definition kept :: "FileChunkStore \<Rightarrow> path \<Rightarrow> inode set \<Rightarrow> int set \<Rightarrow> os \<Rightarrow> os \<Rightarrow> bool" where
  "kept store p own mine s s' \<longleftrightarrow>
     (\<forall>q. q \<noteq> p \<and> no_chunk_name store q \<longrightarrow> fs_dir (fsys s') q = fs_dir (fsys s) q) \<and>
     fs_next (fsys s) \<le> fs_next (fsys s') \<and>
     (\<forall>i < fs_next (fsys s). i \<notin> own \<longrightarrow> fs_data (fsys s') i = fs_data (fsys s) i \<and>
        dur_data (fsys s') i = dur_data (fsys s) i \<and> (chunk_ref store (fsys s') i \<longrightarrow> chunk_ref store (fsys s) i)) \<and>
     (\<forall>fd \<in> open_fds s - mine. map_of (fds s') fd = map_of (fds s) fd)"

lemma kept_fds: "kept store p own mine s s' \<Longrightarrow> open_fds s - mine \<subseteq> open_fds s'"
  unfolding kept_def by (metis DiffE map_of_eq_None_iff subsetI)

lemma kept_quiet: "quiet s s' \<Longrightarrow> kept store p own mine s s'"
  by (simp add: kept_def quiet_def)

lemma kept_close: "(ufd_valid u \<Longrightarrow> ufd_get u \<in> mine) \<Longrightarrow> kept store p own mine s (ufd_destroy u s)"
  by (auto simp: kept_def ufd_destroy_shared)

lemma chunk_ref_link: "chunk_ref store (rebind p (Some i) f) j \<Longrightarrow> j = i \<or> chunk_ref store f j"
  by (auto simp: chunk_ref_def split: if_splits)

lemma chunk_ref_less:
  "chunk_ref store (rebind p None f) j \<Longrightarrow> chunk_ref store f j"
  "chunk_ref store (f\<lparr>fs_had := (\<lambda>p. if in_dir r p then {} else fs_had f p)\<rparr>) j \<Longrightarrow> chunk_ref store f j"
  by (auto simp: chunk_ref_def split: if_splits)

lemma chunk_ref_new_temp:
  "no_chunk_name store p \<Longrightarrow> chunk_ref store (rebind p b f) j \<Longrightarrow> chunk_ref store f j"
  by (auto simp: chunk_ref_def no_chunk_name_def split: if_splits)

lemma chunk_ref_same [simp]:
  "chunk_ref store (f\<lparr>fs_data := D\<rparr>) j \<longleftrightarrow> chunk_ref store f j" "chunk_ref store (f\<lparr>dur_data := D\<rparr>) j \<longleftrightarrow> chunk_ref store f j"
  "chunk_ref store (f\<lparr>fs_next := n\<rparr>) j \<longleftrightarrow> chunk_ref store f j" "chunk_ref store (f\<lparr>fs_dirs := E\<rparr>) j \<longleftrightarrow> chunk_ref store f j"
  by (simp_all add: chunk_ref_def)

end
