(* ===== verification/Upload_Steps.thy ===== *)
theory Upload_Steps
  imports Shared_Calls
begin

text \<open>
  An upload beside other threads: the part of the state that is its own, what a step of it
  guarantees to the others, and what of the names of chunks it changes.
\<close>

text \<open>An upload that has not returned.\<close>

fun put_live :: "('h, 's) put_pc \<Rightarrow> bool" where
  "put_live (PutDone st inp) \<longleftrightarrow> False"
| "put_live pc \<longleftrightarrow> True"

section \<open>A thread's own part of the state\<close>

text \<open>The phases in which an upload has a file that no chunk name refers to.\<close>

fun put_owns :: "('h, 's) put_pc \<Rightarrow> bool" where
  "put_owns (PutHeader fd w inp) \<longleftrightarrow> True"
| "put_owns (PutReceive fd r h inp) \<longleftrightarrow> True"
| "put_owns (PutWrite fd r h b w inp) \<longleftrightarrow> True"
| "put_owns (PutSync fd inp) \<longleftrightarrow> True"
| "put_owns (PutClose fd inp) \<longleftrightarrow> True"
| "put_owns (PutLink fd inp) \<longleftrightarrow> True"
| "put_owns pc \<longleftrightarrow> False"

fun put_fds :: "('h, 's) put_pc \<Rightarrow> int set" where
  "put_fds (PutHeader fd w inp) = held fd"
| "put_fds (PutReceive fd r h inp) = held fd"
| "put_fds (PutWrite fd r h b w inp) = held fd"
| "put_fds (PutSync fd inp) = held fd"
| "put_fds (PutClose fd inp) = held fd"
| "put_fds (PutLink fd inp) = held fd"
| "put_fds (PutRefused fd e inp) = held fd"
| "put_fds (PutCommitted fd inp) = held fd"
| "put_fds (PutOpenDir fd inp) = held fd"
| "put_fds (PutSyncDir fd dfd inp) = held fd \<union> held dfd"
| "put_fds (PutCloseDir fd dfd st inp) = held fd \<union> held dfd"
| "put_fds (PutCleanup fd st inp) = held fd"
| "put_fds (PutReturn fd st inp) = held fd"
| "put_fds pc = {}"

text \<open>The temporary file with contents \<open>d\<close>, open for appending; and with contents that are on disk.\<close>

definition holds :: "FileChunkStore \<Rightarrow> path \<Rightarrow> UniqueFd \<Rightarrow> byte list \<Rightarrow> os \<Rightarrow> bool" where
  "holds store p u d s \<longleftrightarrow> ufd_valid u \<and>
     (\<exists>i. fs_dir (fsys s) p = Some i \<and> fs_data (fsys s) i = d \<and> i < fs_next (fsys s) \<and> \<not> chunk_ref store (fsys s) i \<and>
        map_of (fds s) (ufd_get u) = Some (OFile i (length d)))"

definition ready :: "FileChunkStore \<Rightarrow> path \<Rightarrow> byte list \<Rightarrow> os \<Rightarrow> bool" where
  "ready store p d s \<longleftrightarrow>
     (\<exists>i. fs_dir (fsys s) p = Some i \<and> fs_data (fsys s) i = d \<and> dur_data (fsys s) i = d \<and> i < fs_next (fsys s) \<and>
        \<not> chunk_ref store (fsys s) i)"

text \<open>Reading \<open>ds\<close> led from the stream \<open>inp0\<close> to \<open>inp\<close>; and the stream delivered what was announced.\<close>

definition fed :: "'s ChunkInputStream \<Rightarrow> 's \<Rightarrow> byte list list \<Rightarrow> 's \<Rightarrow> bool" where
  "fed I inp0 ds inp \<longleftrightarrow> (\<forall>bs inp'. drains I inp bs inp' \<longrightarrow> drains I inp0 (ds @ bs) inp')"

definition arrived :: "'h platform \<Rightarrow> PutChunkRequest \<Rightarrow> 's ChunkInputStream \<Rightarrow> 's \<Rightarrow> byte list list \<Rightarrow> 's \<Rightarrow> bool" where
  "arrived P req I inp0 ds inp \<longleftrightarrow> put_valid req \<and> drains I inp0 ds inp \<and> delivered P req ds"

definition put_header :: "PutChunkRequest \<Rightarrow> byte list" where
  "put_header req = MakeHeader (expected_size req) (expected_checksum req)"

definition put_temp :: "'h platform \<Rightarrow> FileChunkStore \<Rightarrow> PutChunkRequest \<Rightarrow> 's ChunkInputStream \<Rightarrow> path" where
  "put_temp P store req I = temp_path_of P store (in_address I) (put_chunk_id req)"

fun put_local ::
  "'h platform \<Rightarrow> FileChunkStore \<Rightarrow> PutChunkRequest \<Rightarrow> 's ChunkInputStream \<Rightarrow> 's \<Rightarrow> ('h, 's) put_pc \<Rightarrow> os \<Rightarrow> bool" where
  "put_local P store req I inp0 (PutStart inp) s \<longleftrightarrow> inp = inp0"
| "put_local P store req I inp0 (PutOpen inp) s \<longleftrightarrow> inp = inp0 \<and> put_valid req"
| "put_local P store req I inp0 (PutHeader fd w inp) s \<longleftrightarrow>
     inp = inp0 \<and> put_valid req \<and> w \<le> length (put_header req) \<and>
     holds store (put_temp P store req I) fd (take w (put_header req)) s"
| "put_local P store req I inp0 (PutReceive fd r h inp) s \<longleftrightarrow>
     put_valid req \<and> (\<exists>ds. fed I inp0 ds inp \<and> h = foldl (b3_update P) (b3_init P) ds \<and>
       unat r = length (concat ds) \<and> r \<le> expected_size req \<and>
       holds store (put_temp P store req I) fd (put_header req @ concat ds) s)"
| "put_local P store req I inp0 (PutWrite fd r h b w inp) s \<longleftrightarrow>
     put_valid req \<and> w \<le> length b \<and> (\<exists>ds. fed I inp0 (ds @ [b]) inp \<and> h = foldl (b3_update P) (b3_init P) ds \<and>
       unat (r + word_of_nat (length b)) = length (concat ds) + length b \<and> r + word_of_nat (length b) \<le> expected_size req \<and>
       holds store (put_temp P store req I) fd (put_header req @ concat ds @ take w b) s)"
| "put_local P store req I inp0 (PutSync fd inp) s \<longleftrightarrow>
     (\<exists>ds. arrived P req I inp0 ds inp \<and> holds store (put_temp P store req I) fd (put_bytes req (concat ds)) s)"
| "put_local P store req I inp0 (PutClose fd inp) s \<longleftrightarrow>
     (\<exists>ds. arrived P req I inp0 ds inp \<and> ready store (put_temp P store req I) (put_bytes req (concat ds)) s)"
| "put_local P store req I inp0 (PutLink fd inp) s \<longleftrightarrow>
     \<not> ufd_valid fd \<and> (\<exists>ds. arrived P req I inp0 ds inp \<and> ready store (put_temp P store req I) (put_bytes req (concat ds)) s)"
| "put_local P store req I inp0 (PutRefused fd e inp) s \<longleftrightarrow> True"
| "put_local P store req I inp0 (PutCommitted fd inp) s \<longleftrightarrow>
     \<not> ufd_valid fd \<and> (\<exists>ds. arrived P req I inp0 ds inp)"
| "put_local P store req I inp0 (PutOpenDir fd inp) s \<longleftrightarrow>
     \<not> ufd_valid fd \<and> (\<exists>ds. arrived P req I inp0 ds inp)"
| "put_local P store req I inp0 (PutSyncDir fd dfd inp) s \<longleftrightarrow>
     \<not> ufd_valid fd \<and> (\<exists>ds. arrived P req I inp0 ds inp) \<and>
     ufd_valid dfd \<and> map_of (fds s) (ufd_get dfd) = Some (ODir (store_root store))"
| "put_local P store req I inp0 (PutCloseDir fd dfd st inp) s \<longleftrightarrow>
     \<not> ufd_valid fd \<and> (\<exists>ds. arrived P req I inp0 ds inp)"
| "put_local P store req I inp0 (PutCleanup fd st inp) s \<longleftrightarrow> \<not> status_ok st"
| "put_local P store req I inp0 (PutReturn fd st inp) s \<longleftrightarrow> (status_ok st \<longrightarrow> (\<exists>ds. arrived P req I inp0 ds inp))"
| "put_local P store req I inp0 (PutDone st inp) s \<longleftrightarrow> (status_ok st \<longrightarrow> (\<exists>ds. arrived P req I inp0 ds inp))"

text \<open>The inode an upload owns.\<close>

definition put_inodes :: "path \<Rightarrow> ('h, 's) put_pc \<Rightarrow> fs \<Rightarrow> inode set" where
  "put_inodes p pc f = (if put_owns pc then {i. fs_dir f p = Some i} else {})"

section \<open>Sound steps\<close>

text \<open>
  What a step of an upload guarantees: the invariant of the store and the upload's own part of
  the state hold again, everything else is kept, and what the upload has now it had before or
  is new.
\<close>

definition sound_step ::
  "'h platform \<Rightarrow> FileChunkStore \<Rightarrow> PutChunkRequest \<Rightarrow> 's ChunkInputStream \<Rightarrow> 's \<Rightarrow> ('h, 's) put_pc \<Rightarrow> os \<Rightarrow>
     ('h, 's) put_pc \<Rightarrow> os \<Rightarrow> bool" where
  "sound_step P store req I inp0 pc s pc' s' \<longleftrightarrow>
     store_inv P store (fsys s') \<and> put_local P store req I inp0 pc' s' \<and>
     open_fds s' = open_fds s - put_fds pc \<union> put_fds pc' \<and>
     kept store (put_temp P store req I) (put_inodes (put_temp P store req I) pc (fsys s)) (put_fds pc) s s' \<and>
     put_fds pc' \<subseteq> put_fds pc \<union> - open_fds s \<and>
     (put_owns pc' \<longrightarrow> put_owns pc \<and> fs_dir (fsys s') (put_temp P store req I) = fs_dir (fsys s) (put_temp P store req I) \<or>
        (\<exists>i \<ge> fs_next (fsys s). fs_dir (fsys s') (put_temp P store req I) = Some i))"

lemma put_temp_no_chunk: "no_chunk_name store (put_temp P store req I)"
  unfolding put_temp_def by (rule temp_no_chunk_name)

lemma sound_quiet:
  assumes "quiet s s'" and "store_inv P store (fsys s)" and "put_local P store req I inp0 pc' s'"
    and "put_fds pc' = put_fds pc" and "put_fds pc \<subseteq> open_fds s" and "put_owns pc' \<longrightarrow> put_owns pc"
  shows "sound_step P store req I inp0 pc s pc' s'"
  using assms kept_quiet [OF assms(1)] by (auto simp: sound_step_def quiet_def)

lemma sound_PutStart:
  assumes "put_step P store req I (PutStart inp) s = (pc', s')" and "store_inv P store (fsys s)" and "inp = inp0"
  shows "sound_step P store req I inp0 (PutStart inp) s pc' s'"
proof (cases "put_valid req")
  case False
  then show ?thesis using assms by (auto simp: put_valid_def intro!: sound_quiet split: if_splits)
next
  case True
  obtain e s1 where m: "create_directories (store_root store) s = (e, s1)" by fastforce
  from create_directories_cases [OF this] consider (bad) "e \<noteq> None" "quiet s s1"
    | (ok) "e = None" "changes ((fsys s)\<lparr>fs_dirs := insert (store_root store) (fs_dirs (fsys s))\<rparr>) s s1" by blast
  then show ?thesis
  proof cases
    case bad
    then show ?thesis using assms True m by (auto simp: put_valid_def intro!: sound_quiet)
  next
    case ok
    then have "pc' = PutOpen inp" "s' = s1" using assms(1) True m by (auto simp: put_valid_def)
    then show ?thesis
      using ok(2) assms(3) True store_inv_mkdir [OF assms(2)]
      by (auto simp: sound_step_def kept_def changes_def put_inodes_def)
  qed
qed

lemma sound_PutOpen:
  assumes "put_step P store req I (PutOpen inp) s = (pc', s')" and "store_inv P store (fsys s)"
    and "inp = inp0" and "put_valid req"
  shows "sound_step P store req I inp0 (PutOpen inp) s pc' s'"
proof -
  let ?p = "put_temp P store req I" and ?i = "fs_next (fsys s)"
  obtain raw s1 where o: "sys_open_excl ?p s = (raw, s1)" by fastforce
  show ?thesis
  proof (cases "0 \<le> raw")
    case False
    then have "quiet s s1" using sys_open_excl_cases [OF o] by auto
    moreover have "s' = s1" "\<exists>st. pc' = PutReturn (ufd_make raw) st inp \<and> \<not> status_ok st"
      using assms(1) o False by (auto simp: put_temp_def Let_def IoError_def split: if_splits)
    ultimately show ?thesis using False assms(2) by (auto intro!: sound_quiet simp: held_def)
  next
    case True
    let ?g = "new_file ?p (fsys s)"
    have g: "fsys s1 = ?g" "fds s1 = (raw, OFile ?i 0) # fds s" "raw \<notin> open_fds s"
      using sys_open_excl_cases [OF o] True by (auto simp: fd_top_def)
    have r: "pc' = PutHeader (ufd_make raw) 0 inp" "s' = s1" using assms(1) o True by (auto simp: put_temp_def)
    have inv: "store_inv P store ?g" by (rule store_inv_create [OF assms(2) put_temp_no_chunk])
    have ref: "chunk_ref store ?g j \<Longrightarrow> chunk_ref store (fsys s) j" for j
      using chunk_ref_new_temp [OF put_temp_no_chunk [of store P req I], of "Some ?i" "fsys s" j] by (simp add: chunk_ref_def)
    have "\<not> chunk_ref store (fsys s) ?i" using assms(2) by (auto simp: store_inv_def)
    then have "holds store ?p (ufd_make raw) [] s1" using g True ref by (auto simp: holds_def)
    moreover have "kept store ?p {} {} s s1"
      using g ref unfolding kept_def by (auto simp: image_iff)
    ultimately show ?thesis
      using inv g assms(3,4) True unfolding r by (auto simp: sound_step_def put_inodes_def held_def)
  qed
qed

text \<open>A turn of writing to the thread's own file.\<close>

lemma holds_write:
  assumes h: "holds store p u d s" and w: "write_turn P (ufd_get u) bs w s = (res, s')" "w < length bs"
    and inv: "store_inv P store (fsys s)"
  shows "store_inv P store (fsys s') \<and> open_fds s' = open_fds s \<and> fs_dir (fsys s') = fs_dir (fsys s) \<and>
    kept store p {i. fs_dir (fsys s) p = Some i} (held u) s s' \<and>
    (case res of Inl st \<Rightarrow> \<not> status_ok st
     | Inr w' \<Rightarrow> w \<le> w' \<and> w' \<le> length bs \<and> holds store p u (d @ take (w' - w) (drop w bs)) s')"
proof -
  obtain i where i: "ufd_valid u" "fs_dir (fsys s) p = Some i" "fs_data (fsys s) i = d" "i < fs_next (fsys s)"
    "\<not> chunk_ref store (fsys s) i" "map_of (fds s) (ufd_get u) = Some (OFile i (length d))"
    using h by (auto simp: holds_def)
  then have lk: "map_of (fds s) (ufd_get u) = Some (OFile i (length (fs_data (fsys s) i)))" by simp
  from write_turn_shared [OF w(1) lk w(2)] consider
    (still) "quiet s s'" "\<forall>w'. res = Inr w' \<longrightarrow> w' = w" "\<forall>st. res = Inl st \<longrightarrow> \<not> status_ok st"
  | (wrote) k where "\<forall>w'. res = Inr w' \<longrightarrow> w' = w + k" "w + k \<le> length bs" "\<forall>st. res = Inl st \<longrightarrow> \<not> status_ok st"
      "fsys s' = (fsys s)\<lparr>fs_data := (fs_data (fsys s))(i := d @ take k (drop w bs))\<rparr>"
      "fds s' = fd_set (ufd_get u) (OFile i (length d + k)) (fds s)"
    unfolding i(3) by blast
  then show ?thesis
  proof cases
    case still
    then show ?thesis
      using inv h w(2) kept_quiet [OF still(1)] by (auto simp: quiet_def holds_def split: sum.splits)
  next
    case wrote
    have "store_inv P store (fsys s')"
      by (rule store_inv_step [OF inv]) (use wrote(4) i(5) in auto)
    moreover have "holds store p u (d @ take k (drop w bs)) s'"
      using wrote i map_of_open [OF i(6)] by (auto simp: holds_def map_of_fd_set min_def)
    moreover have "kept store p {i. fs_dir (fsys s) p = Some i} (held u) s s'"
      using wrote(4,5) i(1,2) by (auto simp: kept_def map_of_fd_set held_def)
    ultimately show ?thesis using wrote fd_table_keys by (auto split: sum.splits)
  qed
qed

lemma holds_open: "holds store p u d s \<Longrightarrow> held u \<subseteq> open_fds s"
  unfolding holds_def held_def by (auto dest: map_of_open)

lemma sound_write:
  assumes h: "holds store (put_temp P store req I) u d s" and inv: "store_inv P store (fsys s)"
    and w: "write_turn P (ufd_get u) bs w s = (res, s')" "w < length bs"
    and own: "put_owns pc" "put_fds pc = held u"
    and next_pc: "\<And>st. res = Inl st \<Longrightarrow> \<not> status_ok st \<Longrightarrow> put_local P store req I inp0 pc' s' \<and> put_fds pc' = held u \<and> \<not> put_owns pc'"
      "\<And>w'. res = Inr w' \<Longrightarrow> w \<le> w' \<Longrightarrow> w' \<le> length bs \<Longrightarrow>
        holds store (put_temp P store req I) u (d @ take (w' - w) (drop w bs)) s' \<Longrightarrow>
        put_local P store req I inp0 pc' s' \<and> put_fds pc' = held u"
  shows "sound_step P store req I inp0 pc s pc' s'"
proof -
  note hw = holds_write [OF h w inv]
  have l: "put_local P store req I inp0 pc' s' \<and> put_fds pc' = held u"
    using hw next_pc by (cases res) auto
  then show ?thesis
    using hw own holds_open [OF h] by (auto simp: sound_step_def put_inodes_def)
qed

lemma take_from: "w \<le> v \<Longrightarrow> v \<le> length bs \<Longrightarrow> take w bs @ take (v - w) (drop w bs) = take v bs"
  by (metis le_add_diff_inverse take_add)

lemma sound_PutHeader:
  assumes "put_step P store req I (PutHeader u w inp) s = (pc', s')" and "store_inv P store (fsys s)"
    and "put_local P store req I inp0 (PutHeader u w inp) s"
  shows "sound_step P store req I inp0 (PutHeader u w inp) s pc' s'"
proof (cases "w < length (put_header req)")
  case True
  obtain res s1 where t: "write_turn P (ufd_get u) (put_header req) w s = (res, s1)" by fastforce
  have h: "holds store (put_temp P store req I) u (take w (put_header req)) s" using assms(3) by simp
  have r: "s' = s1" "pc' = (case res of Inl st \<Rightarrow> PutCleanup u st inp | Inr w \<Rightarrow> PutHeader u w inp)"
    using assms(1) t True by (auto simp: put_header_def Let_def split: sum.splits)
  show ?thesis
    unfolding r(1) by (rule sound_write [OF h assms(2) t True]) (use r(2) assms(3) in \<open>auto simp: take_from\<close>)
next
  case False
  then have "pc' = PutReceive u 0 (b3_init P) inp" "s' = s"
    using assms(1) by (auto simp: put_header_def Let_def)
  moreover have "put_local P store req I inp0 (PutReceive u 0 (b3_init P) inp) s"
    using assms(3) False by (auto simp: fed_def intro!: exI [of _ "[]"])
  moreover have "holds store (put_temp P store req I) u (take w (put_header req)) s" using assms(3) by simp
  ultimately show ?thesis using assms(2) holds_open by (intro sound_quiet) auto
qed

lemma sound_PutWrite:
  assumes "put_step P store req I (PutWrite u r h b w inp) s = (pc', s')" and "store_inv P store (fsys s)"
    and "put_local P store req I inp0 (PutWrite u r h b w inp) s"
  shows "sound_step P store req I inp0 (PutWrite u r h b w inp) s pc' s'"
proof -
  obtain ds where ds: "put_valid req" "w \<le> length b" "fed I inp0 (ds @ [b]) inp" "h = foldl (b3_update P) (b3_init P) ds"
    "unat (r + word_of_nat (length b)) = length (concat ds) + length b" "r + word_of_nat (length b) \<le> expected_size req"
    "holds store (put_temp P store req I) u (put_header req @ concat ds @ take w b) s"
    using assms(3) by auto
  show ?thesis
  proof (cases "w < length b")
    case True
    obtain res s1 where t: "write_turn P (ufd_get u) b w s = (res, s1)" by fastforce
    have x: "s' = s1" "pc' = (case res of Inl st \<Rightarrow> PutCleanup u st inp | Inr w \<Rightarrow> PutWrite u r h b w inp)"
      using assms(1) t True by (auto split: sum.splits)
    show ?thesis unfolding x(1)
    proof (rule sound_write [OF ds(7) assms(2) t True])
      fix w'
      assume a: "res = Inr w'" "w \<le> w'" "w' \<le> length b"
        "holds store (put_temp P store req I) u ((put_header req @ concat ds @ take w b) @ take (w' - w) (drop w b)) s1"
      then have "holds store (put_temp P store req I) u (put_header req @ concat ds @ take w' b) s1"
        by (simp add: take_from)
      then show "put_local P store req I inp0 pc' s1 \<and> put_fds pc' = held u" using a(1,3) x(2) ds by auto
    qed (use x(2) in auto)
  next
    case False
    then have "pc' = PutReceive u (r + word_of_nat (length b)) (b3_update P h b) inp" "s' = s"
      using assms(1) by auto
    moreover have "put_local P store req I inp0 (PutReceive u (r + word_of_nat (length b)) (b3_update P h b) inp) s"
      using ds False by (auto intro!: exI [of _ "ds @ [b]"])
    ultimately show ?thesis using assms(2) holds_open [OF ds(7)] by (auto intro!: sound_quiet)
  qed
qed

lemma fed_block:
  assumes "fed I inp0 ds inp" and "in_read I inp kBufferSize = (StatusOr_value b, inp1)" and "b \<noteq> []" and "length b \<le> kBufferSize"
  shows "fed I inp0 (ds @ [b]) inp1"
  using assms drains.block [OF assms(2-4)] unfolding fed_def by fastforce

lemma sound_PutReceive:
  assumes "put_step P store req I (PutReceive u r h inp) s = (pc', s')" and "store_inv P store (fsys s)"
    and "put_local P store req I inp0 (PutReceive u r h inp) s" and I: "stream_ok I"
  shows "sound_step P store req I inp0 (PutReceive u r h inp) s pc' s'"
proof -
  obtain ds where ds: "put_valid req" "fed I inp0 ds inp" "h = foldl (b3_update P) (b3_init P) ds"
    "unat r = length (concat ds)" "r \<le> expected_size req" "holds store (put_temp P store req I) u (put_header req @ concat ds) s"
    using assms(3) by auto
  obtain c inp1 where rd: "in_read I inp kBufferSize = (c, inp1)" by fastforce
  have x: "s' = s" "pc' = put_received P req u r h c inp1" using assms(1) rd by auto
  have "put_local P store req I inp0 pc' s \<and> put_fds pc' = held u"
  proof (cases "so_opt c")
    case None
    then show ?thesis using x(2) stream_ok_error [OF I rd None] by (simp add: put_received_def)
  next
    case (Some b)
    note v = rd [unfolded stream_ok_value [OF I rd Some]]
    consider (fin) "b = []"
      | (over) "b \<noteq> []" "length b > kBufferSize \<or> r > expected_size req \<or> word_of_nat (length b) > expected_size req - r"
      | (more) "b \<noteq> []" "length b \<le> kBufferSize" "\<not> word_of_nat (length b) > expected_size req - r" by fastforce
    then show ?thesis
    proof cases
      case fin
      have "drains I inp0 ds inp1" using ds(2) drains.finished [of I inp inp1] v fin unfolding fed_def by fastforce
      then have "arrived P req I inp0 ds inp1"
        if "r = expected_size req" "FinalizeHex P h = checksum_value (expected_checksum req)"
        using that ds(1,3,4) by (simp add: arrived_def delivered_def)
      then show ?thesis using x(2) Some fin ds(6) by (auto simp: put_received_def put_bytes_def put_header_def)
    next
      case over
      then show ?thesis using x(2) Some by (auto simp: put_received_def)
    next
      case more
      then have "pc' = PutWrite u r h b 0 inp1" using x(2) Some ds(5) by (auto simp: put_received_def)
      then show ?thesis
        using ds fed_block [OF ds(2) v more(1,2)] received_exact [OF ds(5) more(2,3)] by auto
    qed
  qed
  moreover have "put_owns (PutReceive u r h inp)" by simp
  ultimately show ?thesis
    unfolding x(1) using assms(2) holds_open [OF ds(6)] by (intro sound_quiet) auto
qed

lemma sound_PutSync:
  assumes "put_step P store req I (PutSync u inp) s = (pc', s')" and "store_inv P store (fsys s)"
    and "put_local P store req I inp0 (PutSync u inp) s"
  shows "sound_step P store req I inp0 (PutSync u inp) s pc' s'"
proof -
  let ?p = "put_temp P store req I"
  obtain ds where ds: "arrived P req I inp0 ds inp" "holds store ?p u (put_bytes req (concat ds)) s" using assms(3) by auto
  obtain i where i: "ufd_valid u" "fs_dir (fsys s) ?p = Some i" "fs_data (fsys s) i = put_bytes req (concat ds)"
    "i < fs_next (fsys s)" "\<not> chunk_ref store (fsys s) i"
    "map_of (fds s) (ufd_get u) = Some (OFile i (length (put_bytes req (concat ds))))"
    using ds(2) by (auto simp: holds_def)
  obtain rc s1 where f: "sys_fdatasync (ufd_get u) s = (rc, s1)" by fastforce
  from sys_fdatasync_shared [OF f i(6)] consider (bad) "rc \<noteq> 0" "quiet s s1"
    | (ok) "rc = 0" "changes ((fsys s)\<lparr>dur_data := (dur_data (fsys s))(i := fs_data (fsys s) i)\<rparr>) s s1" by blast
  then show ?thesis
  proof cases
    case bad
    then have "s' = s1" "\<exists>st. pc' = PutCleanup u st inp \<and> \<not> status_ok st" using assms(1) f by (auto simp: IoError_def)
    then show ?thesis using bad(2) assms(2) holds_open [OF ds(2)] by (auto intro!: sound_quiet)
  next
    case ok
    then have r: "s' = s1" "pc' = PutClose u inp" using assms(1) f by auto
    have "ready store ?p (put_bytes req (concat ds)) s1" using ok(2) i by (auto simp: ready_def changes_def)
    then have "put_local P store req I inp0 (PutClose u inp) s1" using ds(1) by auto
    then show ?thesis
      using ok(2) i store_inv_fdatasync [OF assms(2), of i] holds_open [OF ds(2)] unfolding r
      by (auto simp: sound_step_def kept_def changes_def put_inodes_def)
  qed
qed

lemma sound_PutClose:
  assumes "put_step P store req I (PutClose u inp) s = (pc', s')" and "store_inv P store (fsys s)"
    and "put_local P store req I inp0 (PutClose u inp) s"
  shows "sound_step P store req I inp0 (PutClose u inp) s pc' s'"
proof -
  have r: "pc' = PutLink (u\<lparr>ufd_fd := -1\<rparr>) inp" "s' = ufd_destroy u s"
    using assms(1) by (auto simp: ufd_reset_def ufd_destroy_def)
  have "put_local P store req I inp0 (PutLink (u\<lparr>ufd_fd := -1\<rparr>) inp) s'"
    using assms(3) r(2) by (simp add: ready_def ufd_destroy_shared ufd_valid_def)
  moreover have "held (u\<lparr>ufd_fd := -1\<rparr>) = {}" by (simp add: held_def ufd_valid_def)
  moreover have "kept store q own (held u) s s'" for q own unfolding r by (rule kept_close) (simp add: held_def)
  ultimately show ?thesis
    using assms(2) r by (simp add: sound_step_def ufd_destroy_shared held_def)
qed

lemma sound_PutLink:
  assumes "put_step P store req I (PutLink u inp) s = (pc', s')" and "store_inv P store (fsys s)"
    and "put_local P store req I inp0 (PutLink u inp) s" and "held u \<subseteq> open_fds s" and P: "blake3_laws P"
  shows "sound_step P store req I inp0 (PutLink u inp) s pc' s'"
proof -
  let ?p = "put_temp P store req I" and ?final = "PathFor store (put_chunk_id req)"
  obtain ds i where ds: "\<not> ufd_valid u" "arrived P req I inp0 ds inp" and i: "fs_dir (fsys s) ?p = Some i"
    "fs_data (fsys s) i = put_bytes req (concat ds)" "dur_data (fsys s) i = put_bytes req (concat ds)" "i < fs_next (fsys s)"
    using assms(3) by (auto simp: ready_def)
  obtain rc s1 where l: "sys_link ?p ?final s = (rc, s1)" by fastforce
  from sys_link_cases [OF l] i(1) consider (bad) "rc \<noteq> 0" "quiet s s1"
    | (ok) "rc = 0" "changes (rebind ?final (Some i) (fsys s)) s s1" by auto
  then show ?thesis
  proof cases
    case bad
    then have "s' = s1" "pc' = PutRefused u (os_errno s1) inp" using assms(1) l by (auto simp: put_temp_def)
    then show ?thesis using bad(2) assms(2,4) by (auto intro!: sound_quiet)
  next
    case ok
    then have r: "s' = s1" "pc' = PutCommitted u inp" using assms(1) l by (auto simp: put_temp_def)
    have "good_file P (put_bytes req (concat ds))" using delivered_chunk(2) [OF P] ds by (simp add: arrived_def)
    then have "store_inv P store (fsys s1)"
      using store_inv_link [OF assms(2), of i ?final] ok(2) i by (simp add: changes_def)
    then show ?thesis
      using ok(2) i(1) assms(4) ds chunk_ref_link [of store ?final i "fsys s"] unfolding r
      by (auto simp: sound_step_def kept_def changes_def put_inodes_def no_chunk_name_def)
  qed
qed

text \<open>Removing the temporary name is sound whatever it refers to.\<close>

lemma sound_unlink:
  assumes "quiet s s' \<or> changes (rebind (put_temp P store req I) None (fsys s)) s s'"
    and "store_inv P store (fsys s)" and "put_local P store req I inp0 pc' s'"
    and "put_fds pc' = put_fds pc" and "put_fds pc \<subseteq> open_fds s" and "\<not> put_owns pc'"
  shows "sound_step P store req I inp0 pc s pc' s'"
  using assms(1)
proof
  assume "quiet s s'"
  then show ?thesis using assms by (intro sound_quiet) auto
next
  assume c: "changes (rebind (put_temp P store req I) None (fsys s)) s s'"
  then have "kept store (put_temp P store req I) own mine s s'" for own mine
    using chunk_ref_less(1) [of store "put_temp P store req I" "fsys s"] by (auto simp: kept_def changes_def)
  then show ?thesis
    using c assms(3-6) store_inv_unlink [OF assms(2)] by (auto simp: sound_step_def changes_def)
qed

lemma sound_PutRefused:
  assumes "put_step P store req I (PutRefused u e inp) s = (pc', s')" and "store_inv P store (fsys s)"
    and "held u \<subseteq> open_fds s"
  shows "sound_step P store req I inp0 (PutRefused u e inp) s pc' s'"
proof -
  let ?p = "put_temp P store req I"
  have "quiet s s' \<or> changes (rebind ?p None (fsys s)) s s'"
    using assms(1) cleanup_shared [of s ?p] by (auto simp: put_temp_def Let_def changes_def split: if_splits)
  moreover have "\<exists>st. pc' = PutReturn u st inp \<and> \<not> status_ok st"
    using assms(1) by (auto simp: Let_def IoError_def split: if_splits)
  ultimately show ?thesis using assms(2,3) by (auto intro!: sound_unlink)
qed

lemma sound_PutOpenDir:
  assumes "put_step P store req I (PutOpenDir u inp) s = (pc', s')" and "store_inv P store (fsys s)"
    and "put_local P store req I inp0 (PutOpenDir u inp) s" and "held u \<subseteq> open_fds s"
  shows "sound_step P store req I inp0 (PutOpenDir u inp) s pc' s'"
proof -
  obtain raw s1 where o: "sys_open_dir (store_root store) s = (raw, s1)" by fastforce
  show ?thesis
  proof (cases "0 \<le> raw")
    case False
    then have "quiet s s1" using sys_open_dir_cases [OF o] by auto
    moreover have "s' = s1" "\<exists>st. pc' = PutCloseDir u (ufd_make raw) st inp" using assms(1) o False by auto
    moreover have "held (ufd_make raw) = {}" using False by (simp add: held_def)
    ultimately show ?thesis using assms(2-4) by (auto intro!: sound_quiet)
  next
    case True
    have g: "fsys s1 = fsys s" "fds s1 = (raw, ODir (store_root store)) # fds s" "raw \<notin> open_fds s"
      using sys_open_dir_cases [OF o] True by (auto simp: fd_top_def)
    have "pc' = PutSyncDir u (ufd_make raw) inp" "s' = s1" using assms(1) o True by auto
    moreover have "kept store q own mine s s1" for q own mine using g by (auto simp: kept_def image_iff)
    moreover have "held (ufd_make raw) = {raw}" using True by (simp add: held_def)
    ultimately show ?thesis using g True assms(2-4) by (auto simp: sound_step_def)
  qed
qed

lemma sound_PutSyncDir:
  assumes "put_step P store req I (PutSyncDir u d inp) s = (pc', s')" and "store_inv P store (fsys s)"
    and "put_local P store req I inp0 (PutSyncDir u d inp) s" and "held u \<union> held d \<subseteq> open_fds s"
  shows "sound_step P store req I inp0 (PutSyncDir u d inp) s pc' s'"
proof -
  obtain rc s1 where f: "sys_fsync_dir (ufd_get d) s = (rc, s1)" by fastforce
  then have r: "s' = s1" "\<exists>st. pc' = PutCloseDir u d st inp" using assms(1) by auto
  from sys_fsync_dir_shared [OF f] show ?thesis
  proof (elim disjE exE)
    assume "quiet s s1"
    then show ?thesis using r assms(2-4) by (auto intro!: sound_quiet)
  next
    fix q
    assume c: "changes ((fsys s)\<lparr>fs_had := (\<lambda>p. if in_dir q p then {} else fs_had (fsys s) p)\<rparr>) s s1"
    then have "kept store p own mine s s1" for p own mine
      using chunk_ref_less(2) [where store = store and f = "fsys s" and r = q] by (auto simp: kept_def changes_def)
    then show ?thesis
      using c r assms(3,4) store_inv_fsync [OF assms(2), of q] by (auto simp: sound_step_def changes_def)
  qed
qed

lemma sound_close:
  assumes "s' = ufd_destroy u s" and "store_inv P store (fsys s)" and "put_local P store req I inp0 pc' s'"
    and "held u \<subseteq> put_fds pc" and "put_fds pc' = put_fds pc - held u" and "put_fds pc \<subseteq> open_fds s" and "\<not> put_owns pc'"
  shows "sound_step P store req I inp0 pc s pc' s'"
proof -
  have "kept store q own (put_fds pc) s s'" for q own
    unfolding assms(1) by (rule kept_close) (use assms(4) in \<open>auto simp: held_def\<close>)
  moreover have "open_fds s' = open_fds s - held u" unfolding assms(1) ufd_destroy_shared held_def by auto
  ultimately show ?thesis using assms ufd_destroy_shared(1) [of u s] by (auto simp: sound_step_def)
qed

lemma put_step_sound:
  assumes "put_step P store req I pc s = (pc', s')" and "store_inv P store (fsys s)"
    and "put_local P store req I inp0 pc s" and "put_fds pc \<subseteq> open_fds s" and "blake3_laws P" and "stream_ok I"
  shows "sound_step P store req I inp0 pc s pc' s'"
proof (cases pc)
  case (PutStart inp)
  then show ?thesis using assms by (auto intro!: sound_PutStart)
next
  case (PutOpen inp)
  then show ?thesis using assms by (auto intro!: sound_PutOpen)
next
  case (PutHeader u w inp)
  show ?thesis using sound_PutHeader [of P store req I u w inp s] assms unfolding PutHeader by blast
next
  case (PutReceive u r h inp)
  show ?thesis using sound_PutReceive [of P store req I u r h inp s] assms unfolding PutReceive by blast
next
  case (PutWrite u r h b w inp)
  show ?thesis using sound_PutWrite [of P store req I u r h b w inp s] assms unfolding PutWrite by blast
next
  case (PutSync u inp)
  show ?thesis using sound_PutSync [of P store req I u inp s] assms unfolding PutSync by blast
next
  case (PutClose u inp)
  show ?thesis using sound_PutClose [of P store req I u inp s] assms unfolding PutClose by blast
next
  case (PutLink u inp)
  show ?thesis
    using sound_PutLink [OF assms(1) [unfolded PutLink] assms(2,3) [unfolded PutLink] _ assms(5)] assms(4) unfolding PutLink by simp
next
  case (PutRefused u e inp)
  then show ?thesis using assms by (auto intro!: sound_PutRefused)
next
  case (PutCommitted u inp)
  then show ?thesis using assms cleanup_shared [of s "put_temp P store req I"] by (auto simp: put_temp_def intro!: sound_unlink)
next
  case (PutOpenDir u inp)
  show ?thesis
    using sound_PutOpenDir [OF assms(1-3) [unfolded PutOpenDir]] assms(4) unfolding PutOpenDir by simp
next
  case (PutSyncDir u d inp)
  show ?thesis
    using sound_PutSyncDir [OF assms(1-3) [unfolded PutSyncDir]] assms(4) unfolding PutSyncDir by simp
next
  case (PutCloseDir u d st inp)
  then have "pc' = PutReturn u st inp" "s' = ufd_destroy d s" "held u = {}" using assms(1,3) by (auto simp: held_def)
  then show ?thesis using assms PutCloseDir by (auto intro!: sound_close)
next
  case (PutCleanup u st inp)
  then show ?thesis using assms cleanup_shared [of s "put_temp P store req I"] by (auto simp: put_temp_def intro!: sound_unlink)
next
  case (PutReturn u st inp)
  then have "pc' = PutDone st inp" "s' = ufd_destroy u s" using assms(1) by auto
  then show ?thesis using assms PutReturn by (auto intro!: sound_close)
next
  case (PutDone st inp)
  then show ?thesis using assms by (auto intro!: sound_quiet)
qed

section \<open>Different addresses, different names\<close>

lemma to_string_nat_inj: "to_string_nat m = to_string_nat n \<Longrightarrow> m = n"
proof (induction m arbitrary: n rule: to_string_nat.induct)
  case (1 m)
  have one: "length (to_string_nat k) = 1 \<longleftrightarrow> k < 10" for k
    by (subst to_string_nat.simps) simp
  show ?case
  proof (cases "m < 10")
    case True
    then have "n < 10" using one [of m] one [of n] 1 by simp
    then show ?thesis using True "1.prems" digit_char_inj [of m n] by (simp add: to_string_nat.simps)
  next
    case False
    then have n: "\<not> n < 10" using one [of m] one [of n] 1 by simp
    have eq: "to_string_nat (m div 10) @ [digit_char (m mod 10)] = to_string_nat (n div 10) @ [digit_char (n mod 10)]"
      using "1.prems" False n by (metis to_string_nat.simps)
    then have "m div 10 = n div 10" using "1.IH" [OF False] by simp
    moreover have "m mod 10 = n mod 10" using eq digit_char_inj [of "m mod 10" "n mod 10"] by simp
    ultimately show ?thesis by (metis div_mult_mod_eq)
  qed
qed

lemma dot_suffix_unique:
  assumes "xs @ CHR ''.'' # a = ys @ CHR ''.'' # b" and "CHR ''.'' \<notin> set a" and "CHR ''.'' \<notin> set b"
  shows "a = b"
proof -
  have "takeWhile (\<lambda>c. c \<noteq> CHR ''.'') (rev a @ CHR ''.'' # rev xs) = rev a"
    "takeWhile (\<lambda>c. c \<noteq> CHR ''.'') (rev b @ CHR ''.'' # rev ys) = rev b"
    using assms(2,3) by (subst takeWhile_append2; auto)+
  moreover have "rev a @ CHR ''.'' # rev xs = rev b @ CHR ''.'' # rev ys"
    using arg_cong [OF assms(1), of rev] by simp
  ultimately show ?thesis by simp
qed

lemma put_temp_inj:
  assumes "put_temp P store req I = put_temp P store req' I'"
  shows "in_address I = in_address I'"
proof -
  let ?n = "\<lambda>x :: u64. to_string_nat (unat x)"
  have dot: "CHR ''.'' \<notin> set (to_string_nat k)" for k
    using to_string_nat_digits [of k] by (auto simp: is_digit_def)
  have "temp_filename P (in_address I) (PathFor store (put_chunk_id req)) =
      temp_filename P (in_address I') (PathFor store (put_chunk_id req'))"
    using assms path_append_inj [OF temp_filename_no_slash temp_filename_no_slash] unfolding put_temp_def temp_path_of_def by blast
  then have "?n (in_address I) = ?n (in_address I')"
    using dot_suffix_unique [OF _ dot dot, of "path_filename (PathFor store (put_chunk_id req)) @ ''.tmp.'' @ to_string_nat (getpid P)"]
    by (simp add: temp_filename_def)
  then have "unat (in_address I) = unat (in_address I')" by (rule to_string_nat_inj)
  then show ?thesis by (simp only: word_unat_eq_iff)
qed

section \<open>What others may do\<close>

lemma put_owns_live: "put_owns pc \<Longrightarrow> put_live pc"
  by (cases pc) simp_all

lemma put_dead: "\<not> put_live pc \<Longrightarrow> put_step P store req I pc s = (pc, s)"
  by (cases pc) simp_all

lemma put_local_cong:
  "fsys s' = fsys s \<Longrightarrow> fds s' = fds s \<Longrightarrow> put_local P store req I inp0 pc s' \<longleftrightarrow> put_local P store req I inp0 pc s"
  by (cases pc) (simp_all add: holds_def ready_def)

lemma put_local_inode:
  "put_local P store req I inp0 pc s \<Longrightarrow> i \<in> put_inodes (put_temp P store req I) pc (fsys s) \<Longrightarrow> i < fs_next (fsys s)"
  by (cases pc) (auto simp: put_inodes_def holds_def ready_def)

text \<open>What others may do to the state without disturbing an upload.\<close>

lemma put_local_kept:
  assumes "put_local P store req I inp0 pc s" and "put_fds pc \<subseteq> open_fds s" and "kept store p own mine s s'"
    and "put_live pc \<longrightarrow> put_temp P store req I \<noteq> p" and "put_fds pc \<inter> mine = {}"
    and "put_inodes (put_temp P store req I) pc (fsys s) \<inter> own = {}"
  shows "put_local P store req I inp0 pc s' \<and> put_fds pc \<subseteq> open_fds s' \<and>
    put_inodes (put_temp P store req I) pc (fsys s') = put_inodes (put_temp P store req I) pc (fsys s)"
proof -
  let ?p = "put_temp P store req I"
  have fd: "put_fds pc \<subseteq> open_fds s'" using kept_fds [OF assms(3)] assms(2,5) by blast
  have dir: "fs_dir (fsys s') ?p = fs_dir (fsys s) ?p" if "put_owns pc"
    using assms(3,4) put_owns_live [OF that] put_temp_no_chunk [of store P req I] by (auto simp: kept_def)
  have ino: "fs_data (fsys s') i = fs_data (fsys s) i \<and> dur_data (fsys s') i = dur_data (fsys s) i \<and>
      (chunk_ref store (fsys s') i \<longrightarrow> chunk_ref store (fsys s) i) \<and> i < fs_next (fsys s')"
    if "put_owns pc" "fs_dir (fsys s) ?p = Some i" for i
    using that assms(3,6) put_local_inode [OF assms(1), of i] by (auto simp: kept_def put_inodes_def)
  have tab: "map_of (fds s') k = map_of (fds s) k" if "k \<in> put_fds pc" for k
    using that assms(2,3,5) by (auto simp: kept_def)
  have h: "holds store ?p u d s'" if "holds store ?p u d s" "put_owns pc" "held u \<subseteq> put_fds pc" for u d
    using that ino [OF that(2)] dir [OF that(2)] tab by (auto simp: holds_def held_def)
  have r: "ready store ?p d s'" if "ready store ?p d s" "put_owns pc" for d
    using that ino [OF that(2)] dir [OF that(2)] by (auto simp: ready_def)
  have "put_local P store req I inp0 pc s'"
    using assms(1) h r tab by (cases pc) (auto simp: held_def)
  then show ?thesis using fd dir by (auto simp: put_inodes_def)
qed

section \<open>Names of chunks\<close>

text \<open>
  The only step of an upload that binds the name of a chunk is the successful \<open>link\<close>, and no other
  step touches such a name. No other step adds a binding a crash could bring back.
\<close>

definition names_kept :: "path \<Rightarrow> fs \<Rightarrow> fs \<Rightarrow> bool" where
  "names_kept p f g \<longleftrightarrow> (\<forall>q. q \<noteq> p \<longrightarrow> fs_dir g q = fs_dir f q \<and> fs_had g q \<subseteq> fs_had f q)"

lemma names_kept_refl: "names_kept p f f"
  by (simp add: names_kept_def)

lemma names_kept_quiet: "quiet s s' \<Longrightarrow> names_kept p (fsys s) (fsys s')"
  by (simp add: names_kept_def quiet_def)

lemma names_kept_write:
  assumes "write_turn P fd bs w s = (res, s')"
  shows "names_kept p (fsys s) (fsys s')"
proof -
  obtain r s1 where wr: "sys_write fd (drop w bs) s = (r, s1)" by fastforce
  obtain x s2 where n: "next_outcome s = (x, s2)" by fastforce
  have "names_kept p (fsys s) (fsys s1)"
    using wr n next_outcome_frame [OF n]
    by (auto simp: names_kept_def sys_write_def sys_fail_def do_write_def set_fs_def Let_def
        split: outcome.splits option.splits ofile.splits if_splits)
  then show ?thesis using assms wr by (auto simp: write_turn_def split: if_splits)
qed

lemma names_kept_cleanup: "names_kept p (fsys s) (fsys (cleanup p s))"
  using cleanup_shared [of s p] by (auto simp: names_kept_def changes_def quiet_def)

lemma names_kept_chunk:
  "names_kept (put_temp P store req I) f g \<Longrightarrow> fs_dir g (PathFor store cid) = fs_dir f (PathFor store cid)"
  using put_temp_no_chunk [of store P req I] unfolding names_kept_def no_chunk_name_def by metis

lemma names_kept_durable:
  "names_kept p f g \<Longrightarrow> q \<noteq> p \<Longrightarrow> fs_had f q = {} \<Longrightarrow> fs_had g q = {}"
  unfolding names_kept_def by blast

lemma put_step_names:
  assumes "put_step P store req I pc s = (pc', s')"
  shows "(names_kept (put_temp P store req I) (fsys s) (fsys s') \<and> \<not> (\<exists>u inp. pc = PutLink u inp \<and> pc' = PutCommitted u inp)) \<or>
    (\<exists>u inp i. pc = PutLink u inp \<and> pc' = PutCommitted u inp \<and> fs_dir (fsys s) (put_temp P store req I) = Some i \<and>
       fs_dir (fsys s) (PathFor store (put_chunk_id req)) = None \<and>
       changes (rebind (PathFor store (put_chunk_id req)) (Some i) (fsys s)) s s')"
proof -
  let ?p = "put_temp P store req I" and ?final = "PathFor store (put_chunk_id req)"
  show ?thesis
  proof (cases pc)
    case (PutStart inp)
    then show ?thesis
      using assms create_directories_cases [of "store_root store" s]
      by (auto simp: names_kept_def changes_def quiet_def split: if_splits prod.splits option.splits)
  next
    case (PutOpen inp)
    obtain raw s1 where o: "sys_open_excl ?p s = (raw, s1)" by fastforce
    then have "s' = s1" using assms PutOpen by (auto simp: put_temp_def Let_def split: if_splits)
    then show ?thesis using PutOpen sys_open_excl_cases [OF o] by (auto simp: names_kept_def quiet_def)
  next
    case (PutHeader u w inp)
    then show ?thesis
      using assms names_kept_write by (auto simp: Let_def names_kept_refl split: if_splits prod.splits sum.splits)
  next
    case (PutWrite u r h b w inp)
    then show ?thesis
      using assms names_kept_write by (auto simp: names_kept_refl split: if_splits prod.splits sum.splits)
  next
    case (PutSync u inp)
    obtain rc s1 where f: "sys_fdatasync (ufd_get u) s = (rc, s1)" by fastforce
    obtain x s2 where n: "next_outcome s = (x, s2)" by fastforce
    have "s' = s1" using assms PutSync f by (auto split: if_splits)
    then show ?thesis
      using PutSync f n next_outcome_frame [OF n]
      by (auto simp: names_kept_def sys_fdatasync_def sys_fail_def set_fs_def Let_def
          split: outcome.splits option.splits ofile.splits)
  next
    case (PutLink u inp)
    obtain rc s1 where l: "sys_link ?p ?final s = (rc, s1)" by fastforce
    then have "s' = s1" "pc' = (if rc \<noteq> 0 then PutRefused u (os_errno s1) inp else PutCommitted u inp)"
      using assms PutLink by (auto simp: put_temp_def split: if_splits)
    then show ?thesis using sys_link_cases [OF l] names_kept_quiet PutLink by auto
  next
    case (PutRefused u e inp)
    then have "fsys s' = fsys (cleanup ?p s)" using assms by (auto simp: put_temp_def Let_def split: if_splits)
    then show ?thesis using PutRefused names_kept_cleanup [of ?p s] by simp
  next
    case (PutOpenDir u inp)
    obtain raw s1 where o: "sys_open_dir (store_root store) s = (raw, s1)" by fastforce
    then have "s' = s1" using assms PutOpenDir by (auto simp: Let_def split: if_splits)
    then show ?thesis using PutOpenDir sys_open_dir_cases [OF o] by (auto simp: names_kept_def quiet_def)
  next
    case (PutSyncDir u d inp)
    obtain rc s1 where f: "sys_fsync_dir (ufd_get d) s = (rc, s1)" by fastforce
    then have "s' = s1" using assms PutSyncDir by auto
    then show ?thesis using PutSyncDir sys_fsync_dir_shared [OF f]
      by (auto simp: names_kept_def quiet_def changes_def split: if_splits)
  qed (use assms names_kept_cleanup [of ?p s] in
        \<open>auto simp: put_temp_def names_kept_refl ufd_destroy_shared ufd_reset_def sys_close_def split: prod.splits\<close>)
qed

end
