(* ===== verification/Reader_Steps.thy ===== *)
theory Reader_Steps
  imports Shared_Calls
begin

text \<open>
  A \<open>Head\<close> or a \<open>Get\<close> beside other threads. First its footprint: a reader changes no file and holds
  at most one descriptor, to a file that was a chunk when it was opened. Then its history: what
  it has read and will return, in terms of the contents its identifier has had during the call.
\<close>

section \<open>Calls of a reader\<close>

text \<open>The file \<open>u\<close> is open on has contents that satisfy \<open>Q\<close>.\<close>

definition reads_file :: "UniqueFd \<Rightarrow> (byte list \<Rightarrow> bool) \<Rightarrow> os \<Rightarrow> bool" where
  "reads_file u Q s \<longleftrightarrow> ufd_valid u \<and>
     (\<exists>i. map_of (fds s) (ufd_get u) = Some (OFile i 0) \<and> i < fs_next (fsys s) \<and> Q (fs_data (fsys s) i))"

lemma reads_file_mono: "reads_file u Q s \<Longrightarrow> (\<And>d. Q d \<Longrightarrow> R d) \<Longrightarrow> reads_file u R s"
  unfolding reads_file_def by blast

lemma reads_file_quiet: "quiet s s' \<Longrightarrow> reads_file u Q s' \<longleftrightarrow> reads_file u Q s"
  by (simp add: reads_file_def quiet_def)

lemma reads_file_open: "reads_file u Q s \<Longrightarrow> held u \<subseteq> open_fds s"
  unfolding reads_file_def held_def by (auto dest: map_of_open)

text \<open>The files a set of descriptors is open on.\<close>

definition read_inodes :: "int set \<Rightarrow> os \<Rightarrow> inode set" where
  "read_inodes F s = {i. \<exists>fd \<in> F. \<exists>pos. map_of (fds s) fd = Some (OFile i pos)}"

lemma read_inodes_empty [simp]: "read_inodes {} s = {}"
  by (simp add: read_inodes_def)

text \<open>Others may do what they like to other files.\<close>

lemma reads_file_kept:
  assumes "reads_file u Q s" and "kept store p own mine s s'" and "held u \<inter> mine = {}" and "read_inodes (held u) s \<inter> own = {}"
  shows "reads_file u Q s'"
proof -
  obtain i where i: "ufd_valid u" "map_of (fds s) (ufd_get u) = Some (OFile i 0)" "i < fs_next (fsys s)" "Q (fs_data (fsys s) i)"
    using assms(1) by (auto simp: reads_file_def)
  have "i \<notin> own" using assms(4) i(1,2) by (auto simp: read_inodes_def held_def)
  moreover have "map_of (fds s') (ufd_get u) = map_of (fds s) (ufd_get u)"
    using assms(2,3) i(1) reads_file_open [OF assms(1)] by (auto simp: kept_def held_def)
  ultimately show ?thesis using i assms(2) by (auto simp: reads_file_def kept_def)
qed

lemma pread_turn_shared:
  assumes "pread_turn P fd n off s = (r, s')"
  shows "quiet s s' \<and> sched_tail s s'"
proof -
  obtain x s1 where n: "next_outcome s = (x, s1)" and q: "quiet s s1" "sched_tail s s1" using take_outcome [of s] by blast
  obtain a bs s2 where p: "sys_pread fd n (unat off) s = ((a, bs), s2)" by (metis surj_pair)
  have "quiet s s2 \<and> sched_tail s s2"
    using p n q by (auto simp: sys_pread_def Let_def quiet_def sched_tail_def split: outcome.splits option.splits ofile.splits)
  then show ?thesis using assms p by (auto simp: pread_turn_def split: if_splits)
qed

text \<open>What a turn returns: bytes of the file, or the report of a call that failed.\<close>

lemma pread_turn_result:
  assumes "pread_turn P fd n off s = (r, s')" and "map_of (fds s) fd = Some (OFile i pos)" and "off \<le> off_t_max"
  obtains (again) "r = None" and "\<not> smooth s"
    | (failed) st where "r = Some (StatusOr_error st)" and "\<not> status_ok st" and "\<not> smooth s"
    | (bytes) bs where "r = Some (StatusOr_value bs)" and "front_of bs (take n (drop (unat off) (fs_data (fsys s) i)))"
proof -
  obtain x s1 where n: "next_outcome s = (x, s1)" and q: "quiet s s1" "smooth s \<Longrightarrow> smooth_outcome x" using take_outcome [of s] by blast
  have lk: "map_of (fds s1) fd = Some (OFile i pos)" "fs_data (fsys s1) = fs_data (fsys s)" using assms(2) q(1) by (auto simp: quiet_def)
  show ?thesis
  proof (cases "\<exists>e. x = Fail e")
    case True
    then have "\<not> smooth s" using q(2) by (auto simp: smooth_outcome_def)
    then show ?thesis
      using assms(1,3) n True again failed by (auto simp: pread_turn_def sys_pread_def split: if_splits)
  next
    case False
    let ?bs = "cut x (take n (drop (unat off) (fs_data (fsys s) i)))"
    have "sys_pread fd n (unat off) s = ((int (length ?bs), ?bs), s1)"
      using False n lk by (cases x) (auto simp: sys_pread_def Let_def)
    moreover have "\<not> off > off_t_max" using assms(3) by simp
    ultimately have "r = Some (StatusOr_value ?bs)" using assms(1) by (simp add: pread_turn_def)
    then show ?thesis using bytes front_of_cut by blast
  qed
qed

lemma sys_fstat_shared:
  assumes "sys_fstat fd s = ((rc, n), s')"
  shows "quiet s s' \<and> sched_tail s s' \<and>
    (map_of (fds s) fd = Some (OFile i pos) \<longrightarrow> (if rc = 0 then n = int (length (fs_data (fsys s) i)) else \<not> smooth s))"
proof -
  obtain x s1 where n: "next_outcome s = (x, s1)" and q: "quiet s s1" "sched_tail s s1" "smooth s \<Longrightarrow> smooth_outcome x"
    using take_outcome [of s] by blast
  show ?thesis
    using assms n q
    by (auto simp: sys_fstat_def quiet_def sched_tail_def smooth_outcome_def split: outcome.splits option.splits ofile.splits)
qed

section \<open>Footprint\<close>

fun head_fds :: "head_pc \<Rightarrow> int set" where
  "head_fds (HeadRead fd header) = held fd"
| "head_fds (HeadStat fd header) = held fd"
| "head_fds (HeadClose fd res) = held fd"
| "head_fds pc = {}"

fun get_fds :: "'o get_pc \<Rightarrow> int set" where
  "get_fds (GetHead pc out) = head_fds pc"
| "get_fds (GetSend fd remaining offset out) = held fd"
| "get_fds (GetReturn fd st out) = held fd"
| "get_fds pc = {}"

text \<open>The descriptors \<open>F\<close> of a reader are open, and those of files are of existing ones.\<close>

definition reader_local :: "int set \<Rightarrow> os \<Rightarrow> bool" where
  "reader_local F s \<longleftrightarrow> F \<subseteq> open_fds s \<and> (\<forall>i \<in> read_inodes F s. i < fs_next (fsys s))"

text \<open>
  What a step of a reader guarantees: it changes no file and no descriptor but its own, and the
  file it opens is a chunk.
\<close>

definition reader_step :: "FileChunkStore \<Rightarrow> int set \<Rightarrow> os \<Rightarrow> int set \<Rightarrow> os \<Rightarrow> bool" where
  "reader_step store F s F' s' \<longleftrightarrow>
     fsys s' = fsys s \<and> sched_tail s s' \<and> open_fds s' = open_fds s - F \<union> F' \<and> F' \<subseteq> F \<union> - open_fds s \<and>
     (\<forall>fd \<in> open_fds s - F. map_of (fds s') fd = map_of (fds s) fd) \<and>
     read_inodes F' s' \<subseteq> read_inodes F s \<union> {i. chunk_ref store (fsys s) i}"

lemma reader_quiet: "quiet s s' \<Longrightarrow> sched_tail s s' \<Longrightarrow> F \<subseteq> open_fds s \<Longrightarrow> reader_step store F s F s'"
  by (auto simp: reader_step_def quiet_def read_inodes_def)

lemma reader_close:
  assumes "held u \<subseteq> open_fds s"
  shows "reader_step store (held u) s {} (ufd_destroy u s)"
proof -
  have "sched_tail s (ufd_destroy u s)" by (auto simp: ufd_destroy_def ufd_reset_def sys_close_def sched_tail_def)
  then show ?thesis by (auto simp: reader_step_def ufd_destroy_shared held_def)
qed

lemma reader_open:
  assumes "sys_open_rd (PathFor store cid) s = (raw, s')"
  shows "reader_step store {} s (held (ufd_make raw)) s'"
proof (cases "0 \<le> raw")
  case False
  then have "quiet s s'" "sched_tail s s'" "held (ufd_make raw) = {}"
    using sys_open_rd_cases [OF assms] by (auto simp: held_def)
  then show ?thesis using reader_quiet [of s s' "{}" store] by simp
next
  case True
  then obtain i where i: "fs_dir (fsys s) (PathFor store cid) = Some i" "fd_top raw (OFile i 0) (fds s) s'"
    "sched_tail s s'" "fsys s' = fsys s" using sys_open_rd_cases [OF assms] by auto
  have "held (ufd_make raw) = {raw}" using True by (simp add: held_def)
  moreover have "chunk_ref store (fsys s) i" using i(1) by (auto simp: chunk_ref_def)
  ultimately show ?thesis
    using i(2-4) by (auto simp: reader_step_def fd_top_def read_inodes_def image_iff)
qed

lemma head_step_reader:
  assumes "head_step P store cid pc s = (pc', s')" and "head_fds pc \<subseteq> open_fds s"
  shows "reader_step store (head_fds pc) s (head_fds pc') s'"
proof (cases pc)
  case HeadStart
  obtain raw s1 where o: "sys_open_rd (PathFor store cid) s = (raw, s1)" by fastforce
  show ?thesis
    using assms HeadStart reader_open [OF o] reader_quiet [of s s "{}" store] o by (auto simp: Let_def split: if_splits)
next
  case (HeadRead u h)
  obtain r s1 where p: "pread_turn P (ufd_get u) (kHeaderSize - length h) (word_of_nat (length h)) s = (r, s1)" by fastforce
  have "quiet s s'" "sched_tail s s'" "head_fds pc' = held u"
    using assms(1) HeadRead p pread_turn_shared [OF p]
    by (auto simp: head_checked_def head_received_def split: if_splits option.splits)
  then show ?thesis using reader_quiet assms(2) HeadRead by auto
next
  case (HeadStat u h)
  obtain rc n s1 where f: "sys_fstat (ufd_get u) s = ((rc, n), s1)" by (metis surj_pair)
  then show ?thesis using assms HeadStat sys_fstat_shared [OF f] reader_quiet [of s s1] by auto
next
  case (HeadClose u res)
  then show ?thesis using assms reader_close by auto
next
  case (HeadDone res)
  then show ?thesis using assms reader_quiet [of s s "{}" store] by auto
qed

lemma get_step_reader:
  assumes "get_step P store req O' pc s = (pc', s')" and "get_fds pc \<subseteq> open_fds s"
  shows "reader_step store (get_fds pc) s (get_fds pc') s'"
proof (cases pc)
  case (GetHead hp out)
  show ?thesis
  proof (cases "head_halted hp")
    case True
    then obtain head where "hp = HeadDone head" by (cases hp) auto
    then have "s' = s" "get_fds pc' = {}" "get_fds pc = {}"
      using assms(1) GetHead by (auto simp: get_ranged_def split: option.splits if_splits)
    then show ?thesis using reader_quiet [of s s "{}" store] by simp
  next
    case False
    obtain hp' s1 where h: "head_step P store (get_chunk_id req) hp s = (hp', s1)" by fastforce
    then have "s' = s1" "pc' = GetHead hp' out" using assms(1) GetHead get_step_head [OF False, of P store req O' out s] by auto
    then show ?thesis using assms(2) GetHead head_step_reader [OF h] by auto
  qed
next
  case (GetOpen out)
  obtain raw s1 where o: "sys_open_rd (PathFor store (get_chunk_id req)) s = (raw, s1)" by fastforce
  then show ?thesis using assms GetOpen reader_open [OF o] by (auto simp: Let_def split: if_splits)
next
  case (GetSend u remaining off out)
  obtain r s1 where p: "pread_turn P (ufd_get u) (min (unat remaining) kBufferSize) off s = (r, s1)" by fastforce
  have "quiet s s'" "sched_tail s s'" "get_fds pc' = held u"
    using assms(1) GetSend p pread_turn_shared [OF p]
    by (auto simp: get_received_def split: if_splits option.splits prod.splits)
  then show ?thesis using reader_quiet assms(2) GetSend by auto
next
  case (GetReturn u st out)
  then show ?thesis using assms reader_close by auto
next
  case (GetDone st out)
  then show ?thesis using assms reader_quiet [of s s "{}" store] by auto
qed

lemma reader_local_step:
  assumes "reader_local F s" and "reader_step store F s F' s'" and "store_inv P store (fsys s)"
  shows "reader_local F' s'"
  using assms by (auto simp: reader_local_def reader_step_def store_inv_def)

lemma reader_kept: "reader_step store F s F' s' \<Longrightarrow> kept store p {} F s s'"
  by (simp add: reader_step_def kept_def)

text \<open>Steps of others leave a reader's descriptors alone.\<close>

lemma read_inodes_kept:
  assumes "kept store p own mine s s'" and "F \<inter> mine = {}" and "F \<subseteq> open_fds s"
  shows "read_inodes F s' = read_inodes F s"
proof -
  have "map_of (fds s') fd = map_of (fds s) fd" if "fd \<in> F" for fd using that assms by (auto simp: kept_def)
  then show ?thesis by (simp add: read_inodes_def)
qed

lemma reader_local_kept:
  assumes "reader_local F s" and "kept store p own mine s s'" and "F \<inter> mine = {}"
  shows "reader_local F s'"
proof -
  have F: "F \<subseteq> open_fds s" "\<forall>i \<in> read_inodes F s. i < fs_next (fsys s)" using assms(1) by (auto simp: reader_local_def)
  have "F \<subseteq> open_fds s'" using F(1) assms(3) kept_fds [OF assms(2)] by blast
  moreover have "fs_next (fsys s) \<le> fs_next (fsys s')" using assms(2) by (simp add: kept_def)
  ultimately show ?thesis
    using F(2) read_inodes_kept [OF assms(2,3) F(1)] by (auto simp: reader_local_def intro: less_le_trans)
qed

end
