(* ===== verification/Worker_Threads.thy ===== *)
theory Worker_Threads
  imports Thread_Pools Upload_Steps Reader_Steps
begin

text \<open>
  The worker with several calls in progress. gRPC runs the handlers of \<open>WorkerService\<close> on a pool
  of threads that share one \<open>FileChunkStore\<close>, which has no lock of its own: uploads, deletions,
  queries and downloads interleave at their system calls. This theory has the threads, what a
  step of each guarantees, and the laws of the locale \<open>interleaving\<close> for them.
\<close>

section \<open>The threads of the worker\<close>

text \<open>
  An upload in progress with its request, its stream and the state the stream had at the start;
  a deletion, which is a single system call; a \<open>Head\<close>; a \<open>Get\<close> with its request, its stream and
  the state the stream had at the start. Each thread has its own \<open>errno\<close>. The handlers' stream
  objects live on the stacks of their threads, so two uploads in progress have streams at
  different addresses.
\<close>

datatype ('h, 's, 'o) thread =
    PutThread PutChunkRequest "'s ChunkInputStream" 's "('h, 's) put_pc" errno
  | DeleteThread ChunkId "Status option" errno
  | HeadThread ChunkId head_pc errno
  | GetThread GetChunkRequest "'o ChunkOutputStream" 'o "'o get_pc" errno

fun thread_step :: "'h platform \<Rightarrow> FileChunkStore \<Rightarrow> ('h, 's, 'o) thread \<Rightarrow> os \<Rightarrow> ('h, 's, 'o) thread \<times> os" where
  "thread_step P store (PutThread req I inp0 pc e) s =
     (case put_step P store req I pc (s\<lparr>os_errno := e\<rparr>) of (pc, s) \<Rightarrow> (PutThread req I inp0 pc (os_errno s), s))"
| "thread_step P store (DeleteThread cid None e) s =
     (case FileChunkStore_Delete P store cid (s\<lparr>os_errno := e\<rparr>) of
        (status, s) \<Rightarrow> (DeleteThread cid (Some status) (os_errno s), s))"
| "thread_step P store (DeleteThread cid (Some status) e) s = (DeleteThread cid (Some status) e, s)"
| "thread_step P store (HeadThread cid pc e) s =
     (case head_step P store cid pc (s\<lparr>os_errno := e\<rparr>) of (pc, s) \<Rightarrow> (HeadThread cid pc (os_errno s), s))"
| "thread_step P store (GetThread req O' out0 pc e) s =
     (case get_step P store req O' pc (s\<lparr>os_errno := e\<rparr>) of (pc, s) \<Rightarrow> (GetThread req O' out0 pc (os_errno s), s))"

fun thread_fresh :: "('h, 's, 'o) thread \<Rightarrow> bool" where
  "thread_fresh (PutThread req I inp0 (PutStart inp) e) \<longleftrightarrow> stream_ok I \<and> inp = inp0"
| "thread_fresh (PutThread req I inp0 pc e) \<longleftrightarrow> False"
| "thread_fresh (DeleteThread cid st e) \<longleftrightarrow> st = None"
| "thread_fresh (HeadThread cid pc e) \<longleftrightarrow> pc = HeadStart"
| "thread_fresh (GetThread req O' out0 pc e) \<longleftrightarrow> pc = GetHead HeadStart out0"

fun thread_joins :: "('h, 's, 'o) thread \<Rightarrow> ('h, 's, 'o) thread \<Rightarrow> bool" where
  "thread_joins (PutThread req I inp0 pc e) (PutThread req' I' inp0' pc' e') \<longleftrightarrow>
     (put_live pc \<longrightarrow> in_address I \<noteq> in_address I')"
| "thread_joins p q \<longleftrightarrow> True"

section \<open>Footprints\<close>

text \<open>The descriptors, temporary names, owned inodes and inodes open for reading of a thread.\<close>

fun thread_fds :: "('h, 's, 'o) thread \<Rightarrow> int set" where
  "thread_fds (PutThread req I inp0 pc e) = put_fds pc"
| "thread_fds (DeleteThread cid st e) = {}"
| "thread_fds (HeadThread cid pc e) = head_fds pc"
| "thread_fds (GetThread req O' out0 pc e) = get_fds pc"

fun thread_temps :: "'h platform \<Rightarrow> FileChunkStore \<Rightarrow> ('h, 's, 'o) thread \<Rightarrow> path set" where
  "thread_temps P store (PutThread req I inp0 pc e) = (if put_live pc then {put_temp P store req I} else {})"
| "thread_temps P store p = {}"

fun thread_inodes :: "'h platform \<Rightarrow> FileChunkStore \<Rightarrow> ('h, 's, 'o) thread \<Rightarrow> fs \<Rightarrow> inode set" where
  "thread_inodes P store (PutThread req I inp0 pc e) f = put_inodes (put_temp P store req I) pc f"
| "thread_inodes P store p f = {}"

fun thread_reads :: "('h, 's, 'o) thread \<Rightarrow> os \<Rightarrow> inode set" where
  "thread_reads (HeadThread cid pc e) s = read_inodes (head_fds pc) s"
| "thread_reads (GetThread req O' out0 pc e) s = read_inodes (get_fds pc) s"
| "thread_reads p s = {}"

definition thread_shared :: "'h platform \<Rightarrow> FileChunkStore \<Rightarrow> os \<Rightarrow> bool" where
  "thread_shared P store s \<longleftrightarrow> blake3_laws P \<and> store_inv P store (fsys s)"

fun thread_own :: "'h platform \<Rightarrow> FileChunkStore \<Rightarrow> ('h, 's, 'o) thread \<Rightarrow> os \<Rightarrow> bool" where
  "thread_own P store (PutThread req I inp0 pc e) s \<longleftrightarrow>
     stream_ok I \<and> put_fds pc \<subseteq> open_fds s \<and> put_local P store req I inp0 pc s"
| "thread_own P store (DeleteThread cid st e) s \<longleftrightarrow> True"
| "thread_own P store (HeadThread cid pc e) s \<longleftrightarrow> reader_local (head_fds pc) s"
| "thread_own P store (GetThread req O' out0 pc e) s \<longleftrightarrow> reader_local (get_fds pc) s"

definition thread_apart :: "'h platform \<Rightarrow> FileChunkStore \<Rightarrow> ('h, 's, 'o) thread \<Rightarrow> ('h, 's, 'o) thread \<Rightarrow> os \<Rightarrow> bool" where
  "thread_apart P store p q s \<longleftrightarrow>
     thread_temps P store p \<inter> thread_temps P store q = {} \<and> thread_fds p \<inter> thread_fds q = {} \<and>
     thread_inodes P store p (fsys s) \<inter> (thread_inodes P store q (fsys s) \<union> thread_reads q s) = {} \<and>
     thread_reads p s \<inter> thread_inodes P store q (fsys s) = {}"

lemma put_local_unref:
  "put_local P store req I inp0 pc s \<Longrightarrow> i \<in> put_inodes (put_temp P store req I) pc (fsys s) \<Longrightarrow> \<not> chunk_ref store (fsys s) i"
  by (cases pc) (auto simp: put_inodes_def holds_def ready_def)

lemma thread_own_fds: "thread_own P store p s \<Longrightarrow> thread_fds p \<subseteq> open_fds s"
  by (cases p) (auto simp: reader_local_def)

lemma thread_own_inodes:
  "thread_own P store p s \<Longrightarrow> i \<in> thread_inodes P store p (fsys s) \<Longrightarrow> i < fs_next (fsys s) \<and> \<not> chunk_ref store (fsys s) i"
  by (cases p) (auto dest: put_local_inode put_local_unref)

lemma thread_own_reads: "thread_own P store p s \<Longrightarrow> i \<in> thread_reads p s \<Longrightarrow> i < fs_next (fsys s)"
  by (cases p) (auto simp: reader_local_def)

section \<open>What a step guarantees\<close>

definition thread_sound ::
  "'h platform \<Rightarrow> FileChunkStore \<Rightarrow> ('h, 's, 'o) thread \<Rightarrow> os \<Rightarrow> ('h, 's, 'o) thread \<Rightarrow> os \<Rightarrow> bool" where
  "thread_sound P store p s p' s' \<longleftrightarrow>
     thread_shared P store s' \<and> thread_own P store p' s' \<and>
     (\<exists>n. kept store n (thread_inodes P store p (fsys s)) (thread_fds p) s s' \<and>
        (n \<in> thread_temps P store p \<or> \<not> no_chunk_name store n)) \<and>
     open_fds s' = open_fds s - thread_fds p \<union> thread_fds p' \<and> thread_fds p' \<subseteq> thread_fds p \<union> - open_fds s \<and>
     thread_temps P store p' \<subseteq> thread_temps P store p \<and>
     thread_inodes P store p' (fsys s') \<subseteq> thread_inodes P store p (fsys s) \<union> {i. fs_next (fsys s) \<le> i} \<and>
     thread_reads p' s' \<subseteq> thread_reads p s \<union> {i. chunk_ref store (fsys s) i}"

lemma chunk_name: "\<not> no_chunk_name store (PathFor store cid)" "\<exists>n. \<not> no_chunk_name store n"
  by (auto simp: no_chunk_name_def)

lemma put_thread_sound:
  assumes "thread_shared P store s" and "thread_own P store (PutThread req I inp0 pc e) s"
    and "put_step P store req I pc (s\<lparr>os_errno := e\<rparr>) = (pc', s')"
  shows "sound_step P store req I inp0 pc s pc' s'"
proof -
  let ?s = "s\<lparr>os_errno := e\<rparr>"
  have "put_local P store req I inp0 pc ?s" using assms(2) put_local_cong [of ?s s P store req I inp0 pc] by simp
  then have "sound_step P store req I inp0 pc ?s pc' s'"
    by (intro put_step_sound [OF assms(3)]) (use assms(1,2) in \<open>auto simp: thread_shared_def\<close>)
  then show ?thesis by (simp add: sound_step_def kept_def)
qed

lemma thread_sound_put:
  assumes "thread_shared P store s" and "thread_own P store (PutThread req I inp0 pc e) s"
    and "put_step P store req I pc (s\<lparr>os_errno := e\<rparr>) = (pc', s')"
  shows "thread_sound P store (PutThread req I inp0 pc e) s (PutThread req I inp0 pc' e') s'"
proof (cases "put_live pc")
  case False
  then have "pc' = pc" "s' = s\<lparr>os_errno := e\<rparr>" using put_dead assms(3) by force+
  moreover have "kept store n own mine s (s\<lparr>os_errno := e\<rparr>)" for n own mine by (simp add: kept_def)
  ultimately show ?thesis
    using assms(1,2) chunk_name put_local_cong [of "s\<lparr>os_errno := e\<rparr>" s P store req I inp0 pc]
    by (auto simp: thread_sound_def thread_shared_def)
next
  case True
  have "sound_step P store req I inp0 pc s pc' s'" by (rule put_thread_sound [OF assms])
  then show ?thesis
    using True assms(1,2) by (auto simp: thread_sound_def sound_step_def thread_shared_def put_inodes_def)
qed

lemma delete_kept:
  assumes "FileChunkStore_Delete P store cid s = (st, s')" and "store_inv P store (fsys s)"
  shows "store_inv P store (fsys s') \<and> kept store (PathFor store cid) {} {} s s' \<and> fds s' = fds s"
proof -
  obtain rc s1 where u: "sys_unlink (PathFor store cid) s = (rc, s1)" by fastforce
  have "quiet s s' \<or> changes (rebind (PathFor store cid) None (fsys s)) s s'"
    using assms(1) u sys_unlink_cases [OF u] by (auto simp: FileChunkStore_Delete_def Let_def split: if_splits)
  then show ?thesis
    using assms(2) store_inv_unlink [OF assms(2)] kept_quiet chunk_ref_less(1) [of store "PathFor store cid" "fsys s"]
    by (auto simp: kept_def changes_def quiet_def)
qed

lemma thread_sound_delete:
  assumes "thread_shared P store s" and "thread_step P store (DeleteThread cid st e) s = (p', s')"
  shows "thread_sound P store (DeleteThread cid st e) s p' s'"
proof (cases st)
  case None
  obtain st' s1 where d: "FileChunkStore_Delete P store cid (s\<lparr>os_errno := e\<rparr>) = (st', s1)" by fastforce
  then have "p' = DeleteThread cid (Some st') (os_errno s1)" "s' = s1" using assms(2) None by auto
  then show ?thesis
    using delete_kept [OF d] assms(1) chunk_name(1) [of store cid] by (auto simp: thread_sound_def thread_shared_def kept_def)
next
  case (Some x)
  then show ?thesis
    using assms chunk_name(1) [of store cid] kept_quiet [OF quiet_refl, of store] by (auto simp: thread_sound_def)
qed

lemma thread_sound_reader:
  assumes "thread_shared P store s" and "reader_local (thread_fds p) s"
    and step: "reader_step store (thread_fds p) s (thread_fds p') s'"
    and "thread_own P store p' s' \<longleftrightarrow> reader_local (thread_fds p') s'" and "thread_reads p s = read_inodes (thread_fds p) s"
    and "thread_reads p' s' = read_inodes (thread_fds p') s'" and "thread_temps P store p' = {}" and "\<And>f. thread_inodes P store p' f = {}"
  shows "thread_sound P store p s p' s'"
proof -
  have "reader_local (thread_fds p') s'"
    by (rule reader_local_step [OF assms(2) step, where P = P]) (use assms(1) in \<open>simp add: thread_shared_def\<close>)
  moreover have "kept store n own (thread_fds p) s s'" for n own
    using step by (simp add: reader_step_def kept_def)
  ultimately show ?thesis
    using assms chunk_name [of store] by (auto simp: thread_sound_def reader_step_def thread_shared_def)
qed

lemma thread_step_sound:
  assumes "thread_shared P store s" and "thread_own P store p s" and "thread_step P store p s = (p', s')"
  shows "thread_sound P store p s p' s'"
proof (cases p)
  case (PutThread req I inp0 pc e)
  then show ?thesis using assms thread_sound_put by (fastforce split: prod.splits)
next
  case (DeleteThread cid st e)
  then show ?thesis using assms thread_sound_delete by blast
next
  case (HeadThread cid pc e)
  obtain pc' where h: "head_step P store cid pc (s\<lparr>os_errno := e\<rparr>) = (pc', s')" and p': "p' = HeadThread cid pc' (os_errno s')"
    using assms(3) HeadThread by (auto split: prod.splits)
  have "reader_step store (head_fds pc) (s\<lparr>os_errno := e\<rparr>) (head_fds pc') s'"
    by (rule head_step_reader [OF h]) (use assms(2) HeadThread in \<open>simp add: reader_local_def\<close>)
  then have "reader_step store (head_fds pc) s (head_fds pc') s'" by (simp add: reader_step_def read_inodes_def sched_tail_def)
  then show ?thesis using assms(1,2) HeadThread p' by (intro thread_sound_reader) simp_all
next
  case (GetThread req O' out0 pc e)
  obtain pc' where g: "get_step P store req O' pc (s\<lparr>os_errno := e\<rparr>) = (pc', s')" and p': "p' = GetThread req O' out0 pc' (os_errno s')"
    using assms(3) GetThread by (auto split: prod.splits)
  have "reader_step store (get_fds pc) (s\<lparr>os_errno := e\<rparr>) (get_fds pc') s'"
    by (rule get_step_reader [OF g]) (use assms(2) GetThread in \<open>simp add: reader_local_def\<close>)
  then have "reader_step store (get_fds pc) s (get_fds pc') s'" by (simp add: reader_step_def read_inodes_def sched_tail_def)
  then show ?thesis using assms(1,2) GetThread p' by (intro thread_sound_reader) simp_all
qed

section \<open>What others may do\<close>

lemma thread_own_kept:
  assumes own: "thread_own P store q s" and k: "kept store n own mine s s'" and "n \<notin> thread_temps P store q \<or> \<not> no_chunk_name store n"
    and "thread_fds q \<inter> mine = {}" and "(thread_inodes P store q (fsys s) \<union> thread_reads q s) \<inter> own = {}"
  shows "thread_own P store q s' \<and> thread_inodes P store q (fsys s') = thread_inodes P store q (fsys s) \<and>
    thread_reads q s' = thread_reads q s"
proof (cases q)
  case (PutThread req I inp0 pc e)
  have "put_live pc \<longrightarrow> put_temp P store req I \<noteq> n"
    using assms(3) PutThread put_temp_no_chunk [of store P req I] by auto
  then show ?thesis
    using put_local_kept [OF _ _ k, of P req I inp0 pc] assms(4,5) own PutThread by simp
next
  case (HeadThread cid pc e)
  then show ?thesis
    using own assms(4) reader_local_kept [OF _ k] read_inodes_kept [OF k] by (auto simp: reader_local_def)
next
  case (GetThread req O' out0 pc e)
  then show ?thesis
    using own assms(4) reader_local_kept [OF _ k] read_inodes_kept [OF k] by (auto simp: reader_local_def)
qed simp

lemma thread_sound_other:
  assumes "thread_sound P store p s p' s'" and "thread_own P store q s" and "thread_apart P store p q s"
  shows "thread_own P store q s' \<and> thread_inodes P store q (fsys s') = thread_inodes P store q (fsys s) \<and>
    thread_reads q s' = thread_reads q s"
proof -
  obtain n where n: "kept store n (thread_inodes P store p (fsys s)) (thread_fds p) s s'"
    "n \<in> thread_temps P store p \<or> \<not> no_chunk_name store n" using assms(1) by (auto simp: thread_sound_def)
  show ?thesis by (rule thread_own_kept [OF assms(2) n(1)]) (use n(2) assms(3) in \<open>auto simp: thread_apart_def\<close>)
qed

lemma disjoint_new: "A' \<subseteq> A \<union> - X \<Longrightarrow> A \<inter> B = {} \<Longrightarrow> B \<subseteq> X \<Longrightarrow> A' \<inter> B = {}"
  by blast

lemma thread_sound_apart:
  assumes "thread_sound P store p s p' s'" and "thread_own P store p s" and "thread_own P store q s" and "thread_apart P store p q s"
  shows "thread_apart P store p' q s'"
proof -
  note o = thread_sound_other [OF assms(1,3,4)]
  have q: "i < fs_next (fsys s)" if "i \<in> thread_inodes P store q (fsys s) \<union> thread_reads q s" for i
    using that thread_own_inodes [OF assms(3)] thread_own_reads [OF assms(3)] by blast
  note p = assms(1) [unfolded thread_sound_def] and ap = assms(4) [unfolded thread_apart_def]
  have "thread_temps P store p' \<subseteq> thread_temps P store p" "thread_fds p' \<subseteq> thread_fds p \<union> - open_fds s"
    "thread_inodes P store p' (fsys s') \<subseteq> thread_inodes P store p (fsys s) \<union> {i. fs_next (fsys s) \<le> i}"
    "thread_reads p' s' \<subseteq> thread_reads p s \<union> {i. chunk_ref store (fsys s) i}" using p by simp_all
  note p' = this
  have "thread_temps P store p' \<inter> thread_temps P store q = {}" using p'(1) ap by blast
  moreover have "thread_fds p' \<inter> thread_fds q = {}"
    by (rule disjoint_new [OF p'(2) _ thread_own_fds [OF assms(3)]]) (use ap in simp)
  moreover have "thread_inodes P store p' (fsys s') \<inter> (thread_inodes P store q (fsys s) \<union> thread_reads q s) = {}"
    using p'(3) conjunct1 [OF conjunct2 [OF conjunct2 [OF ap]]] q by (auto dest: subsetD leD)
  moreover have "thread_reads p' s' \<inter> thread_inodes P store q (fsys s) = {}"
    using p'(4) ap thread_own_inodes [OF assms(3)] by blast
  ultimately show ?thesis using o by (simp add: thread_apart_def)
qed

lemma thread_joins_apart:
  assumes "thread_own P store p s" and "thread_fresh q" and "thread_joins p q"
  shows "thread_apart P store p q s"
  using assms
  by (cases q rule: thread_fresh.cases; cases p) (auto simp: thread_apart_def put_inodes_def dest: put_temp_inj)

interpretation pool: interleaving "thread_step P store" thread_fresh thread_joins "thread_shared P store"
    "thread_own P store" "thread_apart P store" for P store
proof
  fix p q r p' and s s' :: os
  assume sh: "thread_shared P store s" "thread_own P store p s"
  note sound = thread_step_sound [OF sh]
  show "thread_step P store p s = (p', s') \<Longrightarrow> thread_shared P store s' \<and> thread_own P store p' s'"
    by (drule sound) (simp add: thread_sound_def)
  show "thread_own P store q s \<Longrightarrow> thread_apart P store p q s \<Longrightarrow> thread_step P store p s = (p', s') \<Longrightarrow>
      thread_own P store q s' \<and> thread_apart P store p' q s'"
    using thread_sound_other [OF sound] thread_sound_apart [OF sound sh(2)] by blast
  show "thread_own P store q s \<Longrightarrow> thread_own P store r s \<Longrightarrow> thread_apart P store p q s \<Longrightarrow> thread_apart P store p r s \<Longrightarrow>
      thread_apart P store q r s \<Longrightarrow> thread_step P store p s = (p', s') \<Longrightarrow> thread_apart P store q r s'"
    using thread_sound_other [OF sound, of p' s' q] thread_sound_other [OF sound, of p' s' r] by (simp add: thread_apart_def)
next
  show "thread_apart P store p q s \<Longrightarrow> thread_apart P store q p s" for p q s by (auto simp: thread_apart_def)
  show "thread_fresh q \<Longrightarrow> thread_own P store q s" for q s
    by (cases q rule: thread_fresh.cases) (auto simp: reader_local_def)
qed (rule thread_joins_apart)

end
