(* ===== verification/Pool_Effects.thy ===== *)
theory Pool_Effects
  imports Worker_Threads
begin

text \<open>
  The steps of the worker's threads as operations on the stored chunks: an insertion, a removal
  or nothing.
\<close>

section \<open>Steps as operations on the view\<close>

text \<open>Files that chunk names refer to keep their contents.\<close>

lemma stored_step:
  assumes "store_inv P store (fsys s)" and "kept store p own mine s s'" and "\<And>i. i \<in> own \<Longrightarrow> \<not> chunk_ref store (fsys s) i"
    and "fs_dir (fsys s') (PathFor store cid) = fs_dir (fsys s) (PathFor store cid)"
  shows "stored store (fsys s') cid = stored store (fsys s) cid"
proof (cases "fs_dir (fsys s) (PathFor store cid)")
  case (Some i)
  then have "chunk_ref store (fsys s) i" "i < fs_next (fsys s)" using assms(1) by (auto simp: store_inv_def chunk_ref_def)
  then have "fs_data (fsys s') i = fs_data (fsys s) i" using assms(2,3) by (auto simp: kept_def)
  then show ?thesis using Some assms(4) by (simp add: stored_def)
qed (use assms(4) in \<open>simp add: stored_def\<close>)

definition commits ::
  "'h platform \<Rightarrow> FileChunkStore \<Rightarrow> PutChunkRequest \<Rightarrow> 's ChunkInputStream \<Rightarrow> 's \<Rightarrow> ('h, 's) put_pc \<Rightarrow> ('h, 's) put_pc \<Rightarrow>
     fs \<Rightarrow> fs \<Rightarrow> bool" where
  "commits P store req I inp0 pc pc' f g \<longleftrightarrow>
     (\<exists>u inp ds. pc = PutLink u inp \<and> pc' = PutCommitted u inp \<and> arrived P req I inp0 ds inp \<and>
        stored store f (put_chunk_id req) = None \<and>
        stored store g = (stored store f)(put_chunk_id req \<mapsto> put_bytes req (concat ds)) \<and>
        (\<forall>q. q \<noteq> PathFor store (put_chunk_id req) \<longrightarrow> fs_dir g q = fs_dir f q \<and> fs_had g q = fs_had f q))"

lemma put_thread_view:
  assumes "thread_shared P store s" and "thread_own P store (PutThread req I inp0 pc e) s"
    and "thread_step P store (PutThread req I inp0 pc e) s = (PutThread req I inp0 pc' e', s')"
  shows "(names_kept (put_temp P store req I) (fsys s) (fsys s') \<and> stored store (fsys s') = stored store (fsys s) \<and>
      \<not> (\<exists>u inp. pc = PutLink u inp \<and> pc' = PutCommitted u inp)) \<or>
    commits P store req I inp0 pc pc' (fsys s) (fsys s')"
proof -
  let ?s = "s\<lparr>os_errno := e\<rparr>" and ?p = "put_temp P store req I" and ?final = "PathFor store (put_chunk_id req)"
  have st: "put_step P store req I pc ?s = (pc', s')" using assms(3) by (auto split: prod.splits)
  have inv: "store_inv P store (fsys s)" and l: "put_local P store req I inp0 pc s" using assms(1,2) by (auto simp: thread_shared_def)
  have "sound_step P store req I inp0 pc s pc' s'" by (rule put_thread_sound [OF assms(1,2) st])
  then have k: "kept store ?p (put_inodes ?p pc (fsys s)) (put_fds pc) s s'" by (simp add: sound_step_def)
  note same = stored_step [OF inv k put_local_unref [OF l]]
  from put_step_names [OF st] show ?thesis
  proof (elim disjE exE conjE)
    assume n: "names_kept ?p (fsys ?s) (fsys s')" "\<not> (\<exists>u inp. pc = PutLink u inp \<and> pc' = PutCommitted u inp)"
    have "stored store (fsys s') cid = stored store (fsys s) cid" for cid
      by (rule same) (use names_kept_chunk [OF n(1)] in simp_all)
    then have "stored store (fsys s') = stored store (fsys s)" by (rule ext)
    then show ?thesis using n by simp
  next
    fix u inp i
    assume c: "pc = PutLink u inp" "pc' = PutCommitted u inp" "fs_dir (fsys ?s) ?p = Some i" "fs_dir (fsys ?s) ?final = None"
      "changes (rebind ?final (Some i) (fsys ?s)) ?s s'"
    obtain ds where ds: "arrived P req I inp0 ds inp" "fs_data (fsys s) i = put_bytes req (concat ds)"
      using l c(1,3) by (auto simp: ready_def)
    have "stored store (fsys s') cid = ((stored store (fsys s))(put_chunk_id req \<mapsto> put_bytes req (concat ds))) cid" for cid
      using c(3-5) ds(2) PathFor_inj [of store cid "put_chunk_id req"] by (auto simp: stored_def changes_def)
    then have "stored store (fsys s') = (stored store (fsys s))(put_chunk_id req \<mapsto> put_bytes req (concat ds))"
      by (rule ext)
    moreover have "stored store (fsys s) (put_chunk_id req) = None" using c(4) by (simp add: stored_def)
    moreover have "(\<forall>q. q \<noteq> ?final \<longrightarrow> fs_dir (fsys s') q = fs_dir (fsys s) q \<and> fs_had (fsys s') q = fs_had (fsys s) q)"
      using c(5) by (simp add: changes_def)
    ultimately show ?thesis using c(1,2) ds(1) unfolding commits_def by blast
  qed
qed

lemma delete_thread_view:
  assumes "thread_shared P store s" and "FileChunkStore_Delete P store cid (s\<lparr>os_errno := e\<rparr>) = (st, s')"
  shows "(\<forall>c. c \<noteq> cid \<longrightarrow> fs_dir (fsys s') (PathFor store c) = fs_dir (fsys s) (PathFor store c) \<and>
       fs_had (fsys s') (PathFor store c) = fs_had (fsys s) (PathFor store c)) \<and>
    (if status_ok st then stored store (fsys s) cid \<noteq> None \<and> stored store (fsys s') = (stored store (fsys s))(cid := None)
     else stored store (fsys s') = stored store (fsys s))"
proof -
  let ?s = "s\<lparr>os_errno := e\<rparr>" and ?p = "PathFor store cid"
  obtain rc s1 where u: "sys_unlink ?p ?s = (rc, s1)" by fastforce
  from sys_unlink_cases [OF u] consider (bad) "rc \<noteq> 0" "quiet ?s s1"
    | (ok) "rc = 0" "fs_dir (fsys s) ?p \<noteq> None" "changes (rebind ?p None (fsys s)) ?s s1" by auto
  then show ?thesis
  proof cases
    case bad
    then have "\<not> status_ok st" "quiet s s'" if "status_ok (ValidateId cid)"
      using assms(2) u that by (auto simp: FileChunkStore_Delete_def Let_def IoError_def quiet_def split: if_splits)
    moreover have "\<not> status_ok st" "quiet s s'" if "\<not> status_ok (ValidateId cid)"
      using assms(2) that by (auto simp: FileChunkStore_Delete_def quiet_def)
    ultimately show ?thesis by (cases "status_ok (ValidateId cid)") (auto simp: quiet_def)
  next
    case ok
    show ?thesis
    proof (cases "status_ok (ValidateId cid)")
      case False
      then show ?thesis using assms(2) by (auto simp: FileChunkStore_Delete_def)
    next
      case True
      then have "s' = s1" "st = Status_Ok" using assms(2) u ok(1) by (auto simp: FileChunkStore_Delete_def)
      moreover have "stored store (rebind ?p None (fsys s)) = (stored store (fsys s))(cid := None)"
        using PathFor_inj [of store] by (auto simp: stored_def fun_eq_iff)
      ultimately show ?thesis using ok(2,3) PathFor_inj [of store] by (auto simp: changes_def stored_def)
    qed
  qed
qed

text \<open>In terms of the view.\<close>

lemma commits_view:
  assumes "commits P store req I inp0 pc pc' f g" and "blake3_laws P" and "store_inv P store f"
  obtains u inp ds where "pc = PutLink u inp" and "pc' = PutCommitted u inp" and "drains I inp0 ds inp"
    and "chunk_at store f (put_chunk_id req) = None" and "length (concat ds) = unat (expected_size req)"
    and "expected_checksum req = blake3_checksum P (concat ds)"
    and "chunk_at store g = (chunk_at store f)(put_chunk_id req \<mapsto> (expected_checksum req, concat ds))"
proof -
  obtain u inp ds where ds: "pc = PutLink u inp" "pc' = PutCommitted u inp" "arrived P req I inp0 ds inp"
    "stored store f (put_chunk_id req) = None"
    "stored store g = (stored store f)(put_chunk_id req \<mapsto> put_bytes req (concat ds))"
    using assms(1) unfolding commits_def by blast
  have v: "put_valid req" "delivered P req ds" "drains I inp0 ds inp" using ds(3) by (auto simp: arrived_def)
  note d = delivered_chunk [OF assms(2) v(1,2)]
  have "chunk_at store g = (chunk_at store f)(put_chunk_id req \<mapsto> (expected_checksum req, concat ds))"
    using chunk_at_update [OF ds(5) d(4)] d(5) by simp
  moreover have "chunk_at store f (put_chunk_id req) = None" using ds(4) chunk_at_None_iff [OF assms(3)] by simp
  ultimately show ?thesis using that ds(1,2) v d(3) unfolding delivered_def by blast
qed

lemma delete_view:
  assumes "store_inv P store f" and "stored store f cid \<noteq> None" and "stored store g = (stored store f)(cid := None)"
  shows "chunk_at store f cid \<noteq> None \<and> chunk_at store g = (chunk_at store f)(cid := None)"
  using assms(2,3) chunk_at_None_iff [OF assms(1)] by (auto simp: chunk_at_def fun_eq_iff)

text \<open>Queries and downloads change no file.\<close>

lemma head_thread_view:
  assumes "thread_own P store (HeadThread cid pc e) s" and "thread_step P store (HeadThread cid pc e) s = (p', s')"
  obtains pc' where "p' = HeadThread cid pc' (os_errno s')" and "head_step P store cid pc (s\<lparr>os_errno := e\<rparr>) = (pc', s')"
    and "fsys s' = fsys s" and "sched_tail s s'"
proof -
  obtain pc' where h: "head_step P store cid pc (s\<lparr>os_errno := e\<rparr>) = (pc', s')" and p': "p' = HeadThread cid pc' (os_errno s')"
    using assms(2) by (auto split: prod.splits)
  moreover have "fsys s' = fsys s" "sched_tail s s'"
    using head_step_reader [OF h] assms(1) by (auto simp: reader_local_def reader_step_def sched_tail_def)
  ultimately show ?thesis using that by blast
qed

lemma get_thread_view:
  assumes "thread_own P store (GetThread req O' out0 pc e) s" and "thread_step P store (GetThread req O' out0 pc e) s = (p', s')"
  obtains pc' where "p' = GetThread req O' out0 pc' (os_errno s')" and "get_step P store req O' pc (s\<lparr>os_errno := e\<rparr>) = (pc', s')"
    and "fsys s' = fsys s" and "sched_tail s s'"
proof -
  obtain pc' where h: "get_step P store req O' pc (s\<lparr>os_errno := e\<rparr>) = (pc', s')" and p': "p' = GetThread req O' out0 pc' (os_errno s')"
    using assms(2) by (auto split: prod.splits)
  moreover have "fsys s' = fsys s" "sched_tail s s'"
    using get_step_reader [OF h] assms(1) by (auto simp: reader_local_def reader_step_def sched_tail_def)
  ultimately show ?thesis using that by blast
qed

lemma thread_effect:
  assumes "thread_shared P store s" and "thread_own P store p s" and "thread_step P store p s = (p', s')"
  obtains (same) "stored store (fsys s') = stored store (fsys s)"
    | (put) req I inp0 pc pc' e e' where "p = PutThread req I inp0 pc e" and "p' = PutThread req I inp0 pc' e'"
        and "commits P store req I inp0 pc pc' (fsys s) (fsys s')"
    | (delete) cid st e e' where "p = DeleteThread cid None e" and "p' = DeleteThread cid (Some st) e'" and "status_ok st"
        and "stored store (fsys s) cid \<noteq> None" and "stored store (fsys s') = (stored store (fsys s))(cid := None)"
proof (cases p)
  case (PutThread req I inp0 pc e)
  obtain pc' e' where p': "p' = PutThread req I inp0 pc' e'" using assms(3) PutThread by (auto split: prod.splits)
  from put_thread_view [OF assms(1) assms(2,3) [unfolded PutThread p']] show ?thesis
    using same put [OF PutThread p'] by blast
next
  case (DeleteThread cid st e)
  show ?thesis
  proof (cases st)
    case None
    obtain st' where del: "FileChunkStore_Delete P store cid (s\<lparr>os_errno := e\<rparr>) = (st', s')"
      and p': "p' = DeleteThread cid (Some st') (os_errno s')"
      using assms(3) DeleteThread None by (auto split: prod.splits)
    show ?thesis
    proof (cases "status_ok st'")
      case True
      then show ?thesis using delete_thread_view [OF assms(1) del] delete [OF DeleteThread [unfolded None] p'] by simp
    next
      case False
      then show ?thesis using delete_thread_view [OF assms(1) del] same by simp
    qed
  next
    case (Some x)
    then show ?thesis using assms(3) DeleteThread same by simp
  qed
next
  case (HeadThread cid pc e)
  show ?thesis by (rule head_thread_view [OF assms(2,3) [unfolded HeadThread]]) (rule same, simp)
next
  case (GetThread req O' out0 pc e)
  show ?thesis by (rule get_thread_view [OF assms(2,3) [unfolded GetThread]]) (rule same, simp)
qed

end
