(* ===== verification/Read_History.thy ===== *)
theory Read_History
  imports Pool_Effects
begin

text \<open>
  What a \<open>Head\<close> or a \<open>Get\<close> that overlaps with uploads and deletions returns, in terms of the contents
  that its identifier has had while it ran. \<open>D\<close> is the set of these: \<open>None\<close> for a moment without
  the chunk, \<open>Some d\<close> for a moment at which its file had the contents \<open>d\<close>. The flag \<open>ok\<close> says that
  no system call fails.
\<close>

section \<open>Moments\<close>

definition whole :: "byte list option set \<Rightarrow> byte list \<Rightarrow> bool" where
  "whole D d \<longleftrightarrow> Some d \<in> D \<and> parse_chunk d \<noteq> None \<and> length d < 2 ^ 63"

lemma whole_mono: "whole D d \<Longrightarrow> D \<subseteq> E \<Longrightarrow> whole E d"
  by (auto simp: whole_def)

lemma stored_whole:
  assumes "store_inv P store f" and "sizes_ok f" and "stored store f cid = Some d" and "Some d \<in> D"
  shows "whole D d"
proof -
  obtain i where i: "fs_dir f (PathFor store cid) = Some i" "d = fs_data f i" using assms(3) by (auto simp: stored_def)
  then have "good_file P d" using assms(1) by (auto simp: store_inv_def chunk_ref_def)
  then show ?thesis using i(2) assms(2,4) by (auto simp: whole_def good_file_def sizes_ok_def off_limit_def split: option.splits)
qed

lemma open_history:
  assumes o: "sys_open_rd (PathFor store cid) s = (raw, s')" and inv: "store_inv P store (fsys s)" "sizes_ok (fsys s)"
    and D: "stored store (fsys s) cid \<in> D"
  shows "(0 \<le> raw \<and> reads_file (ufd_make raw) (whole D) s') \<or>
    (raw < 0 \<and> (smooth s \<longrightarrow> name_too_long (PathFor store cid) \<or> os_errno s' = ENOENT \<and> None \<in> D))"
proof (cases "0 \<le> raw")
  case True
  then obtain i where i: "fs_dir (fsys s) (PathFor store cid) = Some i" "fd_top raw (OFile i 0) (fds s) s'" "fsys s' = fsys s"
    using sys_open_rd_cases [OF o] by auto
  have st: "stored store (fsys s) cid = Some (fs_data (fsys s) i)" using i(1) by (simp add: stored_def)
  then have "whole D (fs_data (fsys s) i)" using stored_whole [OF inv st] D by simp
  moreover have "i < fs_next (fsys s)" using inv(1) i(1) by (auto simp: store_inv_def chunk_ref_def)
  ultimately show ?thesis using True i(2,3) by (auto simp: reads_file_def dest: fd_top_lookup)
next
  case False
  then show ?thesis using sys_open_rd_cases [OF o] D by (auto simp: stored_def)
qed

section \<open>Head\<close>

definition head_result :: "bool \<Rightarrow> byte list option set \<Rightarrow> ChunkId \<Rightarrow> HeadChunkResponse StatusOr \<Rightarrow> bool" where
  "head_result ok D cid res \<longleftrightarrow> statusor_inv res \<and>
     (case so_opt res of
        Some r \<Rightarrow> resp_chunk_id r = cid \<and> (\<exists>d. whole D d \<and> parse_chunk d = Some (resp_size r, resp_checksum r))
      | None \<Rightarrow> ok \<and> storable cid \<longrightarrow> st_code (so_status res) = kNotFound \<and> None \<in> D)"

fun head_history :: "bool \<Rightarrow> byte list option set \<Rightarrow> ChunkId \<Rightarrow> head_pc \<Rightarrow> os \<Rightarrow> bool" where
  "head_history ok D cid HeadStart s \<longleftrightarrow> True"
| "head_history ok D cid (HeadRead u h) s \<longleftrightarrow>
     length h \<le> kHeaderSize \<and> reads_file u (\<lambda>d. whole D d \<and> h = take (length h) d) s"
| "head_history ok D cid (HeadStat u h) s \<longleftrightarrow> reads_file u (\<lambda>d. whole D d \<and> h = take kHeaderSize d) s"
| "head_history ok D cid (HeadClose u res) s \<longleftrightarrow> head_result ok D cid res"
| "head_history ok D cid (HeadDone res) s \<longleftrightarrow> head_result ok D cid res"

lemma head_result_error:
  "\<not> status_ok st \<Longrightarrow> (ok \<Longrightarrow> storable cid \<Longrightarrow> st_code st = kNotFound \<and> None \<in> D) \<Longrightarrow> head_result ok D cid (StatusOr_error st)"
  by (auto simp: head_result_def StatusOr_error_status)

lemma head_result_mono: "head_result ok D cid res \<Longrightarrow> D \<subseteq> E \<Longrightarrow> head_result ok E cid res"
  unfolding head_result_def by (auto split: option.splits dest: whole_mono)

lemma head_history_mono: "head_history ok D cid pc s \<Longrightarrow> D \<subseteq> E \<Longrightarrow> head_history ok E cid pc s"
  by (cases pc) (auto elim!: reads_file_mono dest: whole_mono head_result_mono)

lemma head_history_kept:
  assumes "head_history ok D cid pc s" and "kept store p own mine s s'" and "head_fds pc \<inter> mine = {}"
    and "read_inodes (head_fds pc) s \<inter> own = {}"
  shows "head_history ok D cid pc s'"
  using assms reads_file_kept [OF _ assms(2)] by (cases pc) auto

text \<open>A file that parses has a complete header with the right magic and checksum.\<close>

lemma whole_header:
  assumes "whole D d"
  shows "kHeaderSize \<le> length d" and "take (length kMagic) (take kHeaderSize d) = kMagic"
    and "status_ok (ValidateChecksum (header_checksum (take kHeaderSize d)))"
  using assms header_fields_take [of d] by (auto simp: whole_def parse_chunk_def split: if_splits)

lemma head_read_history:
  assumes l: "length h < kHeaderSize" and r: "reads_file u (\<lambda>d. whole D d \<and> h = take (length h) d) s"
    and p: "pread_turn P (ufd_get u) (kHeaderSize - length h) (word_of_nat (length h)) s = (res, s')" and ok: "ok \<longrightarrow> smooth s"
  shows "case res of None \<Rightarrow> reads_file u (\<lambda>d. whole D d \<and> h = take (length h) d) s'
    | Some x \<Rightarrow> head_history ok D cid (head_received u h x) s'"
proof -
  have q: "quiet s s'" using pread_turn_shared [OF p] by blast
  obtain i where i: "ufd_valid u" "map_of (fds s) (ufd_get u) = Some (OFile i 0)" "i < fs_next (fsys s)"
    "whole D (fs_data (fsys s) i)" "h = take (length h) (fs_data (fsys s) i)" using r by (auto simp: reads_file_def)
  let ?d = "fs_data (fsys s) i"
  have off: "unat (word_of_nat (length h) :: u64) = length h" "(word_of_nat (length h) :: u64) \<le> off_t_max"
    using l by (simp_all add: kHeaderSize_eq unat_of_nat_u64 off_t_max_def word_le_nat_alt)
  from p i(2) off(2) show ?thesis
  proof (cases rule: pread_turn_result)
    case again
    then show ?thesis using r q by (simp add: reads_file_quiet)
  next
    case (failed st)
    then show ?thesis using ok by (auto simp: head_received_def StatusOr_error_again intro: head_result_error)
  next
    case (bytes bs)
    note d = whole_header(1) [OF i(4)]
    have f: "front_of bs (take (kHeaderSize - length h) (drop (length h) ?d))" using bytes(2) off(1) by simp
    note t = take_append_front [OF f] and hd = i(5)
    have "bs \<noteq> []" using f d l by (auto simp: front_of_def)
    moreover have hb: "h @ bs = take (length (h @ bs)) ?d" and len: "length (h @ bs) \<le> kHeaderSize" using t hd d l by auto
    have "fsys s' = fsys s" "fds s' = fds s" using q by (simp_all add: quiet_def)
    then have "reads_file u (\<lambda>d. whole D d \<and> h @ bs = take (length (h @ bs)) d) s'"
      using i(1-4) hb unfolding reads_file_def by metis
    ultimately show ?thesis using bytes(1) len by (simp add: head_received_def)
  qed
qed

lemma head_stat_history:
  assumes r: "reads_file u (\<lambda>d. whole D d \<and> h = take kHeaderSize d) s"
    and f: "sys_fstat (ufd_get u) s = ((rc, n), s')" and ok: "ok \<longrightarrow> smooth s"
  shows "head_result ok D cid (head_sized P cid h rc n s')"
proof -
  obtain i where i: "map_of (fds s) (ufd_get u) = Some (OFile i 0)" "whole D (fs_data (fsys s) i)"
    "h = take kHeaderSize (fs_data (fsys s) i)" using r by (auto simp: reads_file_def)
  let ?d = "fs_data (fsys s) i"
  show ?thesis
  proof (cases "rc = 0")
    case False
    then show ?thesis using sys_fstat_shared [OF f] i(1) ok by (auto simp: head_sized_def intro!: head_result_error)
  next
    case True
    then have n: "n = int (length ?d)" using sys_fstat_shared [OF f] i(1) by auto
    have d: "parse_chunk ?d = Some (header_size ?d, header_checksum ?d)" "length ?d < 2 ^ 63"
      using i(2) by (auto simp: whole_def parse_chunk_def split: if_splits)
    note hf = header_fields_take [OF whole_header(1) [OF i(2)]]
    have "length ?d = unat (header_size ?d) + kHeaderSize" using parse_chunk_SomeD [OF d(1)] by simp
    then have "head_sized P cid h rc n s' =
        StatusOr_value \<lparr>resp_chunk_id = cid, resp_size = header_size ?d, resp_checksum = header_checksum ?d\<rparr>"
      using True size_check_exact [OF d(2), of "header_size ?d"] hf n i(3) by (simp add: head_sized_def Let_def)
    then show ?thesis using d(1) i(2) by (auto simp: head_result_def)
  qed
qed

lemma head_history_step:
  assumes h: "head_history ok D cid pc s" and st: "head_step P store cid pc s = (pc', s')" and ok: "ok \<longrightarrow> smooth s"
    and inv: "store_inv P store (fsys s)" "sizes_ok (fsys s)" and D: "stored store (fsys s) cid \<in> D"
  shows "head_history ok D cid pc' s'"
proof (cases pc)
  case HeadStart
  obtain raw s1 where o: "sys_open_rd (PathFor store cid) s = (raw, s1)" by fastforce
  show ?thesis
  proof (cases "status_ok (ValidateId cid)")
    case False
    then have "\<not> storable cid" by (simp add: storable_def)
    then show ?thesis using st HeadStart False by (auto intro!: head_result_error)
  next
    case True
    then have long: "name_too_long (PathFor store cid) \<longleftrightarrow> \<not> storable cid" by (auto simp: storable_def name_too_long_def)
    show ?thesis
      using open_history [OF o inv D] st HeadStart True o ok long
      by (auto simp: IoError_def Let_def split: if_splits intro!: head_result_error elim!: reads_file_mono)
  qed
next
  case (HeadRead u header)
  then have r: "length header \<le> kHeaderSize" "reads_file u (\<lambda>d. whole D d \<and> header = take (length header) d) s" using h by auto
  show ?thesis
  proof (cases "length header < kHeaderSize")
    case True
    obtain res s1 where p: "pread_turn P (ufd_get u) (kHeaderSize - length header) (word_of_nat (length header)) s = (res, s1)" by fastforce
    show ?thesis
      using head_read_history [OF True r(2) p ok, of cid] st HeadRead True p r(1) by (auto split: option.splits)
  next
    case False
    then have len: "length header = kHeaderSize" using r(1) by simp
    then have "pc' = HeadStat u header" "s' = s"
      using st HeadRead r(2) whole_header by (auto simp: head_checked_def reads_file_def)
    then show ?thesis using r(2) len by simp
  qed
next
  case (HeadStat u header)
  obtain rc n s1 where f: "sys_fstat (ufd_get u) s = ((rc, n), s1)" by (metis surj_pair)
  then show ?thesis using h st HeadStat head_stat_history [OF _ f ok] by auto
qed (use h st in auto)

section \<open>Get\<close>

text \<open>The range of the request lies within the payload of a file with contents \<open>d\<close>.\<close>

definition in_range :: "ByteRange \<Rightarrow> byte list \<Rightarrow> bool" where
  "in_range rg d \<longleftrightarrow> unat (range_offset rg) + unat (range_size rg) + kHeaderSize \<le> length d"

definition file_range :: "ByteRange \<Rightarrow> byte list \<Rightarrow> byte list" where
  "file_range rg d = range_of rg (drop kHeaderSize d)"

definition get_result ::
  "bool \<Rightarrow> byte list option set \<Rightarrow> GetChunkRequest \<Rightarrow> 'o ChunkOutputStream \<Rightarrow> 'o \<Rightarrow> Status \<Rightarrow> 'o \<Rightarrow> bool" where
  "get_result ok D req O' out0 st out \<longleftrightarrow>
     (out = out0 \<and> \<not> status_ok st \<or>
      (\<exists>d blocks. whole D d \<and> out = feed O' out0 blocks \<and> pieces blocks (file_range (get_range req) d) (status_ok st) \<and>
         (status_ok st \<longrightarrow> in_range (get_range req) d))) \<and>
     (ok \<and> accepting O' \<and> storable (get_chunk_id req) \<and> \<not> status_ok st \<longrightarrow>
        st_code st = kNotFound \<and> None \<in> D \<or>
        out = out0 \<and> (\<exists>d n c. whole D d \<and> parse_chunk d = Some (n, c) \<and> st = ValidateByteRange (get_range req) n \<and>
          \<not> in_range (get_range req) d) \<or>
        st_code st = kCorruption \<and> (\<exists>d d'. whole D d \<and> in_range (get_range req) d \<and> whole D d' \<and> \<not> in_range (get_range req) d'))"

text \<open>How far the transfer of the range of \<open>d\<close> has come.\<close>

definition sent :: "'o ChunkOutputStream \<Rightarrow> 'o \<Rightarrow> ByteRange \<Rightarrow> u64 \<Rightarrow> u64 \<Rightarrow> 'o \<Rightarrow> byte list \<Rightarrow> bool" where
  "sent O' out0 rg remaining offset out d \<longleftrightarrow>
     (\<exists>blocks. out = feed O' out0 blocks \<and> pieces blocks (file_range rg d) False \<and>
        unat offset = unat (range_offset rg) + kHeaderSize + length (concat blocks) \<and>
        unat remaining + length (concat blocks) = unat (range_size rg) \<and>
        file_range rg d = concat blocks @ take (unat remaining) (drop (unat offset) d))"

fun get_history ::
  "bool \<Rightarrow> byte list option set \<Rightarrow> GetChunkRequest \<Rightarrow> 'o ChunkOutputStream \<Rightarrow> 'o \<Rightarrow> 'o get_pc \<Rightarrow> os \<Rightarrow> bool" where
  "get_history ok D req O' out0 (GetHead pc out) s \<longleftrightarrow> out = out0 \<and> head_history ok D (get_chunk_id req) pc s"
| "get_history ok D req O' out0 (GetOpen out) s \<longleftrightarrow> out = out0 \<and> (\<exists>d. whole D d \<and> in_range (get_range req) d)"
| "get_history ok D req O' out0 (GetSend u remaining offset out) s \<longleftrightarrow>
     (\<exists>d. whole D d \<and> in_range (get_range req) d) \<and>
     reads_file u (\<lambda>d. whole D d \<and> sent O' out0 (get_range req) remaining offset out d) s"
| "get_history ok D req O' out0 (GetReturn u st out) s \<longleftrightarrow> get_result ok D req O' out0 st out"
| "get_history ok D req O' out0 (GetDone st out) s \<longleftrightarrow> get_result ok D req O' out0 st out"

lemma get_result_mono: "get_result ok D req O' out0 st out \<Longrightarrow> D \<subseteq> E \<Longrightarrow> get_result ok E req O' out0 st out"
  unfolding get_result_def using whole_mono [of D _ E] by (elim conjE, intro conjI) blast+

lemma get_history_mono: "get_history ok D req O' out0 pc s \<Longrightarrow> D \<subseteq> E \<Longrightarrow> get_history ok E req O' out0 pc s"
  by (cases pc) (auto elim!: reads_file_mono dest: whole_mono head_history_mono get_result_mono)

lemma get_history_kept:
  assumes "get_history ok D req O' out0 pc s" and "kept store p own mine s s'" and "get_fds pc \<inter> mine = {}"
    and "read_inodes (get_fds pc) s \<inter> own = {}"
  shows "get_history ok D req O' out0 pc s'"
  using assms reads_file_kept [OF _ assms(2)] head_history_kept [OF _ assms(2)] by (cases pc) auto

lemma get_result_refused:
  "\<not> status_ok st \<Longrightarrow> (ok \<Longrightarrow> storable (get_chunk_id req) \<Longrightarrow> st_code st = kNotFound \<and> None \<in> D) \<Longrightarrow>
     get_result ok D req O' out0 st out0"
  by (auto simp: get_result_def)

text \<open>For files an \<open>off_t\<close> can address the validation of the range is exact.\<close>

lemma in_range_iff:
  assumes "whole D d" and "parse_chunk d = Some (n, c)"
  shows "status_ok (ValidateByteRange rg n) \<longleftrightarrow> in_range rg d"
  using assms parse_chunk_SomeD [OF assms(2)] by (auto simp: in_range_def whole_def ValidateByteRange_ok_iff)

lemma get_ranged_history:
  assumes "head_result ok D (get_chunk_id req) head"
  shows "get_history ok D req O' out0 (get_ranged req head out0) s"
proof (cases "so_opt head")
  case None
  then have "\<not> status_ok (so_status head)" using assms by (auto simp: head_result_def statusor_inv_def so_ok_def)
  then show ?thesis using None assms by (auto simp: get_ranged_def head_result_def intro!: get_result_refused)
next
  case (Some h)
  then obtain d where d: "whole D d" "parse_chunk d = Some (resp_size h, resp_checksum h)" using assms by (auto simp: head_result_def)
  note r = in_range_iff [OF d, of "get_range req"]
  show ?thesis
  proof (cases "in_range (get_range req) d")
    case True
    then show ?thesis using Some d(1) r by (auto simp: get_ranged_def)
  next
    case False
    then have "get_result ok D req O' out0 (ValidateByteRange (get_range req) (resp_size h)) out0"
      using d r unfolding get_result_def by blast
    then show ?thesis using Some r False by (simp add: get_ranged_def)
  qed
qed

lemma get_open_history:
  assumes h: "get_history ok D req O' out0 (GetOpen out) s" and st: "get_step P store req O' (GetOpen out) s = (pc', s')"
    and ok: "ok \<longrightarrow> smooth s" and inv: "store_inv P store (fsys s)" "sizes_ok (fsys s)" and D: "stored store (fsys s) (get_chunk_id req) \<in> D"
  shows "get_history ok D req O' out0 pc' s'"
proof -
  let ?rg = "get_range req" and ?p = "PathFor store (get_chunk_id req)"
  obtain raw s1 where o: "sys_open_rd ?p s = (raw, s1)" by fastforce
  have out: "out = out0" and d0: "\<exists>d. whole D d \<and> in_range ?rg d" using h by auto
  from open_history [OF o inv D] show ?thesis
  proof
    assume r: "0 \<le> raw \<and> reads_file (ufd_make raw) (whole D) s1"
    have "unat (range_offset ?rg + word_of_nat kHeaderSize) = unat (range_offset ?rg) + kHeaderSize"
      using d0 by (auto simp: in_range_def whole_def unat_word_ariths kHeaderSize_eq)
    then have "sent O' out0 ?rg (range_size ?rg) (range_offset ?rg + word_of_nat kHeaderSize) out0 d" for d
      by (auto simp: sent_def file_range_def range_of_def add.commute intro!: exI [of _ "[]"])
    then have "reads_file (ufd_make raw) (\<lambda>d. whole D d \<and>
        sent O' out0 ?rg (range_size ?rg) (range_offset ?rg + word_of_nat kHeaderSize) out0 d) s1"
      by (intro reads_file_mono [OF conjunct2 [OF r]]) simp
    then show ?thesis using st o r d0 out by auto
  next
    assume "raw < 0 \<and> (smooth s \<longrightarrow> name_too_long ?p \<or> os_errno s1 = ENOENT \<and> None \<in> D)"
    then show ?thesis
      using st o out ok storable_not_too_long [of "get_chunk_id req" store]
      by (auto simp: IoError_def Let_def split: if_splits intro!: get_result_refused)
  qed
qed

lemma feed_snoc: "feed O' out (bs @ [b]) = snd (out_write O' (feed O' out bs) b)"
  by (simp add: feed_def)

lemma pieces_snoc:
  "pieces bs d False \<Longrightarrow> b \<noteq> [] \<Longrightarrow> length b \<le> kBufferSize \<Longrightarrow> d = concat bs @ b @ rest \<Longrightarrow> pieces (bs @ [b]) d False"
  by (auto simp: pieces_def)

text \<open>A block that has been read goes to the stream.\<close>

lemma sent_block:
  assumes s: "sent O' out0 rg remaining offset out d" and fo: "front_of b (take (min (unat remaining) kBufferSize) (drop (unat offset) d))"
    and "b \<noteq> []" and w: "out_write O' out b = (st, out')" and d0: "in_range rg d0" "length d0 < 2 ^ 63"
  shows "\<exists>blocks. out' = feed O' out0 blocks \<and> pieces blocks (file_range rg d) False"
    and "sent O' out0 rg (remaining - word_of_nat (length b)) (offset + word_of_nat (length b)) out' d"
proof -
  obtain blocks where bl: "out = feed O' out0 blocks" "pieces blocks (file_range rg d) False"
    "unat offset = unat (range_offset rg) + kHeaderSize + length (concat blocks)"
    "unat remaining + length (concat blocks) = unat (range_size rg)"
    "file_range rg d = concat blocks @ take (unat remaining) (drop (unat offset) d)" using s by (auto simp: sent_def)
  note sp = range_split [OF fo assms(3)]
  have out: "out' = feed O' out0 (blocks @ [b])" using bl(1) w by (simp add: feed_snoc)
  have p: "pieces (blocks @ [b]) (file_range rg d) False"
    using pieces_snoc [OF bl(2) assms(3)] sp bl(5) by simp
  show "\<exists>blocks. out' = feed O' out0 blocks \<and> pieces blocks (file_range rg d) False" using out p by blast
  have "unat (remaining - word_of_nat (length b)) = unat remaining - length b"
    using assms(3) sp(2) by (intro get_loop_decreases(1)) auto
  moreover have "unat (word_of_nat (length b) :: u64) = length b" using sp(2) by (intro unat_of_nat_u64) (simp add: kBufferSize_def)
  then have "unat (offset + word_of_nat (length b)) = unat offset + length b"
    using bl(3,4) sp(2) d0 by (simp add: unat_word_ariths in_range_def)
  ultimately show "sent O' out0 rg (remaining - word_of_nat (length b)) (offset + word_of_nat (length b)) out' d"
    unfolding sent_def using out p bl(3-5) sp by (intro exI [of _ "blocks @ [b]"]) simp
qed

lemma get_received_history:
  assumes d0: "whole D d0" "in_range (get_range req) d0" and r: "reads_file u (\<lambda>d. whole D d \<and> sent O' out0 (get_range req) remaining offset out d) s"
    and p: "pread_turn P (ufd_get u) (min (unat remaining) kBufferSize) offset s = (Some count, s')" and rem: "remaining > 0"
    and ok: "ok \<longrightarrow> smooth s"
  shows "get_history ok D req O' out0 (get_received O' u remaining offset count out) s'"
proof -
  let ?rg = "get_range req"
  obtain i where i: "ufd_valid u" "map_of (fds s) (ufd_get u) = Some (OFile i 0)" "i < fs_next (fsys s)"
    and d: "whole D (fs_data (fsys s) i)" "sent O' out0 ?rg remaining offset out (fs_data (fsys s) i)" using r by (auto simp: reads_file_def)
  let ?d = "fs_data (fsys s) i"
  have len: "length d0 < 2 ^ 63" using d0(1) by (simp add: whole_def)
  obtain blocks where bl: "out = feed O' out0 blocks" "pieces blocks (file_range ?rg ?d) False"
    "unat offset = unat (range_offset ?rg) + kHeaderSize + length (concat blocks)"
    "unat remaining + length (concat blocks) = unat (range_size ?rg)" using d(2) by (auto simp: sent_def)
  then have "unat offset < 2 ^ 63" using d0(2) len by (simp add: in_range_def)
  then have off: "offset \<le> off_t_max" by (simp add: off_t_bound)
  have stopped: "get_result ok D req O' out0 st out" if "\<not> status_ok st" "ok \<Longrightarrow> st_code st = kCorruption \<and> \<not> in_range ?rg ?d" for st
    using that bl(1,2) d d0 unfolding get_result_def by auto
  have q: "fsys s' = fsys s" "fds s' = fds s" using pread_turn_shared [OF p] by (auto simp: quiet_def)
  from p i(2) off show ?thesis
  proof (cases rule: pread_turn_result)
    case (failed st)
    then have "get_result ok D req O' out0 st out" by (intro stopped) (use ok in auto)
    then show ?thesis using failed by (simp add: get_received_def StatusOr_error_status)
  next
    case (bytes b)
    show ?thesis
    proof (cases "b = []")
      case True
      then have "length ?d \<le> unat offset" using bytes(2) rem by (auto simp: front_of_def kBufferSize_def word_less_nat_alt)
      then have "\<not> in_range ?rg ?d" using bl(3,4) rem by (simp add: in_range_def word_less_nat_alt)
      then show ?thesis using bytes(1) True by (auto simp: get_received_def intro!: stopped)
    next
      case False
      obtain st out' where w: "out_write O' out b = (st, out')" by fastforce
      note sb = sent_block [OF d(2) bytes(2) False w d0(2) len]
      show ?thesis
      proof (cases "status_ok st")
        case True
        then have "reads_file u (\<lambda>d. whole D d \<and> sent O' out0 ?rg (remaining - word_of_nat (length b))
            (offset + word_of_nat (length b)) out' d) s'" using i d(1) sb(2) q unfolding reads_file_def by metis
        then show ?thesis using True bytes(1) False w d0 by (auto simp: get_received_def)
      next
        case rejected: False
        then have "\<not> accepting O'" using w unfolding accepting_def by (metis fst_conv)
        then have "get_result ok D req O' out0 st out'" using sb(1) d(1) rejected unfolding get_result_def by auto
        then show ?thesis using rejected bytes(1) False w by (simp add: get_received_def)
      qed
    qed
  qed simp
qed

lemma get_finished_history:
  assumes "get_history ok D req O' out0 (GetSend u 0 offset out) s"
  shows "get_result ok D req O' out0 Status_Ok out"
proof -
  let ?rg = "get_range req"
  obtain d0 d blocks where d0: "whole D d0" "in_range ?rg d0" and d: "whole D d" "out = feed O' out0 blocks"
    "pieces blocks (file_range ?rg d) False" "length (concat blocks) = unat (range_size ?rg)" "file_range ?rg d = concat blocks"
    using assms by (auto simp: reads_file_def sent_def)
  show ?thesis
  proof (cases "unat (range_size ?rg) = 0")
    case True
    then have "blocks = []" "file_range ?rg d0 = []" using d(3,4) by (auto simp: pieces_def file_range_def range_of_def)
    then have "out = feed O' out0 [] \<and> pieces [] (file_range ?rg d0) True" using d(2) by simp
    then show ?thesis using d0 unfolding get_result_def by (metis status_ok_Ok)
  next
    case False
    have "length (file_range ?rg d) \<le> length d - kHeaderSize - unat (range_offset ?rg)" by (simp add: file_range_def range_of_def)
    then have "in_range ?rg d" using False d(4,5) by (simp add: in_range_def)
    moreover have "pieces blocks (file_range ?rg d) True" using d(3,5) by (auto simp: pieces_def)
    ultimately show ?thesis using d(1,2) unfolding get_result_def by (metis status_ok_Ok)
  qed
qed

lemma get_history_step:
  assumes h: "get_history ok D req O' out0 pc s" and st: "get_step P store req O' pc s = (pc', s')" and ok: "ok \<longrightarrow> smooth s"
    and inv: "store_inv P store (fsys s)" "sizes_ok (fsys s)" and D: "stored store (fsys s) (get_chunk_id req) \<in> D"
  shows "get_history ok D req O' out0 pc' s'"
proof (cases pc)
  case (GetHead hp out)
  show ?thesis
  proof (cases "head_halted hp")
    case True
    then obtain head where "hp = HeadDone head" by (cases hp) auto
    then show ?thesis using h st GetHead get_ranged_history by auto
  next
    case False
    obtain hp' s1 where hs: "head_step P store (get_chunk_id req) hp s = (hp', s1)" by fastforce
    then have "pc' = GetHead hp' out" "s' = s1" using st GetHead get_step_head [OF False, of P store req O' out s] by auto
    then show ?thesis using h GetHead head_history_step [OF _ hs ok inv D] by auto
  qed
next
  case (GetOpen out)
  show ?thesis using get_open_history [OF h [unfolded GetOpen] st [unfolded GetOpen] ok inv D] .
next
  case (GetSend u remaining offset out)
  obtain r s1 where p: "pread_turn P (ufd_get u) (min (unat remaining) kBufferSize) offset s = (r, s1)" by fastforce
  show ?thesis
  proof (cases "remaining > 0")
    case False
    then show ?thesis using st h get_finished_history [of ok D req O' out0 u offset out s] GetSend by (auto simp: word_gt_0)
  next
    case True
    show ?thesis
    proof (cases r)
      case None
      then show ?thesis
        using st h GetSend True p pread_turn_shared [OF p] reads_file_quiet [of s s1 u] by auto
    next
      case (Some count)
      then show ?thesis
        using st h GetSend True p get_received_history [OF _ _ _ p [unfolded Some] True ok] by auto
    qed
  qed
qed (use h st in auto)

end
