(* ===== verification/Upload_Race.thy ===== *)
theory Upload_Race
  imports Pool_Effects
begin

text \<open>
  Several uploads under one identifier: who has stored the chunk, and that it stays as stored while
  nobody deletes it.
\<close>

section \<open>Who has stored the chunk\<close>

text \<open>The upload has passed its \<open>link\<close>; its success has been decided.\<close>

fun put_won :: "('h, 's) put_pc \<Rightarrow> bool" where
  "put_won (PutCommitted u inp) \<longleftrightarrow> True"
| "put_won (PutOpenDir u inp) \<longleftrightarrow> True"
| "put_won (PutSyncDir u d inp) \<longleftrightarrow> True"
| "put_won (PutCloseDir u d st inp) \<longleftrightarrow> True"
| "put_won (PutReturn u st inp) \<longleftrightarrow> status_ok st"
| "put_won (PutDone st inp) \<longleftrightarrow> status_ok st"
| "put_won pc \<longleftrightarrow> False"

fun put_acked :: "('h, 's) put_pc \<Rightarrow> bool" where
  "put_acked (PutCloseDir u d st inp) \<longleftrightarrow> status_ok st"
| "put_acked (PutReturn u st inp) \<longleftrightarrow> status_ok st"
| "put_acked (PutDone st inp) \<longleftrightarrow> status_ok st"
| "put_acked pc \<longleftrightarrow> False"

lemma put_won_new:
  assumes "put_step P store req I pc s = (pc', s')" and "put_local P store req I inp0 pc s" and "stream_ok I" and "put_won pc'"
  shows "put_won pc \<or> (\<exists>u inp. pc = PutLink u inp \<and> pc' = PutCommitted u inp)"
  using assms
  by (cases pc) (auto simp: put_received_def IoError_def Let_def split: prod.splits if_splits option.splits sum.splits)

text \<open>An upload is acknowledged after its name has been made durable.\<close>

lemma put_acked_new:
  assumes st: "put_step P store req I pc s = (pc', s')" and l: "put_local P store req I inp0 pc s" and "stream_ok I" and ok: "put_acked pc'"
  shows "put_acked pc \<or> (put_won pc \<and> fs_had (fsys s') (PathFor store cid) = {})"
proof (cases "\<exists>u d inp. pc = PutSyncDir u d inp")
  case False
  then show ?thesis
    using assms
    by (cases pc) (auto simp: put_received_def IoError_def Let_def split: prod.splits if_splits option.splits sum.splits)
next
  case True
  then obtain u d inp where pc: "pc = PutSyncDir u d inp" by blast
  obtain x s1 where n: "next_outcome s = (x, s1)" by fastforce
  have "map_of (fds s) (ufd_get d) = Some (ODir (store_root store))" using l pc by simp
  then have "fs_had (fsys s') (PathFor store cid) = {}"
    using st ok pc n next_outcome_frame [OF n] PathFor_in_dir [of store cid]
    by (auto simp: sys_fsync_dir_def sys_fail_def set_fs_def Let_def IoError_def split: outcome.splits)
  then show ?thesis using pc by simp
qed

definition winner :: "(nat \<Rightarrow> ('h, 's, 'o) thread option) \<Rightarrow> ChunkId \<Rightarrow> nat \<Rightarrow> PutChunkRequest \<Rightarrow> 's ChunkInputStream \<Rightarrow> 's \<Rightarrow>
    ('h, 's) put_pc \<Rightarrow> bool" where
  "winner ts cid k req I inp0 pc \<longleftrightarrow> (\<exists>e. ts k = Some (PutThread req I inp0 pc e)) \<and> put_chunk_id req = cid \<and> put_won pc"

definition undeleted :: "(nat \<Rightarrow> ('h, 's, 'o) thread option) \<Rightarrow> ChunkId \<Rightarrow> bool" where
  "undeleted ts cid \<longleftrightarrow> (\<forall>k st e. ts k \<noteq> Some (DeleteThread cid st e))"

text \<open>There is at most one winner, and the chunk is what it received, durable once acknowledged.\<close>

definition settled :: "'h platform \<Rightarrow> FileChunkStore \<Rightarrow> ChunkId \<Rightarrow> (nat \<Rightarrow> ('h, 's, 'o) thread option) \<Rightarrow> os \<Rightarrow> bool" where
  "settled P store cid ts s \<longleftrightarrow>
     (\<forall>k req I inp0 pc. winner ts cid k req I inp0 pc \<longrightarrow>
        (\<exists>ds inp. arrived P req I inp0 ds inp \<and> stored store (fsys s) cid = Some (put_bytes req (concat ds))) \<and>
        (put_acked pc \<longrightarrow> fs_had (fsys s) (PathFor store cid) = {}) \<and>
        (\<forall>j req' I' inp0' pc'. winner ts cid j req' I' inp0' pc' \<longrightarrow> j = k))"

text \<open>A step that keeps the chunk and adds no winner.\<close>

lemma settled_kept:
  assumes "settled P store cid ts s" and "stored store (fsys s') cid = stored store (fsys s) cid"
    and "\<And>k req I inp0 pc'. winner ts' cid k req I inp0 pc' \<Longrightarrow> \<exists>pc. winner ts cid k req I inp0 pc \<and>
      (put_acked pc' \<longrightarrow> put_acked pc \<or> fs_had (fsys s') (PathFor store cid) = {})"
    and "fs_had (fsys s) (PathFor store cid) = {} \<Longrightarrow>
      fs_had (fsys s') (PathFor store cid) = {}"
  shows "settled P store cid ts' s'"
  unfolding settled_def
proof (intro allI impI)
  fix k req I inp0 pc'
  assume w: "winner ts' cid k req I inp0 pc'"
  obtain pc where pc: "winner ts cid k req I inp0 pc" "put_acked pc' \<longrightarrow> put_acked pc \<or>
      fs_had (fsys s') (PathFor store cid) = {}" using assms(3) [OF w] by blast
  note old = assms(1) [unfolded settled_def, rule_format, OF pc(1)]
  have "\<forall>j req' I' inp0' pc'. winner ts' cid j req' I' inp0' pc' \<longrightarrow> j = k" using old assms(3) by blast
  then show "(\<exists>ds inp. arrived P req I inp0 ds inp \<and> stored store (fsys s') cid = Some (put_bytes req (concat ds))) \<and>
        (put_acked pc' \<longrightarrow> fs_had (fsys s') (PathFor store cid) = {}) \<and>
        (\<forall>j req' I' inp0' pc'. winner ts' cid j req' I' inp0' pc' \<longrightarrow> j = k)"
    using old pc(2) assms(2,4) by auto
qed

lemma settled_same:
  assumes "settled P store cid ts s" and "stored store (fsys s') cid = stored store (fsys s) cid"
    and "\<And>k req I inp0 pc. winner ts' cid k req I inp0 pc \<Longrightarrow> winner ts cid k req I inp0 pc"
    and "fs_had (fsys s') (PathFor store cid) = fs_had (fsys s) (PathFor store cid)"
  shows "settled P store cid ts' s'"
  using assms(3,4) by (intro settled_kept [OF assms(1,2)]) (blast, simp)

text \<open>An upload that is a winner after its step was one before, unless it has just passed its \<open>link\<close>.\<close>

lemma winner_step:
  assumes w: "winner (ts(k \<mapsto> PutThread req I inp0 pc' e')) cid j req1 I1 inp1 pc1"
    and k: "ts k = Some (PutThread req I inp0 pc e)" and step: "put_step P store req I pc s = (pc', s')"
    and l: "put_local P store req I inp0 pc s" "stream_ok I" and n: "\<not> (\<exists>u inp. pc = PutLink u inp \<and> pc' = PutCommitted u inp)"
  shows "\<exists>pc0. winner ts cid j req1 I1 inp1 pc0 \<and>
    (put_acked pc1 \<longrightarrow> put_acked pc0 \<or> fs_had (fsys s') (PathFor store cid) = {})"
proof (cases "j = k")
  case False
  then show ?thesis using w by (intro exI [of _ pc1]) (simp add: winner_def)
next
  case True
  have w': "req1 = req" "I1 = I" "inp1 = inp0" "pc1 = pc'" "put_chunk_id req = cid" "put_won pc'"
    using w True by (auto simp: winner_def)
  have "put_won pc" using put_won_new [OF step l] w'(6) n by blast
  then show ?thesis using put_acked_new [OF step l, of cid] w' True k by (intro exI [of _ pc]) (auto simp: winner_def)
qed

lemma settled_commit:
  assumes c: "commits P store req I inp0 pc pc' (fsys s) (fsys s')" and old: "settled P store cid ts s"
  shows "settled P store cid (ts(k \<mapsto> PutThread req I inp0 pc' e')) s'"
proof -
  let ?ts = "ts(k \<mapsto> PutThread req I inp0 pc' e')"
  obtain u inp ds where ds: "pc' = PutCommitted u inp" "arrived P req I inp0 ds inp" "stored store (fsys s) (put_chunk_id req) = None"
    "stored store (fsys s') = (stored store (fsys s))(put_chunk_id req \<mapsto> put_bytes req (concat ds))"
    "\<forall>q. q \<noteq> PathFor store (put_chunk_id req) \<longrightarrow> fs_dir (fsys s') q = fs_dir (fsys s) q \<and> fs_had (fsys s') q = fs_had (fsys s) q"
    using c unfolding commits_def by blast
  have other: "winner ?ts cid j req1 I1 inp1 pc1 \<Longrightarrow> j \<noteq> k \<Longrightarrow> winner ts cid j req1 I1 inp1 pc1" for j req1 I1 inp1 pc1
    by (simp add: winner_def)
  have self: "winner ?ts cid k req1 I1 inp1 pc1 \<Longrightarrow> req1 = req \<and> I1 = I \<and> inp1 = inp0 \<and> pc1 = pc' \<and> put_chunk_id req = cid"
    for req1 I1 inp1 pc1 by (auto simp: winner_def)
  show ?thesis
  proof (cases "put_chunk_id req = cid")
    case False
    have "PathFor store cid \<noteq> PathFor store (put_chunk_id req)" using False PathFor_inj [of store] by blast
    then have "fs_had (fsys s') (PathFor store cid) = fs_had (fsys s) (PathFor store cid)" using ds(5) by blast
    then show ?thesis using settled_kept [OF old, of s' ?ts] ds(4) False other self by (metis fun_upd_apply)
  next
    case True
    have none: "\<not> winner ts cid j req1 I1 inp1 pc1" for j req1 I1 inp1 pc1
      using old ds(3) True unfolding settled_def by force
    have only: "j = k \<and> req1 = req \<and> I1 = I \<and> inp1 = inp0 \<and> pc1 = pc'" if "winner ?ts cid j req1 I1 inp1 pc1" for j req1 I1 inp1 pc1
      using that none other self by metis
    have "stored store (fsys s') cid = Some (put_bytes req (concat ds))" using ds(4) True by simp
    moreover have "\<not> put_acked pc'" using ds(1) by simp
    ultimately show ?thesis unfolding settled_def using only ds(2) by (intro allI impI) (drule only, fastforce)
  qed
qed

lemma settled_put:
  assumes inv: "thread_shared P store s" "thread_own P store (PutThread req I inp0 pc e) s" and k: "ts k = Some (PutThread req I inp0 pc e)"
    and st: "thread_step P store (PutThread req I inp0 pc e) s = (PutThread req I inp0 pc' e', s')" and old: "settled P store cid ts s"
  shows "settled P store cid (ts(k \<mapsto> PutThread req I inp0 pc' e')) s'"
  using put_thread_view [OF inv st]
proof
  assume n: "names_kept (put_temp P store req I) (fsys s) (fsys s') \<and> stored store (fsys s') = stored store (fsys s) \<and>
    \<not> (\<exists>u inp. pc = PutLink u inp \<and> pc' = PutCommitted u inp)"
  have step: "put_step P store req I pc (s\<lparr>os_errno := e\<rparr>) = (pc', s')" using st by (auto split: prod.splits)
  have l: "put_local P store req I inp0 pc (s\<lparr>os_errno := e\<rparr>)" "stream_ok I"
    using inv(2) put_local_cong [of "s\<lparr>os_errno := e\<rparr>" s P store req I inp0 pc] by auto
  have "PathFor store cid \<noteq> put_temp P store req I"
    using put_temp_no_chunk [of store P req I] unfolding no_chunk_name_def by metis
  then have "fs_had (fsys s) (PathFor store cid) = {} \<Longrightarrow> fs_had (fsys s') (PathFor store cid) = {}"
    using n names_kept_durable by blast
  then show ?thesis
    by (rule settled_kept [OF old, rotated 2])
      (use n winner_step [where ts = ts and k = k and s = "s\<lparr>os_errno := e\<rparr>", OF _ k step l] in auto)
next
  assume "commits P store req I inp0 pc pc' (fsys s) (fsys s')"
  then show ?thesis using old by (rule settled_commit)
qed

lemma settled_step:
  assumes inv: "pool.pool_inv P store ts s" and old: "settled P store cid ts s" and new: "undeleted ts' cid"
    and st: "pool_step (thread_step P store) thread_fresh thread_joins (ts, s) (ts', s')"
  shows "settled P store cid ts' s'"
  using st
proof (cases rule: pool_step.cases)
  case (accept k q)
  have "\<not> winner ts' cid k req I inp0 pc" for req I inp0 pc
    using accept(1,4) by (cases q rule: thread_fresh.cases) (auto simp: winner_def)
  then have "winner ts' cid j req I inp0 pc \<Longrightarrow> winner ts cid j req I inp0 pc" for j req I inp0 pc
    using accept(1) by (cases "j = k") (auto simp: winner_def)
  then show ?thesis using accept(2) by (intro settled_same [OF old]) simp_all
next
  case (run k p p')
  have sh: "thread_shared P store s" "thread_own P store p s" using inv run(2) unfolding pool.pool_inv_def by blast+
  show ?thesis
  proof (cases p)
    case (PutThread req I inp0 pc e)
    obtain pc' e' where p': "p' = PutThread req I inp0 pc' e'" using run(3) PutThread by (auto split: prod.splits)
    show ?thesis
      unfolding run(1) p' by (rule settled_put [OF sh(1) sh(2) [unfolded PutThread] run(2) [unfolded PutThread] _ old])
        (use run(3) PutThread p' in simp)
  next
    case (DeleteThread c st0 e)
    have w: "winner ts' cid j req I inp0 pc \<Longrightarrow> winner ts cid j req I inp0 pc" for j req I inp0 pc
      using run(1,3) DeleteThread by (cases st0; cases "j = k") (auto simp: winner_def split: prod.splits)
    show ?thesis
    proof (cases st0)
      case None
      obtain st' where del: "FileChunkStore_Delete P store c (s\<lparr>os_errno := e\<rparr>) = (st', s')"
        and p': "p' = DeleteThread c (Some st') (os_errno s')"
        using run(3) DeleteThread None by (auto split: prod.splits)
      have "ts' k = Some (DeleteThread c (Some st') (os_errno s'))" using run(1) p' by simp
      then have ne: "cid \<noteq> c" using new by (auto simp: undeleted_def)
      note v = delete_thread_view [OF sh(1) del]
      have "stored store (fsys s') cid = stored store (fsys s) cid" using v ne by (auto split: if_splits)
      then show ?thesis using v ne w by (intro settled_same [OF old]) simp_all
    next
      case (Some x)
      then show ?thesis using run(3) DeleteThread w by (intro settled_same [OF old]) simp_all
    qed
  next
    case (HeadThread c pc e)
    show ?thesis
      by (rule head_thread_view [OF sh(2) [unfolded HeadThread] run(3) [unfolded HeadThread]])
        (use run(1) in \<open>auto simp: winner_def split: if_splits intro!: settled_same [OF old]\<close>)
  next
    case (GetThread req O' out0 pc e)
    show ?thesis
      by (rule get_thread_view [OF sh(2) [unfolded GetThread] run(3) [unfolded GetThread]])
        (use run(1) in \<open>auto simp: winner_def split: if_splits intro!: settled_same [OF old]\<close>)
  qed
qed

lemma undeleted_mono:
  assumes "pool_step (thread_step P store) thread_fresh thread_joins (ts, s) (ts', s')" and "undeleted ts' cid"
  shows "undeleted ts cid"
  unfolding undeleted_def
proof (intro allI notI)
  fix k st e
  assume d: "ts k = Some (DeleteThread cid st e)"
  have "\<exists>st e. ts' k = Some (DeleteThread cid st e)"
    using assms(1)
  proof (cases rule: pool_step.cases)
    case (run j p p')
    then show ?thesis using d by (cases st) (auto split: prod.splits)
  qed (use d in auto)
  then show False using assms(2) by (auto simp: undeleted_def)
qed

lemma settled_reach:
  assumes "pool_reach (thread_step P store) thread_fresh thread_joins s0 ts s" and "thread_shared P store s0" and "undeleted ts cid"
  shows "settled P store cid ts s"
  using assms
proof (induction rule: pool_reach.induct)
  case empty
  then show ?case by (simp add: settled_def winner_def)
next
  case (more ts s ts' s')
  then show ?case
    using settled_step [OF pool.pool_inv_reach [OF more.hyps(1) more.prems(1)] _ more.prems(2) more.hyps(2)]
      undeleted_mono [OF more.hyps(2) more.prems(2)] by blast
qed

text \<open>
  As long as nobody asks to delete the chunk, one upload at most has returned OK, and the chunk is what
  its stream delivered, now and after a crash.
\<close>

lemma winner_stored:
  assumes "pool_reach (thread_step P store) thread_fresh thread_joins s0 ts s"
    and "blake3_laws P" and "store_inv P store (fsys s0)"
    and "ts k = Some (PutThread req I inp0 (PutDone st inp) e)" and "status_ok st"
    and "\<And>j dst de. ts j \<noteq> Some (DeleteThread (put_chunk_id req) dst de)"
  shows "(\<forall>j req' I' inp0' st' inp' e'. ts j = Some (PutThread req' I' inp0' (PutDone st' inp') e') \<and>
      put_chunk_id req' = put_chunk_id req \<and> status_ok st' \<longrightarrow> j = k) \<and>
    (\<exists>ds inp1. drains I inp0 ds inp1 \<and> length (concat ds) = unat (expected_size req) \<and>
       chunk_at store (fsys s) (put_chunk_id req) = Some (blake3_checksum P (concat ds), concat ds) \<and>
       (\<forall>g. crash (fsys s) g \<longrightarrow> chunk_at store g (put_chunk_id req) = Some (blake3_checksum P (concat ds), concat ds)))"
proof -
  let ?cid = "put_chunk_id req" and ?p = "PathFor store (put_chunk_id req)"
  have sh: "thread_shared P store s0" using assms(2,3) by (simp add: thread_shared_def)
  have "pool.pool_inv P store ts s" by (rule pool.pool_inv_reach [OF assms(1) sh])
  then have inv: "store_inv P store (fsys s)" unfolding pool.pool_inv_def thread_shared_def by blast
  have set: "settled P store ?cid ts s" by (rule settled_reach [OF assms(1) sh]) (use assms(6) in \<open>simp add: undeleted_def\<close>)
  have w: "winner ts ?cid k req I inp0 (PutDone st inp)" using assms(4,5) by (simp add: winner_def)
  obtain ds inp1 where ds: "arrived P req I inp0 ds inp1" "stored store (fsys s) ?cid = Some (put_bytes req (concat ds))"
    using set w unfolding settled_def by blast
  have dur: "fs_had (fsys s) ?p = {}" using set w assms(5) unfolding settled_def by force
  have v: "put_valid req" "delivered P req ds" "drains I inp0 ds inp1" using ds(1) by (auto simp: arrived_def)
  note d = delivered_chunk [OF assms(2) v(1,2)]
  have at: "chunk_at store g ?cid = Some (blake3_checksum P (concat ds), concat ds)"
    if "stored store g ?cid = Some (put_bytes req (concat ds))" for g
    using that d(4,5) by (simp add: chunk_at_def d(3) [symmetric])
  obtain i where i: "fs_dir (fsys s) ?p = Some i" "fs_data (fsys s) i = put_bytes req (concat ds)"
    using ds(2) by (auto simp: stored_def)
  have "stored store g ?cid = Some (put_bytes req (concat ds))" if "crash (fsys s) g" for g
  proof -
    have "dur_data (fsys s) i = fs_data (fsys s) i" using inv i(1) by (auto simp: store_inv_def chunk_ref_def)
    then have "fs_dir g ?p = Some i" "fs_data g i = fs_data (fsys s) i" using that dur i(1) unfolding crash_def by (metis empty_iff)+
    then show ?thesis using i(2) by (simp add: stored_def)
  qed
  moreover have "j = k" if "ts j = Some (PutThread req' I' inp0' (PutDone st' inp') e')" "put_chunk_id req' = ?cid" "status_ok st'"
    for j req' I' inp0' st' inp' e'
    using set w that unfolding settled_def winner_def by (metis put_won.simps(6))
  moreover have "length (concat ds) = unat (expected_size req)" using v(2) by (simp add: delivered_def)
  ultimately show ?thesis using at ds(2) v(3) by blast
qed

end
