(* ===== verification/Pool_Runs.thy ===== *)
theory Pool_Runs
  imports Read_History Upload_Race
begin

text \<open>
  Runs of the worker's pool: no file grows beyond what an \<open>off_t\<close> can address, the schedule of
  failures is used up in order, and the history of a reader along a run.
\<close>

section \<open>Schedules and sizes\<close>

lemma write_turn_tail: "write_turn P fd bs w s = (res, s') \<Longrightarrow> sched_tail s s'"
  using sys_write_tail by (auto simp: write_turn_def split: prod.splits if_splits)

lemma fdatasync_tail: "sys_fdatasync fd s = (rc, s') \<Longrightarrow> sched_tail s s'"
  using sched_tail_next [of s]
  by (auto simp: sys_fdatasync_def sys_fail_def Let_def sched_tail_def split: prod.splits outcome.splits option.splits ofile.splits)

lemma fsync_dir_tail: "sys_fsync_dir fd s = (rc, s') \<Longrightarrow> sched_tail s s'"
  using sched_tail_next [of s]
  by (auto simp: sys_fsync_dir_def sys_fail_def Let_def sched_tail_def split: prod.splits outcome.splits option.splits ofile.splits)

lemma destroy_tail: "sched_tail s (ufd_destroy u s)"
  by (simp add: ufd_destroy_def ufd_reset_def sys_close_def sched_tail_def)

lemmas call_tails = write_turn_tail fdatasync_tail fsync_dir_tail cleanup_tail destroy_tail
  create_directories_cases [THEN conjunct1] sys_open_excl_cases [THEN conjunct1] sys_open_dir_cases [THEN conjunct1]
  sys_link_cases [THEN conjunct1]

lemma put_step_tail: "put_step P store req I pc s = (pc', s') \<Longrightarrow> sched_tail s s'"
  by (cases pc)
    (auto simp: Let_def ufd_reset_def sys_close_def sched_tail_eq
      split: prod.splits if_splits sum.splits option.splits intro: call_tails sched_tail_fields [OF _ cleanup_tail])

lemma delete_tail: "FileChunkStore_Delete P store cid s = (st, s') \<Longrightarrow> sched_tail s s'"
  using sys_unlink_cases [of "PathFor store cid" s]
  by (auto simp: FileChunkStore_Delete_def Let_def split: if_splits prod.splits)

lemma sched_tail_errno: "sched_tail (s\<lparr>os_errno := e\<rparr>) s' \<longleftrightarrow> sched_tail s s'"
  by (simp add: sched_tail_def)

lemma thread_step_tail:
  assumes "thread_own P store p s" and "thread_step P store p s = (p', s')"
  shows "sched_tail s s'"
proof (cases p)
  case (PutThread req I inp0 pc e)
  then show ?thesis using assms(2) put_step_tail [of P store req I pc "s\<lparr>os_errno := e\<rparr>"]
    by (auto simp: sched_tail_errno split: prod.splits)
next
  case (DeleteThread cid st e)
  then show ?thesis using assms(2) delete_tail [of P store cid "s\<lparr>os_errno := e\<rparr>"]
    by (cases st) (auto simp: sched_tail_errno split: prod.splits)
next
  case (HeadThread cid pc e)
  show ?thesis by (rule head_thread_view [OF assms [unfolded HeadThread]])
next
  case (GetThread req O' out0 pc e)
  show ?thesis by (rule get_thread_view [OF assms [unfolded GetThread]])
qed

text \<open>Only writing changes the contents of a file, and it respects the limit.\<close>

lemma sizes_ok_cong: "fs_data g = fs_data f \<Longrightarrow> sizes_ok g \<longleftrightarrow> sizes_ok f"
  by (simp add: sizes_ok_def)

lemma write_turn_sizes:
  assumes "write_turn P fd bs w s = (res, s')" and "map_of (fds s) fd = Some (OFile i (length (fs_data (fsys s) i)))" and "sizes_ok (fsys s)"
  shows "sizes_ok (fsys s')"
proof -
  obtain r s1 where wr: "sys_write fd (drop w bs) s = (r, s1)" by fastforce
  obtain x s2 where n: "next_outcome s = (x, s2)" and q: "quiet s s2" using take_outcome [of s] by blast
  have "sizes_ok (fsys s1)"
    using wr n q assms(2,3)
    by (auto simp: sys_write_def sys_fail_def do_write_def set_fs_def Let_def quiet_def sizes_ok_def write_at_def
        split: outcome.splits if_splits)
  then show ?thesis using assms(1) wr by (auto simp: write_turn_def split: if_splits)
qed

lemma holds_write_sizes:
  "holds store p u d s \<Longrightarrow> write_turn P (ufd_get u) bs w s = (res, s') \<Longrightarrow> sizes_ok (fsys s) \<Longrightarrow> sizes_ok (fsys s')"
  using write_turn_sizes [of P "ufd_get u" bs w s res s'] by (auto simp: holds_def)

lemma cleanup_data: "fs_data (fsys (cleanup p s)) = fs_data (fsys s)"
  using cleanup_shared [of s p] by (auto simp: changes_def quiet_def)

lemma put_step_sizes:
  assumes "put_step P store req I pc s = (pc', s')" and "put_local P store req I inp0 pc s" and "sizes_ok (fsys s)"
  shows "sizes_ok (fsys s')"
proof (cases pc)
  case (PutStart inp)
  then show ?thesis
    using assms(1,3) create_directories_cases [of "store_root store" s]
    by (auto simp: sizes_ok_def changes_def quiet_def split: if_splits prod.splits option.splits)
next
  case (PutOpen inp)
  obtain raw s1 where o: "sys_open_excl (put_temp P store req I) s = (raw, s1)" by fastforce
  then have "s' = s1" using assms(1) PutOpen by (auto simp: put_temp_def Let_def split: if_splits)
  then show ?thesis using assms(3) sys_open_excl_cases [OF o] by (auto simp: sizes_ok_def quiet_def off_limit_def)
next
  case (PutHeader u w inp)
  then show ?thesis
    using assms holds_write_sizes by (auto simp: Let_def split: if_splits prod.splits sum.splits)
next
  case (PutWrite u r h b w inp)
  then show ?thesis
    using assms holds_write_sizes by (auto split: if_splits prod.splits sum.splits)
next
  case (PutSync u inp)
  obtain rc s1 where f: "sys_fdatasync (ufd_get u) s = (rc, s1)" by fastforce
  have "\<exists>i pos. map_of (fds s) (ufd_get u) = Some (OFile i pos)" using assms(2) PutSync by (auto simp: holds_def)
  then show ?thesis
    using assms(1,3) PutSync f sys_fdatasync_shared [OF f] by (auto simp: sizes_ok_def changes_def quiet_def split: if_splits)
next
  case (PutLink u inp)
  obtain rc s1 where l: "sys_link (put_temp P store req I) (PathFor store (put_chunk_id req)) s = (rc, s1)" by fastforce
  then have "s' = s1" using assms(1) PutLink by (auto simp: put_temp_def split: if_splits)
  then show ?thesis using assms(3) sys_link_cases [OF l] by (auto simp: sizes_ok_def changes_def quiet_def)
next
  case (PutOpenDir u inp)
  obtain raw s1 where o: "sys_open_dir (store_root store) s = (raw, s1)" by fastforce
  then have "s' = s1" using assms(1) PutOpenDir by (auto simp: Let_def split: if_splits)
  then show ?thesis using assms(3) sys_open_dir_cases [OF o] by (auto simp: quiet_def)
next
  case (PutSyncDir u d inp)
  obtain rc s1 where f: "sys_fsync_dir (ufd_get d) s = (rc, s1)" by fastforce
  then have "s' = s1" using assms(1) PutSyncDir by auto
  then show ?thesis using assms(3) sys_fsync_dir_shared [OF f] by (auto simp: sizes_ok_def quiet_def changes_def)
qed (use assms(1,3) in
      \<open>auto simp: sizes_ok_def cleanup_data ufd_destroy_shared ufd_reset_def sys_close_def Let_def split: prod.splits if_splits\<close>)

lemma delete_sizes:
  "FileChunkStore_Delete P store cid s = (st, s') \<Longrightarrow> sizes_ok (fsys s) \<Longrightarrow> sizes_ok (fsys s')"
  using sys_unlink_cases [of "PathFor store cid" s]
  by (auto simp: FileChunkStore_Delete_def Let_def sizes_ok_def changes_def quiet_def split: if_splits prod.splits)

lemma thread_step_sizes:
  assumes "thread_own P store p s" and "thread_step P store p s = (p', s')" and "sizes_ok (fsys s)"
  shows "sizes_ok (fsys s')"
proof (cases p)
  case (PutThread req I inp0 pc e)
  have "put_local P store req I inp0 pc (s\<lparr>os_errno := e\<rparr>)"
    using assms(1) PutThread put_local_cong [of "s\<lparr>os_errno := e\<rparr>" s P store req I inp0 pc] by simp
  then show ?thesis
    using assms(2,3) PutThread put_step_sizes [of P store req I pc "s\<lparr>os_errno := e\<rparr>"] by (auto split: prod.splits)
next
  case (DeleteThread cid st e)
  then show ?thesis using assms(2,3) delete_sizes [of P store cid "s\<lparr>os_errno := e\<rparr>"]
    by (cases st) (auto split: prod.splits)
next
  case (HeadThread cid pc e)
  show ?thesis by (rule head_thread_view [OF assms(1,2) [unfolded HeadThread]]) (use assms(3) in simp)
next
  case (GetThread req O' out0 pc e)
  show ?thesis by (rule get_thread_view [OF assms(1,2) [unfolded GetThread]]) (use assms(3) in simp)
qed

section \<open>The history of a call\<close>

text \<open>The contents an identifier has had along a run.\<close>

definition moments :: "FileChunkStore \<Rightarrow> ChunkId \<Rightarrow> ((nat \<Rightarrow> ('h, 's, 'o) thread option) \<times> os) list \<Rightarrow> byte list option set" where
  "moments store cid cs = (\<lambda>c. stored store (fsys (snd c)) cid) ` set cs"

lemma moments_Cons: "moments store cid (c # cs) = insert (stored store (fsys (snd c)) cid) (moments store cid cs)"
  by (simp add: moments_def)

text \<open>
  What is claimed of a call in terms of the moments so far is kept by the other threads and by the
  passing of time; then it holds along every run.
\<close>

locale call_history =
  fixes P :: "'h platform" and store :: FileChunkStore and cid :: ChunkId
    and H :: "bool \<Rightarrow> byte list option set \<Rightarrow> ('h, 's, 'o) thread \<Rightarrow> os \<Rightarrow> bool"
  assumes mono_law: "H ok D p s \<Longrightarrow> D \<subseteq> E \<Longrightarrow> H ok E p s"
    and step_law: "H ok D p s \<Longrightarrow> thread_own P store p s \<Longrightarrow> thread_step P store p s = (p', s') \<Longrightarrow> (ok \<longrightarrow> smooth s) \<Longrightarrow>
      store_inv P store (fsys s) \<Longrightarrow> sizes_ok (fsys s) \<Longrightarrow> stored store (fsys s) cid \<in> D \<Longrightarrow> H ok D p' s'"
    and kept_law: "H ok D p s \<Longrightarrow> kept store n own mine s s' \<Longrightarrow> thread_fds p \<inter> mine = {} \<Longrightarrow> thread_reads p s \<inter> own = {} \<Longrightarrow>
      H ok D p s'"
begin

lemma history_step:
  assumes inv: "pool.pool_inv P store ts s" "sizes_ok (fsys s)" and p: "ts k = Some p" "H ok D p s"
    and ok: "ok \<longrightarrow> smooth s" and D: "stored store (fsys s) cid \<in> D"
    and st: "pool_step (thread_step P store) thread_fresh thread_joins (ts, s) (ts', s')"
  shows "(\<exists>p'. ts' k = Some p' \<and> H ok D p' s') \<and> (ok \<longrightarrow> smooth s') \<and> sizes_ok (fsys s')"
  using st
proof (cases rule: pool_step.cases)
  case (accept j q)
  then show ?thesis using p ok inv(2) by auto
next
  case (run j q q')
  have sh: "thread_shared P store s" "thread_own P store q s" "thread_own P store p s"
    using inv(1) run(2) p(1) unfolding pool.pool_inv_def by blast+
  have "ok \<longrightarrow> smooth s'" using ok sched_tail_smooth [OF thread_step_tail [OF sh(2) run(3)]] by blast
  moreover have "sizes_ok (fsys s')" by (rule thread_step_sizes [OF sh(2) run(3) inv(2)])
  moreover have "\<exists>p'. ts' k = Some p' \<and> H ok D p' s'"
  proof (cases "j = k")
    case True
    then have "q = p" using run(2) p(1) by simp
    then show ?thesis
      using step_law [OF p(2) sh(3) _ ok _ inv(2) D] run(1,3) True sh(1) by (auto simp: thread_shared_def)
  next
    case False
    have ap: "thread_apart P store q p s" using inv(1) run(2) p(1) False unfolding pool.pool_inv_def by metis
    obtain n where n: "kept store n (thread_inodes P store q (fsys s)) (thread_fds q) s s'"
      using thread_step_sound [OF sh(1,2) run(3)] by (auto simp: thread_sound_def)
    have "H ok D p s'" by (rule kept_law [OF p(2) n]) (use ap in \<open>auto simp: thread_apart_def\<close>)
    then show ?thesis using False run(1) p(1) by simp
  qed
  ultimately show ?thesis by blast
qed

lemma history_run:
  assumes "pool_run (thread_step P store) thread_fresh thread_joins cs" and "fst (last cs) k = Some p0"
    and "pool.pool_inv P store (fst (last cs)) (snd (last cs))" and "sizes_ok (fsys (snd (last cs)))"
    and "H (smooth (snd (last cs))) {} p0 (snd (last cs))"
  shows "pool.pool_inv P store (fst (hd cs)) (snd (hd cs)) \<and> sizes_ok (fsys (snd (hd cs))) \<and>
    (smooth (snd (last cs)) \<longrightarrow> smooth (snd (hd cs))) \<and>
    (\<exists>p. fst (hd cs) k = Some p \<and> H (smooth (snd (last cs))) (moments store cid cs) p (snd (hd cs)))"
  using assms
proof (induction rule: pool_run.induct)
  case (start c)
  then show ?case using mono_law by fastforce
next
  case (continue c cs c')
  let ?ok = "smooth (snd (last (c # cs)))" and ?D = "moments store cid (c # cs)"
  have IH: "pool.pool_inv P store (fst c) (snd c)" "sizes_ok (fsys (snd c))" "?ok \<longrightarrow> smooth (snd c)"
    "\<exists>p. fst c k = Some p \<and> H ?ok ?D p (snd c)" using continue.IH continue.prems by auto
  then obtain p where p: "fst c k = Some p" "H ?ok ?D p (snd c)" by blast
  have st: "pool_step (thread_step P store) thread_fresh thread_joins (fst c, snd c) (fst c', snd c')" using continue.hyps(2) by simp
  have D: "stored store (fsys (snd c)) cid \<in> ?D" by (simp add: moments_Cons)
  note hs = history_step [OF IH(1,2) p IH(3) D st]
  have inv: "pool.pool_inv P store (fst c') (snd c')" using pool.pool_inv_step [OF IH(1) st] .
  have "?D \<subseteq> moments store cid (c' # c # cs)" unfolding moments_Cons [of _ _ c'] by (rule subset_insertI)
  then have "\<exists>p. fst c' k = Some p \<and> H ?ok (moments store cid (c' # c # cs)) p (snd c')"
    using hs mono_law by blast
  then show ?case using hs inv by simp
qed

end

text \<open>The claims about a \<open>Head\<close> and a \<open>Get\<close> in a thread.\<close>

definition head_thread_history :: "ChunkId \<Rightarrow> bool \<Rightarrow> byte list option set \<Rightarrow> ('h, 's, 'o) thread \<Rightarrow> os \<Rightarrow> bool" where
  "head_thread_history cid ok D p s \<longleftrightarrow> (\<exists>pc e. p = HeadThread cid pc e \<and> head_history ok D cid pc s)"

definition get_thread_history ::
  "GetChunkRequest \<Rightarrow> 'o ChunkOutputStream \<Rightarrow> 'o \<Rightarrow> bool \<Rightarrow> byte list option set \<Rightarrow> ('h, 's, 'o) thread \<Rightarrow> os \<Rightarrow> bool" where
  "get_thread_history req O' out0 ok D p s \<longleftrightarrow> (\<exists>pc e. p = GetThread req O' out0 pc e \<and> get_history ok D req O' out0 pc s)"

lemma head_history_errno: "head_history ok D cid pc (s\<lparr>os_errno := e\<rparr>) \<longleftrightarrow> head_history ok D cid pc s"
  by (cases pc) (simp_all add: reads_file_def)

lemma get_history_errno: "get_history ok D req O' out0 pc (s\<lparr>os_errno := e\<rparr>) \<longleftrightarrow> get_history ok D req O' out0 pc s"
  by (cases pc) (simp_all add: reads_file_def head_history_errno)

lemma smooth_errno: "smooth (s\<lparr>os_errno := e\<rparr>) \<longleftrightarrow> smooth s"
  by (simp add: smooth_def)

interpretation head_calls: call_history P store cid "head_thread_history cid" for P store cid
proof
  fix ok D p and s s' :: os and p'
  assume "head_thread_history cid ok D p s" and own: "thread_own P store p s" and st: "thread_step P store p s = (p', s')"
    and inv: "ok \<longrightarrow> smooth s" "store_inv P store (fsys s)" "sizes_ok (fsys s)" "stored store (fsys s) cid \<in> D"
  then obtain pc e where p: "p = HeadThread cid pc e" and h: "head_history ok D cid pc (s\<lparr>os_errno := e\<rparr>)"
    by (auto simp: head_thread_history_def head_history_errno)
  obtain pc' where "p' = HeadThread cid pc' (os_errno s')" and hs: "head_step P store cid pc (s\<lparr>os_errno := e\<rparr>) = (pc', s')"
    by (rule head_thread_view [OF own [unfolded p] st [unfolded p]])
  then show "head_thread_history cid ok D p' s'"
    using head_history_step [OF h hs] inv by (auto simp: head_thread_history_def smooth_errno)
qed (auto simp: head_thread_history_def intro: head_history_mono head_history_kept)

interpretation get_calls: call_history P store "get_chunk_id req" "get_thread_history req O' out0" for P store req O' out0
proof
  fix ok D p and s s' :: os and p'
  assume "get_thread_history req O' out0 ok D p s" and own: "thread_own P store p s" and st: "thread_step P store p s = (p', s')"
    and inv: "ok \<longrightarrow> smooth s" "store_inv P store (fsys s)" "sizes_ok (fsys s)" "stored store (fsys s) (get_chunk_id req) \<in> D"
  then obtain pc e where p: "p = GetThread req O' out0 pc e" and h: "get_history ok D req O' out0 pc (s\<lparr>os_errno := e\<rparr>)"
    by (auto simp: get_thread_history_def get_history_errno)
  obtain pc' where "p' = GetThread req O' out0 pc' (os_errno s')" and gs: "get_step P store req O' pc (s\<lparr>os_errno := e\<rparr>) = (pc', s')"
    by (rule get_thread_view [OF own [unfolded p] st [unfolded p]])
  then show "get_thread_history req O' out0 ok D p' s'"
    using get_history_step [OF h gs] inv by (auto simp: get_thread_history_def smooth_errno)
qed (auto simp: get_thread_history_def intro: get_history_mono get_history_kept)

section \<open>Reading the histories\<close>

lemma pool_sizes:
  assumes "pool_reach (thread_step P store) thread_fresh thread_joins s0 ts s" and "thread_shared P store s0" and "sizes_ok (fsys s0)"
  shows "sizes_ok (fsys s)"
  using assms
proof (induction rule: pool_reach.induct)
  case (more ts s ts' s')
  have inv: "pool.pool_inv P store ts s" by (rule pool.pool_inv_reach [OF more.hyps(1) more.prems(1)])
  from more.hyps(2) show ?case
  proof (cases rule: pool_step.cases)
    case (run k p p')
    then show ?thesis using thread_step_sizes [OF _ run(3)] inv more.IH more.prems unfolding pool.pool_inv_def by blast
  qed (use more in simp)
qed

text \<open>What the two interpretations say of a call from its acceptance to its end.\<close>

lemma get_call:
  assumes "pool_reach (thread_step P store) thread_fresh thread_joins s0 ts0 s1" and "thread_shared P store s0" "sizes_ok (fsys s0)"
    and "pool_run (thread_step P store) thread_fresh thread_joins cs" and "last cs = (ts0, s1)" "hd cs = (ts, s)"
    and "ts0 k = Some (GetThread req O' out0 (GetHead HeadStart out0) e0)" and "ts k = Some (GetThread req O' out0 (GetDone st out) e)"
  shows "get_result (smooth s1) (moments store (get_chunk_id req) cs) req O' out0 st out"
proof -
  have "pool.pool_inv P store ts0 s1" "sizes_ok (fsys s1)"
    using pool.pool_inv_reach [OF assms(1,2)] pool_sizes [OF assms(1-3)] by blast+
  then show ?thesis
    using get_calls.history_run [OF assms(4), of k "GetThread req O' out0 (GetHead HeadStart out0) e0" req O' out0] assms(5-8)
    by (auto simp: get_thread_history_def)
qed

lemma head_call:
  assumes "pool_reach (thread_step P store) thread_fresh thread_joins s0 ts0 s1" and "thread_shared P store s0" "sizes_ok (fsys s0)"
    and "pool_run (thread_step P store) thread_fresh thread_joins cs" and "last cs = (ts0, s1)" "hd cs = (ts, s)"
    and "ts0 k = Some (HeadThread cid HeadStart e0)" and "ts k = Some (HeadThread cid (HeadDone res) e)"
  shows "head_result (smooth s1) (moments store cid cs) cid res"
proof -
  have "pool.pool_inv P store ts0 s1" "sizes_ok (fsys s1)"
    using pool.pool_inv_reach [OF assms(1,2)] pool_sizes [OF assms(1-3)] by blast+
  then show ?thesis
    using head_calls.history_run [OF assms(4), of k "HeadThread cid HeadStart e0" cid] assms(5-8)
    by (auto simp: head_thread_history_def)
qed

text \<open>A moment with the chunk, as the view has it.\<close>

lemma whole_moment:
  assumes "whole (moments store cid cs) d" and "pool_run (thread_step P store) thread_fresh thread_joins cs"
    and "pool.pool_inv P store (fst (last cs)) (snd (last cs))"
  obtains ts s where "(ts, s) \<in> set cs" and "chunk_at store (fsys s) cid = Some (blake3_checksum P (drop kHeaderSize d), drop kHeaderSize d)"
proof -
  obtain c where c: "c \<in> set cs" "stored store (fsys (snd c)) cid = Some d" and p: "parse_chunk d \<noteq> None"
    using assms(1) by (auto simp: whole_def moments_def)
  have "thread_shared P store (snd c)" using pool.pool_inv_run_all [OF assms(2,3)] c(1) unfolding pool.pool_inv_def by blast
  then have inv: "store_inv P store (fsys (snd c))" by (simp add: thread_shared_def)
  obtain n cs' where "parse_chunk d = Some (n, cs')" using p by auto
  then have at: "chunk_at store (fsys (snd c)) cid = Some (cs', drop kHeaderSize d)" using c(2) by (simp add: chunk_at_def)
  then show ?thesis using that [of "fst c" "snd c"] c(1) chunk_at_digest [OF inv at] by simp
qed

text \<open>While nobody asks to delete a chunk, it stays what it is.\<close>

lemma stored_stable_step:
  assumes "pool.pool_inv P store ts s" and "undeleted ts' cid" and "stored store (fsys s) cid = Some d"
    and st: "pool_step (thread_step P store) thread_fresh thread_joins (ts, s) (ts', s')"
  shows "stored store (fsys s') cid = Some d"
  using st
proof (cases rule: pool_step.cases)
  case (accept k q)
  then show ?thesis using assms(3) by simp
next
  case (run k p p')
  have sh: "thread_shared P store s" "thread_own P store p s" using assms(1) run(2) unfolding pool.pool_inv_def by blast+
  from sh run(3) show ?thesis
  proof (cases rule: thread_effect)
    case same
    then show ?thesis using assms(3) by simp
  next
    case (put req I inp0 pc pc' e e')
    then show ?thesis using assms(3) by (auto simp: commits_def)
  next
    case (delete c st e e')
    then have "ts' k = Some (DeleteThread c (Some st) e')" using run(1) by simp
    then have "c \<noteq> cid" using assms(2) by (auto simp: undeleted_def)
    then show ?thesis using delete(5) assms(3) by simp
  qed
qed

lemma stored_stable:
  assumes "pool_run (thread_step P store) thread_fresh thread_joins cs" and "pool.pool_inv P store (fst (last cs)) (snd (last cs))"
    and "undeleted (fst (hd cs)) cid" and "stored store (fsys (snd (last cs))) cid = Some d"
  shows "moments store cid cs = {Some d}"
  using assms
proof (induction rule: pool_run.induct)
  case (start c)
  then show ?case by (simp add: moments_def)
next
  case (continue c cs c')
  have st: "pool_step (thread_step P store) thread_fresh thread_joins (fst c, snd c) (fst c', snd c')" using continue.hyps(2) by simp
  have "undeleted (fst c) cid" using undeleted_mono [OF st] continue.prems(2) by simp
  then have IH: "moments store cid (c # cs) = {Some d}" using continue.IH continue.prems by simp
  then have "stored store (fsys (snd c)) cid = Some d" unfolding moments_Cons by blast
  moreover have "\<forall>c \<in> set (c # cs). pool.pool_inv P store (fst c) (snd c)"
    by (rule pool.pool_inv_run_all [OF continue.hyps(1)]) (use continue.prems(1) in simp)
  ultimately have "stored store (fsys (snd c')) cid = Some d" using stored_stable_step [OF _ _ _ st] continue.prems(2) by auto
  then show ?case using IH by (simp add: moments_Cons [of _ _ c'])
qed

section \<open>Descriptors\<close>

text \<open>Beside the descriptors that were open at the start, those of the threads are open, and no others.\<close>

definition accounted :: "os \<Rightarrow> (nat \<Rightarrow> ('h, 's, 'o) thread option) \<Rightarrow> os \<Rightarrow> bool" where
  "accounted s0 ts s \<longleftrightarrow> open_fds s = open_fds s0 \<union> (\<Union>p \<in> ran ts. thread_fds p) \<and>
     (\<forall>p \<in> ran ts. thread_fds p \<inter> open_fds s0 = {}) \<and> (\<forall>fd \<in> open_fds s0. map_of (fds s) fd = map_of (fds s0) fd)"

lemma union_part: "X = A \<union> (B \<union> C) \<Longrightarrow> B \<inter> A = {} \<Longrightarrow> B \<inter> C = {} \<Longrightarrow> X - B = A \<union> C"
  by blast

lemma ran_update: "ran (ts(k \<mapsto> p')) = insert p' {q. \<exists>j. j \<noteq> k \<and> ts j = Some q}"
  by (auto simp: ran_def)

lemma ran_split: "ts k = Some p \<Longrightarrow> ran ts = insert p {q. \<exists>j. j \<noteq> k \<and> ts j = Some q}"
proof (intro set_eqI iffI)
  fix q
  assume k: "ts k = Some p" and "q \<in> ran ts"
  then obtain j where "ts j = Some q" by (auto simp: ran_def)
  then show "q \<in> insert p {q. \<exists>j. j \<noteq> k \<and> ts j = Some q}" using k by (cases "j = k") auto
qed (auto simp: ran_def)

lemma accounted_step:
  assumes acc: "accounted s0 ts s" and inv: "pool.pool_inv P store ts s" and k: "ts k = Some p"
    and st: "thread_step P store p s = (p', s')"
  shows "accounted s0 (ts(k \<mapsto> p')) s'"
proof -
  let ?rest = "\<Union>q \<in> {q. \<exists>j. j \<noteq> k \<and> ts j = Some q}. thread_fds q"
  have sh: "thread_shared P store s" "thread_own P store p s" using inv k unfolding pool.pool_inv_def by blast+
  note sound = thread_step_sound [OF sh st, unfolded thread_sound_def]
  obtain n where n: "kept store n (thread_inodes P store p (fsys s)) (thread_fds p) s s'" using sound by (elim conjE exE)
  have o: "open_fds s' = open_fds s - thread_fds p \<union> thread_fds p'" "thread_fds p' \<subseteq> thread_fds p \<union> - open_fds s" using sound by simp_all
  have "thread_fds p \<inter> thread_fds q = {}" if "ts j = Some q" "j \<noteq> k" for j q
    using inv k that unfolding pool.pool_inv_def thread_apart_def by metis
  then have ap: "thread_fds p \<inter> ?rest = {}" by blast
  have "(\<Union>q \<in> ran ts. thread_fds q) = thread_fds p \<union> ?rest" unfolding ran_split [of ts k, OF k] by simp
  then have "open_fds s = open_fds s0 \<union> (thread_fds p \<union> ?rest)" using acc by (simp add: accounted_def)
  moreover have d: "thread_fds p \<inter> open_fds s0 = {}" using acc k by (auto simp: accounted_def ran_def)
  ultimately have "open_fds s - thread_fds p = open_fds s0 \<union> ?rest" using ap by (rule union_part)
  then have "open_fds s' = open_fds s0 \<union> (thread_fds p' \<union> ?rest)" using o(1) by auto
  moreover have "thread_fds p' \<inter> open_fds s0 = {}"
    by (rule disjoint_new [OF o(2) d]) (use acc in \<open>auto simp: accounted_def\<close>)
  moreover have "map_of (fds s') fd = map_of (fds s0) fd" if "fd \<in> open_fds s0" for fd
    using that n d acc unfolding kept_def accounted_def by (metis DiffI UnI1 disjoint_iff)
  moreover have "\<forall>q \<in> {q. \<exists>j. j \<noteq> k \<and> ts j = Some q}. thread_fds q \<inter> open_fds s0 = {}"
    using acc unfolding accounted_def ran_def by blast
  ultimately show ?thesis unfolding accounted_def ran_update by simp
qed

lemma accounted_reach:
  assumes "pool_reach (thread_step P store) thread_fresh thread_joins s0 ts s" and "thread_shared P store s0"
  shows "accounted s0 ts s"
  using assms
proof (induction rule: pool_reach.induct)
  case empty
  show ?case by (simp add: accounted_def)
next
  case (more ts s ts' s')
  note acc = more.IH [OF more.prems]
  from more.hyps(2) show ?case
  proof (cases rule: pool_step.cases)
    case (accept k q)
    have "thread_fds q = {}" using accept(4) by (cases q rule: thread_fresh.cases) auto
    moreover have "ran ts' = insert q (ran ts)" unfolding accept(1) by (rule ran_map_upd [of ts k, OF accept(3)])
    ultimately show ?thesis using acc accept(2) by (auto simp: accounted_def)
  next
    case (run k p p')
    show ?thesis
      unfolding run(1) by (rule accounted_step [OF acc pool.pool_inv_reach [OF more.hyps(1) more.prems] run(2,3)])
  qed
qed

end
