(* ===== verification/Torn_Read.thy ===== *)
theory Torn_Read
  imports Pool_Runs Sample_Run
begin

text \<open>
  A schedule of the worker in which a download of an intact chunk is answered with \<open>kCorruption\<close>:
  \<open>Get\<close> has validated its range against the size that \<open>Head\<close> reported; before it opens the file
  again, the chunk is deleted and a shorter one is uploaded under the same identifier.
\<close>

section \<open>Threads that run alone for a while\<close>

lemma put_thread_run:
  "put_run P store req I pc s pc' s' \<Longrightarrow>
     runs (thread_step P store) (PutThread req I inp0 pc (os_errno s)) s (PutThread req I inp0 pc' (os_errno s')) s'"
  by (erule runs_simulated [where F = "\<lambda>pc s. PutThread req I inp0 pc (os_errno s)"]) simp

lemma get_thread_run:
  "get_run P store req O' pc s pc' s' \<Longrightarrow>
     runs (thread_step P store) (GetThread req O' out0 pc (os_errno s)) s (GetThread req O' out0 pc' (os_errno s')) s'"
  by (erule runs_simulated [where F = "\<lambda>pc s. GetThread req O' out0 pc (os_errno s)"]) simp

lemma head_thread_run:
  "head_run P store cid pc s pc' s' \<Longrightarrow>
     runs (thread_step P store) (HeadThread cid pc (os_errno s)) s (HeadThread cid pc' (os_errno s')) s'"
  by (erule runs_simulated [where F = "\<lambda>pc s. HeadThread cid pc (os_errno s)"]) simp

text \<open>A \<open>Get\<close> that continues after other threads have run has its own \<open>errno\<close> back.\<close>

lemma get_thread_resumed:
  assumes "get_run P store req O' pc (s\<lparr>os_errno := e\<rparr>) pc' s'" and "pc' \<noteq> pc"
  shows "runs (thread_step P store) (GetThread req O' out0 pc e) s (GetThread req O' out0 pc' (os_errno s')) s'"
  using assms(1)
proof (cases rule: runs.cases)
  case stop
  then show ?thesis using assms(2) by simp
next
  case (go pc1 s1)
  then have "thread_step P store (GetThread req O' out0 pc e) s = (GetThread req O' out0 pc1 (os_errno s1), s1)" by simp
  then show ?thesis by (rule runs.go [OF _ get_thread_run [OF go(2)]])
qed

section \<open>Reading beyond the end of a file\<close>

lemma get_loop_short:
  assumes "get_loop P O' fd remaining offset out s = (st, out', s')"
    and "fd_top fd (OFile i pos) t s" and "fs_data (fsys s) i = d" and "length d < unat offset + unat remaining"
    and "unat offset \<le> length d" and "length d < 2 ^ 63" and "smooth s" and "accepting O'"
  shows "st_code st = kCorruption"
  using assms
proof (induction P O' fd remaining offset out s rule: get_loop.induct)
  case (1 P O' fd remaining offset out s)
  have "offset \<le> off_t_max" using "1.prems"(5,6) by (simp add: off_t_bound)
  note f = PreadSome_reads [OF _ "1.prems"(2) this, unfolded "1.prems"(3)]
  from "1.prems"(1) show ?case
  proof (cases rule: get_loop_turn)
    case finished
    then show ?thesis using "1.prems"(4,5) by (auto simp: word_gt_0)
  next
    case (failed c)
    then show ?thesis using readsD(5) [OF f [OF failed(2)]] smooth_gentle [OF "1.prems"(7)] by (auto simp: io_errs_def)
  next
    case (eof c)
    then show ?thesis by simp
  next
    case (rejected c b)
    then show ?thesis using "1.prems"(8) unfolding accepting_def by (metis fst_conv)
  next
    case (more c s1 b st1 out1)
    note fo = readsD(4) [OF f [OF more(2)] more(3)] and q = readsD(1,2) [OF f [OF more(2)]]
    note sp = range_split [OF fo more(4)]
    have len: "unat offset + length b \<le> length d" using front_of_length [OF fo] more(4) by (cases b) auto
    have adv: "unat (remaining - word_of_nat (length b)) = unat remaining - length b"
      "unat (offset + word_of_nat (length b)) = unat offset + length b"
      using get_loop_advances [of "length b" remaining offset] more(4) sp(2) len "1.prems"(6) by auto
    from "1.IH" [OF more(1) more(2) [symmetric] more(3,4) more(5) [symmetric] _ more(7)] show ?thesis
      using more(6) adv len sp(2) "1.prems" q sched_tail_smooth by (auto simp: quiet_def fd_top_def)
  qed
qed

section \<open>The schedule\<close>

text \<open>A disk with the chunk \<open>[1, 2, 3]\<close>; the new chunk; the request for all of the old one.\<close>

definition one_chunk :: os where
  "one_chunk =
     (let p = PathFor sample_store sample_id; d = chunk_bytes (blake3_checksum sample_platform [1, 2, 3]) [1, 2, 3] in
      \<lparr>fsys = \<lparr>fs_dir = [p \<mapsto> 0], fs_data = (\<lambda>i. [])(0 := d), fs_dirs = {}, fs_next = 1,
         fs_had = (\<lambda>p. {}), dur_data = (\<lambda>i. [])(0 := d)\<rparr>,
       fds = [], os_errno = ENOENT, sched = [], trace = []\<rparr>)"

definition new_request :: PutChunkRequest where
  "new_request = \<lparr>put_chunk_id = sample_id, expected_size = 1, expected_checksum = blake3_checksum sample_platform [9]\<rparr>"

definition all_of_it :: GetChunkRequest where
  "all_of_it = \<lparr>get_chunk_id = sample_id, get_range = \<lparr>range_offset = 0, range_size = 3\<rparr>\<rparr>"

lemma sample_checksum_valid: "status_ok (ValidateChecksum (blake3_checksum sample_platform d))"
  unfolding blake3_checksum_def blake3_hex_def by (simp add: ValidateChecksum_hex sample_platform_def BLAKE3_OUT_LEN_def)

lemma one_chunk_good: "good_file sample_platform (chunk_bytes (blake3_checksum sample_platform [1, 2, 3]) [1, 2, 3])"
  by (rule good_file_chunk_bytes [OF sample_checksum_valid]) (simp_all add: blake3_checksum_def)

lemma sample_chunk_length: "length (chunk_bytes (blake3_checksum sample_platform d) d) = kHeaderSize + length d"
  using sample_checksum_valid [of d] by (intro length_chunk_bytes) (simp add: ValidateChecksum_ok_iff)

lemma one_chunk_ok: "platform_ok sample_platform sample_store one_chunk"
proof -
  have "store_inv sample_platform sample_store (fsys one_chunk)"
    using one_chunk_good by (auto simp: store_inv_def chunk_ref_def one_chunk_def Let_def split: if_splits)
  moreover have "sizes_ok (fsys one_chunk)"
    using sample_chunk_length [of "[1, 2, 3]"] by (simp add: sizes_ok_def one_chunk_def Let_def off_limit_def kHeaderSize_eq)
  ultimately show ?thesis using sample_laws by (simp add: platform_ok_def)
qed

lemma one_chunk_at: "chunk_at sample_store (fsys one_chunk) sample_id = Some (blake3_checksum sample_platform [1, 2, 3], [1, 2, 3])"
proof -
  have "length (checksum_value (blake3_checksum sample_platform [1, 2, 3])) = 64"
    using sample_checksum_valid by (simp add: ValidateChecksum_ok_iff)
  then show ?thesis
    using parse_chunk_bytes [OF sample_checksum_valid, of "[1, 2, 3]"]
    by (simp add: chunk_at_def stored_def one_chunk_def Let_def drop_chunk_bytes)
qed

lemma sample_storable: "storable sample_id"
  by (simp add: storable_iff sample_id_def)

lemma new_request_id: "put_chunk_id new_request = sample_id" "in_address list_input = 42"
  by (simp_all add: new_request_def list_input_def)

lemma new_request_valid: "put_valid new_request"
  using sample_checksum_valid by (simp add: put_valid_def new_request_def ValidateId_ok_iff sample_id_def)

lemma new_request_delivered: "delivered sample_platform new_request [[9]]"
  using blake3_FinalizeHex [OF sample_laws, of "[[9]]"] by (simp add: delivered_def new_request_def blake3_checksum_def)

text \<open>First half of the download.\<close>

lemma torn_head:
  obtains s1 where "get_run sample_platform sample_store all_of_it collector (GetHead HeadStart []) one_chunk (GetOpen []) s1"
    and "quiet one_chunk s1" and "smooth s1" and "platform_ok sample_platform sample_store s1"
proof -
  obtain head s1 where h: "FileChunkStore_Head sample_platform sample_store sample_id one_chunk = (head, s1)" by fastforce
  have sm: "smooth one_chunk" by (simp add: one_chunk_def Let_def)
  have r: "reads one_chunk head s1 (head_value sample_store (fsys one_chunk) sample_id) (head_errs sample_store sample_id one_chunk)"
    using Head_reads [OF h] one_chunk_ok by (simp add: platform_ok_def)
  obtain v where v: "so_opt head = Some v"
    using readsD(5) [OF r] sm sample_storable one_chunk_at
    by (cases "so_opt head") (auto simp: head_errs_def storable_def chunk_at_def split: option.splits)
  have "resp_size v = 3" using readsD(4) [OF r v] one_chunk_at by (auto simp: head_value_iff word_unat_eq_iff)
  then have "get_ranged all_of_it head ([] :: byte list) = GetOpen []"
    using v by (simp add: get_ranged_def all_of_it_def ValidateByteRange_ok_iff)
  then have "get_run sample_platform sample_store all_of_it collector (GetHead HeadStart []) one_chunk (GetOpen []) s1"
    using get_run_head [of sample_platform sample_store all_of_it one_chunk head s1 collector "[]"] h by (simp add: all_of_it_def)
  then show ?thesis
    using that readsD(1,2) [OF r] sched_tail_smooth [OF _ sm] quiet_platform_ok [OF _ one_chunk_ok] by blast
qed

text \<open>The deletion and the upload in between.\<close>

lemma torn_between:
  assumes "quiet one_chunk s1" and "smooth s1" and ok: "platform_ok sample_platform sample_store s1"
    and d: "FileChunkStore_Delete sample_platform sample_store sample_id s1 = (dst, s2)"
    and p: "FileChunkStore_Put sample_platform sample_store new_request list_input [[9]] s2 = (pst, inp, s3)"
  shows "status_ok dst \<and> status_ok pst \<and> smooth s3 \<and> platform_ok sample_platform sample_store s3 \<and>
    chunk_at sample_store (fsys s3) sample_id = Some (blake3_checksum sample_platform [9], [9])"
proof -
  let ?t = "temp_path_of sample_platform sample_store 42 sample_id"
  have "stored sample_store (fsys s1) sample_id \<noteq> None"
    using one_chunk_at assms(1) by (auto simp: chunk_at_def quiet_def split: option.splits)
  then have dst: "status_ok dst" using Delete_smooth [OF d assms(2) sample_storable] by (simp add: status_ok_def)
  then have d2: "platform_ok sample_platform sample_store s2" "chunk_at sample_store (fsys s2) sample_id = None"
    using Delete_effect [OF d ok] by auto
  have sm: "smooth s2" using sched_tail_smooth [OF delete_tail [OF d] assms(2)] .
  have "no_chunk_name sample_store ?t" by (rule temp_no_chunk_name)
  moreover from this have "fs_dir (fsys s1) ?t = None" using assms(1) by (auto simp: quiet_def one_chunk_def Let_def no_chunk_name_def)
  moreover have "kept sample_store (PathFor sample_store sample_id) {} {} s1 s2"
    using delete_kept [OF d] ok by (simp add: platform_ok_def)
  ultimately have "fs_dir (fsys s2) ?t = None" unfolding kept_def no_chunk_name_def by metis
  moreover have "stored sample_store (fsys s2) sample_id = None"
    using d2 chunk_at_None_iff [of sample_platform sample_store "fsys s2"] by (simp add: platform_ok_def)
  moreover have dr: "drains list_input [[9]] [[9]] []" by (rule list_input_drains) (simp add: kBufferSize_def)
  ultimately have "st_code pst = kOk"
    using Put_smooth [OF p _ new_request_valid dr refl _ _ _ _ list_input_ok, unfolded new_request_id] sample_names sm new_request_delivered
    by (simp add: smooth_def off_limit_def kHeaderSize_eq)
  then have pst: "status_ok pst" by (simp add: status_ok_def)
  note sat = Put_satisfies [OF p list_input_ok d2(1)]
  obtain blocks where "drains list_input [[9]] blocks inp"
    "chunk_at sample_store (fsys s3) sample_id = Some (expected_checksum new_request, concat blocks)"
    using sat pst by (auto simp: put_spec_def put_stored_def store_view_def new_request_def)
  moreover from this(1) have "blocks = [[9]]" using drains_deterministic [OF _ dr] by blast
  moreover have "smooth s3" using Put_smooth_kept [OF p list_input_ok] sm by (simp add: smooth_def)
  ultimately show ?thesis using dst pst sat by (simp add: new_request_def)
qed

text \<open>The second half.\<close>

lemma torn_rest:
  assumes "smooth s" and ok: "platform_ok sample_platform sample_store s"
    and at: "chunk_at sample_store (fsys s) sample_id = Some (blake3_checksum sample_platform [9], [9])"
  obtains st out s' where "get_run sample_platform sample_store all_of_it collector (GetOpen []) s (GetDone st out) s'"
    and "st_code st = kCorruption"
proof -
  let ?p = "PathFor sample_store sample_id"
  obtain i where i: "fs_dir (fsys s) ?p = Some i" "length (fs_data (fsys s) i) = kHeaderSize + 1"
    using chunk_at_stored [OF at] by (metis One_nat_def length_Cons list.size(3))
  obtain raw s1 where o: "sys_open_rd ?p s = (raw, s1)" by fastforce
  have r: "0 \<le> raw" "fd_top raw (OFile i 0) (fds s) s1" "fsys s1 = fsys s" "sched_tail s s1"
    using sys_open_rd_cases [OF o] assms(1) i(1) storable_not_too_long [OF sample_storable, of sample_store] by auto
  obtain st out s2 where l: "get_loop sample_platform collector raw 3 (0 + word_of_nat kHeaderSize) [] s1 = (st, out, s2)"
    by (metis surj_pair)
  have c: "st_code st = kCorruption"
    by (rule get_loop_short [OF l r(2) refl _ _ _ sched_tail_smooth [OF r(4) assms(1)] collector_accepting])
      (use i(2) r(3) in \<open>simp_all add: kHeaderSize_eq\<close>)
  have "get_step sample_platform sample_store all_of_it collector (GetOpen []) s =
      (GetSend (ufd_make raw) 3 (0 + word_of_nat kHeaderSize) [], s1)"
    using o r(1) by (simp add: all_of_it_def)
  moreover have "get_run sample_platform sample_store all_of_it collector
      (GetSend (ufd_make raw) 3 (0 + word_of_nat kHeaderSize) []) s1 (GetReturn (ufd_make raw) st out) s2"
    by (rule get_run_loop) (use l r(1) in simp)
  ultimately have "get_run sample_platform sample_store all_of_it collector (GetOpen []) s (GetDone st out) (ufd_destroy (ufd_make raw) s2)"
    by (rule get_run_go [OF _ runs_trans [OF _ get_run_one]]) simp
  then show ?thesis using that c by blast
qed

end
