(* ===== verification/Pool_Progress.thy ===== *)
theory Pool_Progress
  imports Thread_Pools
begin

text \<open>
  Progress in a pool: executions with the scheduler's choices written down, and a bound on the
  number of steps a thread needs, whatever the others do (locale \<open>bounded_steps\<close>).
\<close>

text \<open>
  \<open>pool_exec c ls c'\<close> goes from \<open>c\<close> to \<open>c'\<close>; the entries of \<open>ls\<close>, the newest first, say which thread ran,
  or \<open>None\<close> where a thread was accepted.
\<close>

inductive pool_exec ::
  "('p \<Rightarrow> 'w \<Rightarrow> 'p \<times> 'w) \<Rightarrow> ('p \<Rightarrow> bool) \<Rightarrow> ('p \<Rightarrow> 'p \<Rightarrow> bool) \<Rightarrow>
     (nat \<Rightarrow> 'p option) \<times> 'w \<Rightarrow> nat option list \<Rightarrow> (nat \<Rightarrow> 'p option) \<times> 'w \<Rightarrow> bool" for step fresh joins c where
  idle: "pool_exec step fresh joins c [] c"
| accepted: "pool_exec step fresh joins c ls (ts, w) \<Longrightarrow> ts k = None \<Longrightarrow> fresh q \<Longrightarrow> (\<And>j p. ts j = Some p \<Longrightarrow> joins p q) \<Longrightarrow>
     pool_exec step fresh joins c (None # ls) (ts(k \<mapsto> q), w)"
| ran: "pool_exec step fresh joins c ls (ts, w) \<Longrightarrow> ts k = Some p \<Longrightarrow> step p w = (p', w') \<Longrightarrow>
     pool_exec step fresh joins c (Some k # ls) (ts(k \<mapsto> p'), w')"

lemma pool_exec_run:
  assumes "pool_exec step fresh joins c ls c'"
  shows "\<exists>cs. pool_run step fresh joins (c' # cs) \<and> last (c' # cs) = c"
  using assms
proof (induction rule: pool_exec.induct)
  case idle
  show ?case by (intro exI [of _ "[]"]) (simp add: pool_run.start)
next
  case (accepted ls ts w k q)
  then obtain cs where "pool_run step fresh joins ((ts, w) # cs)" "last ((ts, w) # cs) = c" by blast
  moreover have "pool_step step fresh joins (ts, w) (ts(k \<mapsto> q), w)" by (rule pool_step.accept) (use accepted(2-4) in simp_all)
  ultimately show ?case by (metis last_ConsR list.distinct(1) pool_run.continue)
next
  case (ran ls ts w k p p' w')
  then obtain cs where "pool_run step fresh joins ((ts, w) # cs)" "last ((ts, w) # cs) = c" by blast
  moreover have "pool_step step fresh joins (ts, w) (ts(k \<mapsto> p'), w')" by (rule pool_step.run) (use ran(2,3) in simp_all)
  ultimately show ?case by (metis last_ConsR list.distinct(1) pool_run.continue)
qed

lemma count_list_replicate [simp]: "count_list (replicate n x) x = n"
  by (induction n) simp_all

text \<open>The scheduler may let one thread run for as long as it likes.\<close>

lemma pool_exec_alone:
  assumes "ts k = Some p"
  shows "\<exists>p' w'. pool_exec step fresh joins (ts, w) (replicate n (Some k)) (ts(k \<mapsto> p'), w')"
proof (induction n)
  case 0
  have "ts(k \<mapsto> p) = ts" using assms by auto
  then show ?case using pool_exec.idle by (metis replicate_0)
next
  case (Suc n)
  then obtain p' w' where e: "pool_exec step fresh joins (ts, w) (replicate n (Some k)) (ts(k \<mapsto> p'), w')" by blast
  obtain p1 w1 where "step p' w' = (p1, w1)" by fastforce
  then have "pool_exec step fresh joins (ts, w) (Some k # replicate n (Some k)) ((ts(k \<mapsto> p'))(k \<mapsto> p1), w1)"
    by (intro pool_exec.ran [OF e]) simp_all
  then show ?case by (metis fun_upd_upd replicate_Suc)
qed

text \<open>What no step of a thread changes stays the same in an execution.\<close>

lemma pool_exec_keeps:
  assumes "pool_exec step fresh joins (ts0, w0) ls c" and "ts0 k = Some p0"
    and "\<And>p w p' w'. step p w = (p', w') \<Longrightarrow> tag p' = tag p"
  shows "\<exists>p. fst c k = Some p \<and> tag p = tag p0"
  using assms(1) by (induction rule: pool_exec.induct) (use assms(2,3) in \<open>auto split: if_splits\<close>)

locale bounded_steps =
  fixes step :: "'p \<Rightarrow> 'w \<Rightarrow> 'p \<times> 'w"
    and rank :: "'p \<Rightarrow> nat"
    and fuel :: "'w \<Rightarrow> nat"
    and finished :: "'p \<Rightarrow> bool"
  assumes spend_law: "step p w = (p', w') \<Longrightarrow> fuel w' \<le> fuel w"
    and progress_law: "step p w = (p', w') \<Longrightarrow> \<not> finished p \<Longrightarrow> rank p' + fuel w' < rank p + fuel w"
    and rest_law: "step p w = (p', w') \<Longrightarrow> finished p \<Longrightarrow> finished p'"
begin

lemma steps_left:
  assumes "pool_exec step fresh joins (ts0, w0) ls c" and "ts0 k = Some p0"
  shows "\<exists>p. fst c k = Some p \<and> (finished p \<or> rank p + fuel (snd c) + count_list ls (Some k) \<le> rank p0 + fuel w0)"
  using assms(1)
proof (induction rule: pool_exec.induct)
  case idle
  then show ?case using assms(2) by simp
next
  case (accepted ls ts w j q)
  then show ?case by auto
next
  case (ran ls ts w j p p' w')
  then obtain p1 where p1: "ts k = Some p1" "finished p1 \<or> rank p1 + fuel w + count_list ls (Some k) \<le> rank p0 + fuel w0" by auto
  show ?case
  proof (cases "j = k")
    case True
    then have "p1 = p" using p1(1) ran.hyps(2) by simp
    then show ?thesis using True p1(2) progress_law [OF ran.hyps(3)] rest_law [OF ran.hyps(3)] by fastforce
  next
    case False
    then show ?thesis using p1 spend_law [OF ran.hyps(3)] by auto
  qed
qed

text \<open>A thread that was given enough steps has finished.\<close>

lemma wait_free:
  assumes "pool_exec step fresh joins (ts0, w0) ls (ts, w)" and "ts0 k = Some p0" and "count_list ls (Some k) \<ge> rank p0 + fuel w0"
  shows "\<exists>p. ts k = Some p \<and> finished p"
proof -
  obtain p where p: "ts k = Some p" "finished p \<or> rank p + fuel w + count_list ls (Some k) \<le> rank p0 + fuel w0"
    using steps_left [OF assms(1,2)] by auto
  have "finished p"
  proof (rule ccontr)
    assume n: "\<not> finished p"
    obtain p' w' where "step p w = (p', w')" by fastforce
    from progress_law [OF this n] p(2) n assms(3) show False by simp
  qed
  then show ?thesis using p(1) by blast
qed

end

end
