(* ===== verification/Call_Bounds.thy ===== *)
theory Call_Bounds
  imports Torn_Read Pool_Progress
begin

text \<open>
  How many steps a call of the worker needs: a bound for every point of \<open>Put\<close>, \<open>Delete\<close>, \<open>Head\<close> and
  \<open>Get\<close>, which each step of the call lowers unless it was interrupted, and then the schedule of
  failures has become shorter. So the calls are wait-free: the code has no lock, and no thread can
  keep another from finishing.
\<close>

section \<open>Bounds\<close>

fun put_rank :: "PutChunkRequest \<Rightarrow> ('h, 's) put_pc \<Rightarrow> nat" where
  "put_rank req (PutStart inp) = 3 * unat (expected_size req) + length (MakeHeader (expected_size req) (expected_checksum req)) + 12"
| "put_rank req (PutOpen inp) = 3 * unat (expected_size req) + length (MakeHeader (expected_size req) (expected_checksum req)) + 11"
| "put_rank req (PutHeader fd written inp) =
     3 * unat (expected_size req) + (length (MakeHeader (expected_size req) (expected_checksum req)) - written) + 10"
| "put_rank req (PutReceive fd received hasher inp) = 3 * unat (expected_size req - received) + 9"
| "put_rank req (PutWrite fd received hasher bytes written inp) =
     3 * unat (expected_size req - (received + word_of_nat (length bytes))) + (length bytes - written) + 10"
| "put_rank req (PutSync fd inp) = 8"
| "put_rank req (PutClose fd inp) = 7"
| "put_rank req (PutLink fd inp) = 6"
| "put_rank req (PutRefused fd link_error inp) = 2"
| "put_rank req (PutCommitted fd inp) = 5"
| "put_rank req (PutOpenDir fd inp) = 4"
| "put_rank req (PutSyncDir fd directory_fd inp) = 3"
| "put_rank req (PutCloseDir fd directory_fd status inp) = 2"
| "put_rank req (PutCleanup fd status inp) = 2"
| "put_rank req (PutReturn fd status inp) = 1"
| "put_rank req (PutDone status inp) = 0"

fun head_rank :: "head_pc \<Rightarrow> nat" where
  "head_rank HeadStart = kHeaderSize + 4"
| "head_rank (HeadRead fd header) = kHeaderSize - length header + 3"
| "head_rank (HeadStat fd header) = 2"
| "head_rank (HeadClose fd res) = 1"
| "head_rank (HeadDone res) = 0"

fun get_rank :: "GetChunkRequest \<Rightarrow> 'o get_pc \<Rightarrow> nat" where
  "get_rank req (GetHead pc out) = head_rank pc + unat (range_size (get_range req)) + 4"
| "get_rank req (GetOpen out) = unat (range_size (get_range req)) + 3"
| "get_rank req (GetSend fd remaining offset out) = unat remaining + 2"
| "get_rank req (GetReturn fd status out) = 1"
| "get_rank req (GetDone status out) = 0"

fun thread_rank :: "('h, 's, 'o) thread \<Rightarrow> nat" where
  "thread_rank (PutThread req I inp0 pc e) = put_rank req pc"
| "thread_rank (DeleteThread cid st e) = (if st = None then 1 else 0)"
| "thread_rank (HeadThread cid pc e) = head_rank pc"
| "thread_rank (GetThread req O' out0 pc e) = get_rank req pc"

fun thread_done :: "('h, 's, 'o) thread \<Rightarrow> bool" where
  "thread_done (PutThread req I inp0 pc e) \<longleftrightarrow> \<not> put_live pc"
| "thread_done (DeleteThread cid st e) \<longleftrightarrow> st \<noteq> None"
| "thread_done (HeadThread cid pc e) \<longleftrightarrow> head_halted pc"
| "thread_done (GetThread req O' out0 pc e) \<longleftrightarrow> (\<exists>st out. pc = GetDone st out)"

section \<open>Every step counts\<close>

text \<open>A step to \<open>n\<close> from \<open>m\<close>: lower, or not higher with a shorter schedule.\<close>

definition counts :: "nat \<Rightarrow> os \<Rightarrow> nat \<Rightarrow> os \<Rightarrow> bool" where
  "counts m s n s' \<longleftrightarrow> length (sched s') \<le> length (sched s) \<and> n + length (sched s') < m + length (sched s)"

lemma counts_tail: "sched_tail s s' \<Longrightarrow> n < m \<Longrightarrow> counts m s n s'"
  by (auto simp: counts_def sched_tail_def)

lemma write_turn_counts:
  assumes "write_turn P fd bs w s = (Inr w', s')" and "w < length bs"
  shows "counts (length bs - w) s (length bs - w') s'"
  using assms sys_write_sched [of fd "drop w bs" s]
  by (fastforce simp: write_turn_def counts_def split: prod.splits if_splits)

lemma put_received_rank:
  "put_rank req (put_received P req fd received hasher count inp) < put_rank req (PutReceive fd received hasher inp)"
proof (cases "so_opt count")
  case (Some bytes)
  show ?thesis
  proof (cases "bytes = [] \<or> length bytes > kBufferSize \<or> received > expected_size req \<or> word_of_nat (length bytes) > expected_size req - received")
    case True
    then show ?thesis using Some by (auto simp: put_received_def)
  next
    case False
    let ?d = "expected_size req - received" and ?n = "word_of_nat (length bytes) :: u64"
    have n: "unat ?n = length bytes" using False by (intro unat_of_nat_u64) (simp add: kBufferSize_def)
    have le: "?n \<le> ?d" using False by (auto simp: not_less)
    then have "unat (?d - ?n) = unat ?d - length bytes" using n by (simp add: unat_sub)
    moreover have "length bytes \<le> unat ?d" using le n by (simp add: word_le_nat_alt)
    ultimately have "unat (expected_size req - (received + ?n)) + length bytes = unat ?d" by (simp add: diff_diff_eq)
    moreover have "0 < length bytes" using False by simp
    ultimately have "3 * unat (expected_size req - (received + ?n)) + length bytes + 10 < 3 * unat ?d + 9" by linarith
    then show ?thesis using Some False by (simp add: put_received_def)
  qed
qed (simp add: put_received_def)


lemma put_step_counts:
  assumes "put_step P store req I pc s = (pc', s')" and "put_live pc"
  shows "counts (put_rank req pc) s (put_rank req pc') s'"
proof -
  note tl = put_step_tail [OF assms(1)]
  show ?thesis
  proof (cases pc)
    case (PutHeader fd written inp)
    let ?h = "MakeHeader (expected_size req) (expected_checksum req)"
    obtain r s1 where w: "write_turn P (ufd_get fd) ?h written s = (r, s1)" by fastforce
    show ?thesis
    proof (cases "written < length ?h")
      case True
      then show ?thesis using assms(1) PutHeader w tl write_turn_counts [of P "ufd_get fd" ?h written s]
        by (cases r) (auto simp: Let_def counts_def sched_tail_def)
    next
      case False
      then show ?thesis using assms(1) PutHeader by (auto simp: Let_def counts_def)
    qed
  next
    case (PutWrite fd received hasher bytes written inp)
    obtain r s1 where w: "write_turn P (ufd_get fd) bytes written s = (r, s1)" by fastforce
    show ?thesis
    proof (cases "written < length bytes")
      case True
      then show ?thesis using assms(1) PutWrite w tl write_turn_counts [of P "ufd_get fd" bytes written s]
        by (cases r) (auto simp: counts_def sched_tail_def)
    next
      case False
      then show ?thesis using assms(1) PutWrite by (auto simp: counts_def)
    qed
  next
    case (PutReceive fd received hasher inp)
    then show ?thesis using assms(1) tl put_received_rank [of req P fd received hasher]
      by (auto intro!: counts_tail split: prod.splits)
  qed (use assms tl in \<open>auto intro!: counts_tail simp: Let_def split: prod.splits if_splits option.splits\<close>)
qed

lemma pread_turn_counts:
  assumes "pread_turn P fd n off s = (r, s')"
  shows "length (sched s') \<le> length (sched s)" and "r = None \<Longrightarrow> length (sched s') < length (sched s)"
    and "r = Some res \<Longrightarrow> so_opt res = Some bs \<Longrightarrow> length bs \<le> n"
proof -
  obtain a b s1 where p: "sys_pread fd n (unat off) s = ((a, b), s1)" by (metis surj_pair)
  show "length (sched s') \<le> length (sched s)" using pread_turn_shared [OF assms] by (auto simp: sched_tail_def)
  show "length (sched s') < length (sched s)" if "r = None"
    using assms that p sys_pread_sched [OF p] by (auto simp: pread_turn_def split: if_splits)
  have "length b \<le> n" using p
    by (auto simp: sys_pread_def cut_def Let_def split: prod.splits outcome.splits option.splits ofile.splits)
  then show "length bs \<le> n" if "r = Some res" "so_opt res = Some bs"
    using assms that p by (auto simp: pread_turn_def split: if_splits)
qed

lemma open_rd_tail: "sys_open_rd p s = (raw, s') \<Longrightarrow> sched_tail s s'"
  using sys_open_rd_cases by blast

lemma head_step_counts:
  assumes "head_step P store cid pc s = (pc', s')" and "\<not> head_halted pc"
  shows "counts (head_rank pc) s (head_rank pc') s'"
proof (cases pc)
  case HeadStart
  then show ?thesis using assms(1) open_rd_tail
    by (auto intro!: counts_tail simp: Let_def split: prod.splits if_splits)
next
  case (HeadRead fd header)
  obtain r s1 where p: "pread_turn P (ufd_get fd) (kHeaderSize - length header) (word_of_nat (length header)) s = (r, s1)" by fastforce
  show ?thesis
  proof (cases "length header < kHeaderSize")
    case True
    then show ?thesis using assms(1) HeadRead p pread_turn_counts(1,2) [OF p]
      by (cases r) (auto simp: counts_def head_received_def neq_Nil_conv split: option.splits if_splits)
  next
    case False
    then show ?thesis using assms(1) HeadRead by (auto simp: counts_def head_checked_def)
  qed
next
  case (HeadStat fd header)
  then show ?thesis using assms(1) sys_fstat_shared by (auto intro!: counts_tail split: prod.splits)
next
  case (HeadClose fd res)
  then show ?thesis using assms(1) destroy_tail by (auto intro!: counts_tail)
qed (use assms(2) in simp)


lemma get_step_counts:
  assumes "get_step P store req O' pc s = (pc', s')" and "\<nexists>st out. pc = GetDone st out"
  shows "counts (get_rank req pc) s (get_rank req pc') s'"
proof (cases pc)
  case (GetHead hp out)
  show ?thesis
  proof (cases "head_halted hp")
    case True
    then obtain head where "hp = HeadDone head" by (cases hp) auto
    then show ?thesis using assms(1) GetHead by (auto simp: get_ranged_def counts_def split: option.splits)
  next
    case False
    obtain hp' s1 where h: "head_step P store (get_chunk_id req) hp s = (hp', s1)" by fastforce
    then show ?thesis using assms(1) GetHead head_step_counts [OF h False] get_step_head [OF False, of P store req O' out s]
      by (auto simp: counts_def)
  qed
next
  case (GetOpen out)
  then show ?thesis using assms(1) open_rd_tail by (auto intro!: counts_tail simp: Let_def split: prod.splits if_splits)
next
  case (GetSend fd remaining offset out)
  obtain r s1 where p: "pread_turn P (ufd_get fd) (min (unat remaining) kBufferSize) offset s = (r, s1)" by fastforce
  show ?thesis
  proof (cases "remaining > 0")
    case pos: True
    show ?thesis
    proof (cases r)
      case None
      then show ?thesis using assms(1) GetSend p pos pread_turn_counts(2) [OF p] by (auto simp: counts_def)
    next
      case (Some res)
      have "get_rank req (get_received O' fd remaining offset res out) < unat remaining + 2"
      proof (cases "so_opt res")
        case v: (Some bs)
        have "unat (remaining - word_of_nat (length bs)) < unat remaining" if "bs \<noteq> []"
          by (rule get_loop_decreases(2)) (use that pread_turn_counts(3) [OF p Some v] in simp_all)
        then show ?thesis using v by (auto simp: get_received_def split: prod.splits)
      qed (simp add: get_received_def)
      then show ?thesis using assms(1) GetSend p pos Some pread_turn_counts(1) [OF p] by (auto simp: counts_def)
    qed
  next
    case False
    then show ?thesis using assms(1) GetSend by (auto simp: counts_def)
  qed
next
  case (GetReturn fd st out)
  then show ?thesis using assms(1) destroy_tail by (auto intro!: counts_tail)
qed (use assms(2) in simp)

lemma thread_step_counts:
  assumes "thread_step P store p s = (p', s')" and "\<not> thread_done p"
  shows "counts (thread_rank p) s (thread_rank p') s'"
proof -
  have e: "counts m (s\<lparr>os_errno := x\<rparr>) n t \<longleftrightarrow> counts m s n t" for m n x t by (simp add: counts_def)
  show ?thesis
  proof (cases p)
    case (PutThread req I inp0 pc x)
    then show ?thesis using assms put_step_counts [of P store req I pc "s\<lparr>os_errno := x\<rparr>"] by (auto simp: e split: prod.splits)
  next
    case (DeleteThread cid st x)
    then show ?thesis using assms delete_tail [of P store cid "s\<lparr>os_errno := x\<rparr>"]
      by (auto simp: sched_tail_errno intro!: counts_tail split: prod.splits)
  next
    case (HeadThread cid pc x)
    then show ?thesis using assms head_step_counts [of P store cid pc "s\<lparr>os_errno := x\<rparr>"] by (auto simp: e split: prod.splits)
  next
    case (GetThread req O' out0 pc x)
    then show ?thesis using assms get_step_counts [of P store req O' pc "s\<lparr>os_errno := x\<rparr>"] by (auto simp: e split: prod.splits)
  qed
qed

lemma thread_done_step:
  assumes "thread_step P store p s = (p', s')" and "thread_done p"
  shows "thread_done p' \<and> sched s' = sched s"
proof (cases p)
  case (PutThread req I inp0 pc e)
  then show ?thesis using assms by (auto simp: put_dead)
next
  case (DeleteThread cid st e)
  then show ?thesis using assms by auto
next
  case (HeadThread cid pc e)
  then show ?thesis using assms by (auto simp: head_halted_step)
next
  case (GetThread req O' out0 pc e)
  then show ?thesis using assms by auto
qed

interpretation calls: bounded_steps "thread_step P store" thread_rank "\<lambda>s. length (sched s)" thread_done for P store
proof
  fix p p' :: "('a, 'b, 'c) thread" and s s' :: os
  assume st: "thread_step P store p s = (p', s')"
  show "length (sched s') \<le> length (sched s)"
    using thread_step_counts [OF st] thread_done_step [OF st] by (cases "thread_done p") (simp_all add: counts_def)
  show "thread_rank p' + length (sched s') < thread_rank p + length (sched s)" if "\<not> thread_done p"
    using thread_step_counts [OF st that] by (simp add: counts_def)
  show "thread_done p'" if "thread_done p" using thread_done_step [OF st that] by blast
qed

section \<open>Calls stay what they are\<close>

text \<open>The call a thread serves, as it was accepted.\<close>

fun thread_call :: "('h, 's, 'o) thread \<Rightarrow> ('h, 's, 'o) thread" where
  "thread_call (PutThread req I inp0 pc e) = PutThread req I inp0 (PutStart inp0) (Errno 0)"
| "thread_call (DeleteThread cid st e) = DeleteThread cid None (Errno 0)"
| "thread_call (HeadThread cid pc e) = HeadThread cid HeadStart (Errno 0)"
| "thread_call (GetThread req O' out0 pc e) = GetThread req O' out0 (GetHead HeadStart out0) (Errno 0)"

lemma thread_step_call: "thread_step P store p s = (p', s') \<Longrightarrow> thread_call p' = thread_call p"
  by (cases "(P, store, p, s)" rule: thread_step.cases) (auto split: prod.splits)

lemma call_returns:
  assumes "pool_exec (thread_step P store) thread_fresh thread_joins (ts0, s0) ls (ts, s)" and "ts0 k = Some p"
    and "count_list ls (Some k) \<ge> thread_rank p + length (sched s0)"
  shows "\<exists>p'. ts k = Some p' \<and> thread_done p' \<and> thread_call p' = thread_call p"
  using calls.wait_free [OF assms] pool_exec_keeps [OF assms(1,2) thread_step_call] by auto

lemma get_returns:
  assumes "pool_exec (thread_step P store) thread_fresh thread_joins (ts0, s0) ls (ts, s)"
    and "ts0 k = Some (GetThread req O' out0 (GetHead HeadStart out0) e0)"
    and "count_list ls (Some k) \<ge> kHeaderSize + unat (range_size (get_range req)) + 8 + length (sched s0)"
  obtains st out e where "ts k = Some (GetThread req O' out0 (GetDone st out) e)"
proof -
  obtain p' where p': "ts k = Some p'" "thread_done p'" "thread_call p' = GetThread req O' out0 (GetHead HeadStart out0) (Errno 0)"
    using call_returns [OF assms(1,2)] assms(3) by auto
  then show ?thesis using that by (cases p') auto
qed

end
