(* ===== verification/Concurrent_Properties.thy ===== *)
theory Concurrent_Properties
  imports Call_Bounds
begin

text \<open>
  What the worker promises when calls overlap: every step of every interleaving is, seen through
  the stored chunks, an atomic insertion, an atomic removal or nothing; of several uploads of one
  identifier at most one succeeds, and what it stored stays; \<open>Get\<close> and \<open>Head\<close> answer from a chunk that
  was stored during the call; no descriptor is lost. And what it does not promise: a download that
  is overtaken by a deletion and a new upload may report a corruption that nothing stored has.
\<close>

section \<open>A sample pool\<close>

definition sample_thread :: "(byte list, byte list list, byte list) thread" where
  "sample_thread = PutThread sample_request list_input [[1, 2], [3]] (PutStart [[1, 2], [3]]) (os_errno sample_os)"

definition sample_finished :: "nat \<Rightarrow> (byte list, byte list list, byte list) thread option" where
  "sample_finished = [0 \<mapsto> PutThread sample_request list_input [[1, 2], [3]]
     (PutDone (fst sample_put) (fst (snd sample_put))) (os_errno sample_stored)]"

lemma sample_pool_start:
  "pool_reach (thread_step sample_platform sample_store) thread_fresh thread_joins sample_os [0 \<mapsto> sample_thread] sample_os"
  by (rule pool_reach.more [OF pool_reach.empty pool_step.accept]) (simp_all add: sample_thread_def list_input_ok)

lemma sample_pool_finished:
  "pool_reach (thread_step sample_platform sample_store) thread_fresh thread_joins sample_os sample_finished sample_stored"
  unfolding sample_finished_def
  by (rule pool_reach_alone [OF put_thread_run [OF put_run_Put [OF sample_put_eq]] sample_pool_start [unfolded sample_thread_def]])

lemma sample_inv: "store_inv sample_platform sample_store (fsys sample_os)"
  using sample_platform_ok by (simp add: platform_ok_def)

section \<open>Every step is atomic\<close>

text \<open>
  C5: linearisability. In the worker, uploads, deletions and reads run on several threads that
  interleave at every system call, any of which may fail. Whatever the interleaving has been, a further
  step leaves every chunk name bound to a complete file with a correct digest, also after a
  crash, and it changes the stored chunks in one of three ways: not at all; by the complete
  contents that the stream of an upload delivered, under its free identifier, when that upload
  passes its \<open>link\<close>; or by the removal of one existing chunk, when its deletion returns OK.
\<close>

theorem concurrent_atomic:
  assumes "pool_reach (thread_step P store) thread_fresh thread_joins s0 ts s"
    and "pool_step (thread_step P store) thread_fresh thread_joins (ts, s) (ts', s')"
    and "blake3_laws P" and "store_inv P store (fsys s0)"
  shows "store_inv P store (fsys s') \<and> (\<forall>g. crash (fsys s') g \<longrightarrow> store_inv P store g) \<and>
    (chunk_at store (fsys s') = chunk_at store (fsys s) \<or>
     (\<exists>k req I inp0 inp u e e' ds.
        ts k = Some (PutThread req I inp0 (PutLink u inp) e) \<and> ts' k = Some (PutThread req I inp0 (PutCommitted u inp) e') \<and>
        drains I inp0 ds inp \<and> chunk_at store (fsys s) (put_chunk_id req) = None \<and>
        length (concat ds) = unat (expected_size req) \<and> expected_checksum req = blake3_checksum P (concat ds) \<and>
        chunk_at store (fsys s') =
          (chunk_at store (fsys s))(put_chunk_id req \<mapsto> (expected_checksum req, concat ds))) \<or>
     (\<exists>k cid st e e'. ts k = Some (DeleteThread cid None e) \<and> ts' k = Some (DeleteThread cid (Some st) e') \<and> status_ok st \<and>
        chunk_at store (fsys s) cid \<noteq> None \<and> chunk_at store (fsys s') = (chunk_at store (fsys s))(cid := None)))"
    (is "_ \<and> _ \<and> (?same \<or> ?put \<or> ?del)")
proof -
  have sh0: "thread_shared P store s0" using assms(3,4) by (simp add: thread_shared_def)
  have inv: "pool.pool_inv P store ts s" by (rule pool.pool_inv_reach [OF assms(1) sh0])
  have inv': "pool.pool_inv P store ts' s'" by (rule pool.pool_inv_reach [OF pool_reach.more [OF assms(1,2)] sh0])
  have sh: "thread_shared P store s" "store_inv P store (fsys s)" "store_inv P store (fsys s')"
    using inv inv' unfolding pool.pool_inv_def thread_shared_def by auto
  have "?same \<or> ?put \<or> ?del"
    using assms(2)
  proof (cases rule: pool_step.cases)
    case (accept k q)
    then show ?thesis by simp
  next
    case (run k p p')
    have "thread_own P store p s" using inv run(2) unfolding pool.pool_inv_def by blast
    from sh(1) this run(3) show ?thesis
    proof (cases rule: thread_effect)
      case same
      then have ?same by (rule chunk_at_cong)
      then show ?thesis by blast
    next
      case (put req I inp0 pc pc' e e')
      have "ts k = Some (PutThread req I inp0 pc e)" "ts' k = Some (PutThread req I inp0 pc' e')" using run(1,2) put by simp_all
      then have ?put by - (rule commits_view [OF put(3) assms(3) sh(2)], blast)
      then show ?thesis by blast
    next
      case (delete cid st e e')
      have "ts k = Some (DeleteThread cid None e)" "ts' k = Some (DeleteThread cid (Some st) e')" using run(1,2) delete by simp_all
      then have ?del using delete(3) delete_view [OF sh(2) delete(4,5)] by blast
      then show ?thesis by blast
    qed
  qed
  then show ?thesis using sh(3) store_inv_crash [OF sh(3)] by blast
qed

theorem concurrent_atomic_witness:
  "store_inv sample_platform sample_store (fsys (snd (thread_step sample_platform sample_store sample_thread sample_os)))"
proof -
  let ?r = "thread_step sample_platform sample_store sample_thread sample_os"
  have "pool_step (thread_step sample_platform sample_store) thread_fresh thread_joins ([0 \<mapsto> sample_thread], sample_os)
      ([0 \<mapsto> sample_thread, 0 \<mapsto> fst ?r], snd ?r)" by (rule pool_step.run) simp_all
  from concurrent_atomic [OF sample_pool_start this sample_laws sample_inv] show ?thesis by blast
qed

section \<open>One upload wins\<close>

text \<open>
  C6: concurrent uploads of one identifier. As long as nobody asks to delete the chunk, of any number
  of overlapping uploads under one identifier at most one returns OK. When it has, the chunk is
  exactly what its stream delivered, with the announced size and digest, and stays so whatever
  the other threads do and also after a crash.
\<close>

theorem concurrent_put_once:
  assumes "pool_reach (thread_step P store) thread_fresh thread_joins s0 ts s"
    and "blake3_laws P" and "store_inv P store (fsys s0)"
    and "ts k = Some (PutThread req I inp0 (PutDone st inp) e)" and "status_ok st"
    and "\<And>j dst de. ts j \<noteq> Some (DeleteThread (put_chunk_id req) dst de)"
  shows "(\<forall>j req' I' inp0' st' inp' e'. ts j = Some (PutThread req' I' inp0' (PutDone st' inp') e') \<and>
      put_chunk_id req' = put_chunk_id req \<and> status_ok st' \<longrightarrow> j = k) \<and>
    (\<exists>ds inp1. drains I inp0 ds inp1 \<and> length (concat ds) = unat (expected_size req) \<and>
       chunk_at store (fsys s) (put_chunk_id req) = Some (blake3_checksum P (concat ds), concat ds) \<and>
       (\<forall>g. crash (fsys s) g \<longrightarrow> chunk_at store g (put_chunk_id req) = Some (blake3_checksum P (concat ds), concat ds)))"
  by (rule winner_stored [OF assms])

theorem concurrent_put_once_witness:
  "\<exists>ds. chunk_at sample_store (fsys sample_stored) sample_id = Some (blake3_checksum sample_platform (concat ds), concat ds)"
proof -
  have "sample_finished 0 = Some (PutThread sample_request list_input [[1, 2], [3]]
      (PutDone (fst sample_put) (fst (snd sample_put))) (os_errno sample_stored))"
    "\<And>j dst de. sample_finished j \<noteq> Some (DeleteThread (put_chunk_id sample_request) dst de)"
    by (auto simp: sample_finished_def)
  from concurrent_put_once [OF sample_pool_finished sample_laws sample_inv this(1) sample_put_ok this(2)]
  show ?thesis by (auto simp: sample_request_def)
qed

section \<open>Reading\<close>

text \<open>
  C7: downloads beside uploads and deletions. From its acceptance to its end a \<open>Get\<close> may overlap with
  any other calls, also ones that delete its chunk and upload another one under the same
  identifier, and any system call may fail. If anything has gone to the client, there was a
  moment during the call at which the identifier had a chunk, with a correct digest, whose requested
  range was sent from its start in order, in blocks of at most 3 MiB: all of it, and from within
  the chunk, if the answer is OK. So a download never mixes two chunks, and an error that came
  before the transfer sent nothing.
\<close>

theorem concurrent_get:
  assumes "pool_reach (thread_step P store) thread_fresh thread_joins s0 ts0 s1" and "blake3_laws P" and "store_inv P store (fsys s0)"
    and "sizes_ok (fsys s0)" and "pool_run (thread_step P store) thread_fresh thread_joins cs" and "last cs = (ts0, s1)" and "hd cs = (ts, s)"
    and "ts0 k = Some (GetThread req O' out0 (GetHead HeadStart out0) e0)" and "ts k = Some (GetThread req O' out0 (GetDone st out) e)"
  shows "(out = out0 \<and> \<not> status_ok st) \<or>
    (\<exists>ts' s' payload blocks. (ts', s') \<in> set cs \<and>
       chunk_at store (fsys s') (get_chunk_id req) = Some (blake3_checksum P payload, payload) \<and>
       out = feed O' out0 blocks \<and> pieces blocks (range_of (get_range req) payload) (status_ok st) \<and>
       (status_ok st \<longrightarrow> unat (range_offset (get_range req)) + unat (range_size (get_range req)) \<le> length payload))"
proof -
  have sh: "thread_shared P store s0" using assms(2,3) by (simp add: thread_shared_def)
  have inv: "pool.pool_inv P store (fst (last cs)) (snd (last cs))" using pool.pool_inv_reach [OF assms(1) sh] assms(6) by simp
  have r: "get_result (smooth s1) (moments store (get_chunk_id req) cs) req O' out0 st out" by (rule get_call [OF assms(1) sh assms(4-9)])
  show ?thesis
  proof (cases "out = out0 \<and> \<not> status_ok st")
    case False
    then obtain d blocks where d: "whole (moments store (get_chunk_id req) cs) d" "out = feed O' out0 blocks"
      "pieces blocks (file_range (get_range req) d) (status_ok st)" "status_ok st \<longrightarrow> in_range (get_range req) d"
      using r unfolding get_result_def by blast
    have p: "pieces blocks (range_of (get_range req) (drop kHeaderSize d)) (status_ok st)" using d(3) by (simp add: file_range_def)
    have len: "status_ok st \<longrightarrow> unat (range_offset (get_range req)) + unat (range_size (get_range req)) \<le> length (drop kHeaderSize d)"
      using d(4) by (auto simp: in_range_def)
    show ?thesis by (rule whole_moment [OF d(1) assms(5) inv]) (use d(2) p len in blast)
  qed simp
qed

lemma sample_get_run:
  obtains cs where "pool_run (thread_step sample_platform sample_store) thread_fresh thread_joins cs"
    and "last cs = ([0 \<mapsto> GetThread all_of_it collector [] (GetHead HeadStart []) (os_errno sample_stored)], sample_stored)"
    and "hd cs = ([0 \<mapsto> GetThread all_of_it collector [] (GetDone (fst full_get) (fst (snd full_get))) (os_errno (snd (snd full_get)))],
      snd (snd full_get))"
proof -
  have "get_run sample_platform sample_store all_of_it collector (GetHead HeadStart []) sample_stored
      (GetDone (fst full_get) (fst (snd full_get))) (snd (snd full_get))"
    unfolding all_of_it_def by (rule get_run_Get [OF full_get_eq])
  from pool_run_alone [OF get_thread_run [OF this] pool_run.start list.sel(1)] show ?thesis using that by fastforce
qed

lemma sample_get_start:
  "pool_reach (thread_step sample_platform sample_store) thread_fresh thread_joins sample_stored
     [0 \<mapsto> GetThread all_of_it collector [] (GetHead HeadStart []) (os_errno sample_stored)] sample_stored"
  by (rule pool_reach.more [OF pool_reach.empty pool_step.accept]) simp_all

lemma stored_inv: "store_inv sample_platform sample_store (fsys sample_stored)" "sizes_ok (fsys sample_stored)"
  using sample_stored_ok by (simp_all add: platform_ok_def)

theorem concurrent_get_witness:
  "\<exists>(s' :: os) payload blocks. chunk_at sample_store (fsys s') sample_id = Some (blake3_checksum sample_platform payload, payload) \<and>
     fst (snd full_get) = feed collector [] blocks \<and> pieces blocks (range_of (get_range all_of_it) payload) True"
proof -
  obtain cs where cs: "pool_run (thread_step sample_platform sample_store) thread_fresh thread_joins cs"
    "last cs = ([0 \<mapsto> GetThread all_of_it collector [] (GetHead HeadStart []) (os_errno sample_stored)], sample_stored)"
    "hd cs = ([0 \<mapsto> GetThread all_of_it collector [] (GetDone (fst full_get) (fst (snd full_get))) (os_errno (snd (snd full_get)))],
      snd (snd full_get))" by (rule sample_get_run)
  have "get_chunk_id all_of_it = sample_id" by (simp add: all_of_it_def)
  with concurrent_get [OF sample_get_start sample_laws stored_inv cs fun_upd_same fun_upd_same] full_get_ok
  obtain s' :: os and payload blocks where "chunk_at sample_store (fsys s') sample_id = Some (blake3_checksum sample_platform payload, payload)"
    "fst (snd full_get) = feed collector [] blocks" "pieces blocks (range_of (get_range all_of_it) payload) (status_ok (fst full_get))"
    by metis
  then show ?thesis using full_get_ok by (metis (full_types))
qed

text \<open>
  C8: a chunk that nobody deletes can be read whatever else goes on. If no system call fails, the client
  takes the data, and no deletion of the chunk has been asked for meanwhile, then a \<open>Get\<close> of a
  chunk that was there at its start returns as soon as the scheduler has given its thread as many steps as
  the range has bytes, and a constant. It has sent exactly the requested range if that lies in the
  chunk, and otherwise nothing, with the error of the validation; uploads, also of the same identifier,
  deletions of others and other readers make no difference.
\<close>

theorem concurrent_get_stable:
  assumes "pool_reach (thread_step P store) thread_fresh thread_joins s0 ts0 s1" and "blake3_laws P" and "store_inv P store (fsys s0)"
    and "sizes_ok (fsys s0)" and "pool_exec (thread_step P store) thread_fresh thread_joins (ts0, s1) ls (ts, s)"
    and "ts0 k = Some (GetThread req O' out0 (GetHead HeadStart out0) e0)"
    and "count_list ls (Some k) \<ge> kHeaderSize + unat (range_size (get_range req)) + 8 + length (sched s1)"
    and "smooth s1" and "accepting O'" and "storable (get_chunk_id req)" and at: "chunk_at store (fsys s1) (get_chunk_id req) = Some (c, payload)"
    and "\<And>j dst de. ts j \<noteq> Some (DeleteThread (get_chunk_id req) dst de)"
  shows "\<exists>st out e. ts k = Some (GetThread req O' out0 (GetDone st out) e) \<and>
   (if unat (range_offset (get_range req)) + unat (range_size (get_range req)) \<le> length payload
    then status_ok st \<and> (\<exists>blocks. out = feed O' out0 blocks \<and> pieces blocks (range_of (get_range req) payload) True)
    else out = out0 \<and> \<not> status_ok st \<and> st = ValidateByteRange (get_range req) (word_of_nat (length payload)))"
proof -
  let ?cid = "get_chunk_id req" and ?rg = "get_range req"
  obtain st out e where fin: "ts k = Some (GetThread req O' out0 (GetDone st out) e)" by (rule get_returns [OF assms(5,6,7)])
  obtain cs' where cs: "pool_run (thread_step P store) thread_fresh thread_joins ((ts, s) # cs')" "last ((ts, s) # cs') = (ts0, s1)"
    using pool_exec_run [OF assms(5)] by blast
  let ?cs = "(ts, s) # cs'"
  have sh: "thread_shared P store s0" using assms(2,3) by (simp add: thread_shared_def)
  have inv: "pool.pool_inv P store (fst (last ?cs)) (snd (last ?cs))" using pool.pool_inv_reach [OF assms(1) sh] cs(2) by simp
  obtain i where i: "fs_dir (fsys s1) (PathFor store ?cid) = Some i" "drop kHeaderSize (fs_data (fsys s1) i) = payload"
    "length (fs_data (fsys s1) i) = kHeaderSize + length payload"
    "parse_chunk (fs_data (fsys s1) i) = Some (word_of_nat (length payload), c)" using chunk_at_stored [OF at] .
  let ?d = "fs_data (fsys s1) i"
  have "undeleted (fst (hd ?cs)) ?cid" using assms(12) by (simp add: undeleted_def)
  then have m: "moments store ?cid ?cs = {Some ?d}" by (rule stored_stable [OF cs(1) inv]) (use cs(2) i(1) in \<open>simp add: stored_def\<close>)
  have r: "get_result True {Some ?d} req O' out0 st out"
    using get_call [OF assms(1) sh assms(4) cs list.sel(1) assms(6) fin] assms(8) m by simp
  have only: "whole {Some ?d} d \<Longrightarrow> d = ?d" for d by (simp add: whole_def)
  have rng: "in_range ?rg ?d \<longleftrightarrow> unat (range_offset ?rg) + unat (range_size ?rg) \<le> length payload" using i(3) by (auto simp: in_range_def)
  have fr: "file_range ?rg ?d = range_of ?rg payload" using i(2) by (simp add: file_range_def)
  have "if unat (range_offset ?rg) + unat (range_size ?rg) \<le> length payload
    then status_ok st \<and> (\<exists>blocks. out = feed O' out0 blocks \<and> pieces blocks (range_of ?rg payload) True)
    else out = out0 \<and> \<not> status_ok st \<and> st = ValidateByteRange ?rg (word_of_nat (length payload))"
  proof (cases "status_ok st")
    case True
    then obtain blocks where "out = feed O' out0 blocks" "pieces blocks (range_of ?rg payload) True" "in_range ?rg ?d"
      using r only fr unfolding get_result_def by metis
    then show ?thesis using True rng by auto
  next
    case False
    then have "out = out0 \<and> (\<exists>n c. parse_chunk ?d = Some (n, c) \<and> st = ValidateByteRange ?rg n \<and> \<not> in_range ?rg ?d)"
      using r only assms(9,10) unfolding get_result_def by blast
    then show ?thesis using rng False i(4) by auto
  qed
  then show ?thesis using fin by blast
qed

theorem concurrent_get_stable_witness:
  "\<exists>ts s ls st out e blocks. pool_exec (thread_step sample_platform sample_store) thread_fresh thread_joins
      ([0 \<mapsto> GetThread all_of_it collector [] (GetHead HeadStart []) (os_errno sample_stored)], sample_stored) ls
      (ts :: nat \<Rightarrow> (byte list, byte list list, byte list) thread option, s) \<and>
    ts 0 = Some (GetThread all_of_it collector [] (GetDone st out) e) \<and> status_ok st \<and>
    out = feed collector [] blocks \<and> concat blocks = [1, 2, 3]"
proof -
  let ?n = "kHeaderSize + unat (range_size (get_range all_of_it)) + 8 + length (sched sample_stored)"
  let ?ts = "[0 \<mapsto> GetThread all_of_it collector [] (GetHead HeadStart []) (os_errno sample_stored)]
      :: nat \<Rightarrow> (byte list, byte list list, byte list) thread option"
  obtain p' s where ex: "pool_exec (thread_step sample_platform sample_store) thread_fresh thread_joins (?ts, sample_stored)
      (replicate ?n (Some 0)) (?ts(0 \<mapsto> p'), s)" using pool_exec_alone [where ts = ?ts and k = 0 and w = sample_stored and n = ?n] by (metis fun_upd_same)
  obtain st out e where "(?ts(0 \<mapsto> p')) 0 = Some (GetThread all_of_it collector [] (GetDone st out) e)"
    by (rule get_returns [OF ex fun_upd_same]) simp_all
  then have del: "(?ts(0 \<mapsto> p')) j \<noteq> Some (DeleteThread (get_chunk_id all_of_it) dst de)" for j dst de by simp
  have at: "chunk_at sample_store (fsys sample_stored) (get_chunk_id all_of_it) = Some (expected_checksum sample_request, [1, 2, 3])"
    using sample_chunk by (simp add: all_of_it_def)
  have rg: "(unat (range_offset (get_range all_of_it)) + unat (range_size (get_range all_of_it)) \<le> length [1, 2, 3 :: byte]) = True"
    "range_of (get_range all_of_it) [1, 2, 3] = [1, 2, 3]" by (simp_all add: all_of_it_def range_of_def)
  have "storable (get_chunk_id all_of_it)" using sample_storable by (simp add: all_of_it_def)
  note g = concurrent_get_stable [OF sample_get_start sample_laws stored_inv ex fun_upd_same eq_imp_le [OF count_list_replicate [symmetric]]
      sample_stored_smooth collector_accepting this at del, unfolded rg if_True]
  then obtain st out e blocks where d: "(?ts(0 \<mapsto> p')) 0 = Some (GetThread all_of_it collector [] (GetDone st out) e)" "status_ok st"
    "out = feed collector [] blocks" "pieces blocks [1, 2, 3] True" by blast
  have "concat blocks = [1, 2, 3]" using d(4) by (simp add: pieces_def)
  then show ?thesis by (intro exI conjI) (rule ex, rule d(1), rule d(2), rule d(3), assumption)
qed

text \<open>
  C9: queries beside uploads and deletions. What a \<open>Head\<close> reports was true at a moment of the call: a value
  is the size and the digest of the chunk the identifier had then; without failed system calls the only
  error for an identifier that can have a file is \<open>kNotFound\<close>, and there was a moment without the chunk.
\<close>

theorem concurrent_head:
  assumes "pool_reach (thread_step P store) thread_fresh thread_joins s0 ts0 s1" and "blake3_laws P" and "store_inv P store (fsys s0)"
    and "sizes_ok (fsys s0)" and "pool_run (thread_step P store) thread_fresh thread_joins cs" and "last cs = (ts0, s1)" and "hd cs = (ts, s)"
    and "ts0 k = Some (HeadThread cid HeadStart e0)" and "ts k = Some (HeadThread cid (HeadDone res) e)"
  shows "case so_opt res of
      Some r \<Rightarrow> resp_chunk_id r = cid \<and> (\<exists>ts' s' payload. (ts', s') \<in> set cs \<and>
        chunk_at store (fsys s') cid = Some (resp_checksum r, payload) \<and> resp_checksum r = blake3_checksum P payload \<and>
        unat (resp_size r) = length payload)
    | None \<Rightarrow> \<not> status_ok (so_status res) \<and> (smooth s1 \<and> storable cid \<longrightarrow>
        st_code (so_status res) = kNotFound \<and> (\<exists>ts' s'. (ts', s') \<in> set cs \<and> chunk_at store (fsys s') cid = None))"
proof -
  have sh: "thread_shared P store s0" using assms(2,3) by (simp add: thread_shared_def)
  have inv: "pool.pool_inv P store (fst (last cs)) (snd (last cs))" using pool.pool_inv_reach [OF assms(1) sh] assms(6) by simp
  have h: "head_result (smooth s1) (moments store cid cs) cid res" by (rule head_call [OF assms(1) sh assms(4-9)])
  show ?thesis
  proof (cases "so_opt res")
    case None
    have "\<exists>ts' s'. (ts', s') \<in> set cs \<and> chunk_at store (fsys s') cid = None" if "None \<in> moments store cid cs"
      using that by (force simp: moments_def chunk_at_def)
    then show ?thesis using h None by (auto simp: head_result_def statusor_inv_def so_ok_def)
  next
    case (Some r)
    then obtain d where d: "whole (moments store cid cs) d" "parse_chunk d = Some (resp_size r, resp_checksum r)" "resp_chunk_id r = cid"
      using h by (auto simp: head_result_def)
    obtain c where c: "c \<in> set cs" "stored store (fsys (snd c)) cid = Some d" using d(1) by (auto simp: whole_def moments_def)
    have "thread_shared P store (snd c)" using pool.pool_inv_run_all [OF assms(5) inv] c(1) unfolding pool.pool_inv_def by blast
    moreover have at: "chunk_at store (fsys (snd c)) cid = Some (resp_checksum r, drop kHeaderSize d)" using c(2) d(2) by (simp add: chunk_at_def)
    ultimately have "resp_checksum r = blake3_checksum P (drop kHeaderSize d)" using chunk_at_digest by (auto simp: thread_shared_def)
    moreover have "unat (resp_size r) = length (drop kHeaderSize d)" using parse_chunk_SomeD [OF d(2)] by simp
    moreover have "(fst c, snd c) \<in> set cs" using c(1) by simp
    ultimately show ?thesis using Some d(3) at by (simp only: option.case) blast
  qed
qed

theorem concurrent_head_witness:
  "case so_opt (fst (FileChunkStore_Head sample_platform sample_store sample_id sample_stored)) of
     Some r \<Rightarrow> resp_chunk_id r = sample_id
   | None \<Rightarrow> st_code (so_status (fst (FileChunkStore_Head sample_platform sample_store sample_id sample_stored))) = kNotFound"
proof -
  let ?head = "FileChunkStore_Head sample_platform sample_store sample_id sample_stored"
  have "head_run sample_platform sample_store sample_id HeadStart sample_stored (HeadDone (fst ?head)) (snd ?head)"
    by (rule head_run_Head) simp
  from pool_run_alone [OF head_thread_run [OF this] pool_run.start list.sel(1)]
  obtain cs :: "((nat \<Rightarrow> (byte list, byte list list, byte list) thread option) \<times> os) list"
    where cs: "pool_run (thread_step sample_platform sample_store) thread_fresh thread_joins cs"
      "last cs = ([0 \<mapsto> HeadThread sample_id HeadStart (os_errno sample_stored)], sample_stored)"
      "hd cs = ([0 \<mapsto> HeadThread sample_id (HeadDone (fst ?head)) (os_errno (snd ?head))], snd ?head)" by fastforce
  have "pool_reach (thread_step sample_platform sample_store) thread_fresh thread_joins sample_stored
      [0 \<mapsto> HeadThread sample_id HeadStart (os_errno sample_stored)] sample_stored"
    by (rule pool_reach.more [OF pool_reach.empty pool_step.accept]) simp_all
  from concurrent_head [OF this sample_laws stored_inv cs fun_upd_same fun_upd_same]
  show ?thesis using sample_stored_smooth sample_storable by (auto split: option.splits)
qed

section \<open>Descriptors\<close>

lemma thread_done_fds: "thread_done p \<Longrightarrow> thread_fds p = {}"
proof (cases p)
  case (PutThread req I inp0 pc e)
  then show "thread_done p \<Longrightarrow> thread_fds p = {}" by (cases pc) simp_all
next
  case (HeadThread cid pc e)
  then show "thread_done p \<Longrightarrow> thread_fds p = {}" by (cases pc) simp_all
qed auto

text \<open>
  C10: no descriptor is lost. Whatever calls a worker has served, in whatever interleaving and with
  whatever failures: when all of them have returned, exactly the descriptors are open that were open
  before, on the same files.
\<close>

theorem pool_no_leak:
  assumes "pool_reach (thread_step P store) thread_fresh thread_joins s0 ts s" and "blake3_laws P" and "store_inv P store (fsys s0)"
    and "\<And>k p. ts k = Some p \<Longrightarrow> thread_done p"
  shows "map_of (fds s) = map_of (fds s0)"
proof -
  have sh: "thread_shared P store s0" using assms(2,3) by (simp add: thread_shared_def)
  note acc = accounted_reach [OF assms(1) sh]
  have "(\<Union>p \<in> ran ts. thread_fds p) = {}" using assms(4) thread_done_fds by (fastforce simp: ran_def)
  then have o: "open_fds s = open_fds s0" using acc by (simp add: accounted_def)
  show ?thesis
  proof
    fix fd
    show "map_of (fds s) fd = map_of (fds s0) fd"
    proof (cases "fd \<in> open_fds s0")
      case True
      then show ?thesis using acc unfolding accounted_def by blast
    next
      case False
      then have "fd \<notin> open_fds s" using o by simp
      then show ?thesis using False by (metis map_of_eq_None_iff)
    qed
  qed
qed

theorem pool_no_leak_witness: "map_of (fds sample_stored) = map_of (fds sample_os)"
  by (rule pool_no_leak [OF sample_pool_finished sample_laws sample_inv])
    (auto simp: sample_finished_def split: if_splits)

section \<open>Calls return\<close>

text \<open>
  C11: the worker is wait-free. Every call returns after a number of steps of its own thread that is linear
  in the size of the upload or of the range, plus one for every failure that is still to come,
  whatever calls other threads run, start or leave unfinished: a thread that was given as many steps
  has finished, and with the call it was accepted for.
\<close>

theorem calls_return:
  assumes "pool_exec (thread_step P store) thread_fresh thread_joins (ts0, s0) ls (ts, s)" and "ts0 k = Some p"
    and "count_list ls (Some k) \<ge> thread_rank p + length (sched s0)"
  shows "\<exists>p'. ts k = Some p' \<and> thread_done p' \<and> thread_call p' = thread_call p"
  by (rule call_returns [OF assms])

theorem calls_return_witness:
  "\<exists>p' s. pool_exec (thread_step sample_platform sample_store) thread_fresh thread_joins ([0 \<mapsto> sample_thread], sample_os)
      (replicate (thread_rank sample_thread + length (sched sample_os)) (Some 0)) ([0 \<mapsto> p'], s) \<and> thread_done p'"
proof -
  let ?n = "thread_rank sample_thread + length (sched sample_os)"
  obtain p' s where ex: "pool_exec (thread_step sample_platform sample_store) thread_fresh thread_joins ([0 \<mapsto> sample_thread], sample_os)
      (replicate ?n (Some 0)) ([0 \<mapsto> sample_thread, 0 \<mapsto> p'], s)" using pool_exec_alone [where ts = "[0 \<mapsto> sample_thread]" and k = 0 and w = sample_os and n = ?n] by (metis fun_upd_same)
  from calls_return [OF ex fun_upd_same] have "thread_done p'" by simp
  then show ?thesis using ex by auto
qed

section \<open>A torn download\<close>

text \<open>
  C14: a spurious error. \<open>Get\<close> opens the file twice, and what it validated against the first file it applies
  to the second. There is a run of the worker without any failure in its schedule, from one
  stored chunk, in which a download that is overtaken by a deletion and a new upload answers
  \<open>kCorruption\<close>, although the store it ends with has only complete chunks with correct digests.
\<close>

theorem torn_download:
  "\<exists>ts s st out e. pool_reach (thread_step sample_platform sample_store) thread_fresh thread_joins one_chunk
       (ts :: nat \<Rightarrow> (byte list, byte list list, byte list) thread option) s \<and>
     ts 0 = Some (GetThread all_of_it collector [] (GetDone st out) e) \<and> st_code st = kCorruption \<and>
     sched one_chunk = [] \<and> store_inv sample_platform sample_store (fsys s)"
proof -
  let ?P = sample_platform and ?S = sample_store
  let ?reach = "pool_reach (thread_step ?P ?S) thread_fresh thread_joins one_chunk"
  let ?get = "\<lambda>pc. GetThread all_of_it collector ([] :: byte list) pc" and ?e = "os_errno one_chunk"
  obtain s1 where h: "get_run ?P ?S all_of_it collector (GetHead HeadStart []) one_chunk (GetOpen []) s1"
    and s1: "quiet one_chunk s1" "smooth s1" "platform_ok ?P ?S s1" by (rule torn_head)
  obtain dst s2 where d: "FileChunkStore_Delete ?P ?S sample_id s1 = (dst, s2)" by fastforce
  obtain pst inp s3 where p: "FileChunkStore_Put ?P ?S new_request list_input [[9]] s2 = (pst, inp, s3)" by (metis surj_pair)
  note mid = torn_between [OF s1 d p]
  obtain st out s4 where rest: "get_run ?P ?S all_of_it collector (GetOpen []) (s3\<lparr>os_errno := os_errno s1\<rparr>) (GetDone st out) s4"
    and bad: "st_code st = kCorruption"
    by (rule torn_rest [of "s3\<lparr>os_errno := os_errno s1\<rparr>"]) (use mid in \<open>simp_all add: smooth_errno platform_ok_def\<close>)
  let ?del = "\<lambda>st. DeleteThread sample_id st" and ?put = "PutThread new_request list_input [[9]]"
  have "?reach [0 \<mapsto> ?get (GetHead HeadStart []) ?e] one_chunk" by (rule pool_reach_accept [OF pool_reach.empty]) simp_all
  then have "?reach [0 \<mapsto> ?get (GetOpen []) (os_errno s1)] s1" by (rule pool_reach_alone [OF get_thread_run [OF h]])
  then have "?reach [0 \<mapsto> ?get (GetOpen []) (os_errno s1), 1 \<mapsto> ?del None (os_errno s1)] s1"
    by (rule pool_reach_accept) (simp_all split: if_splits)
  then have "?reach [0 \<mapsto> ?get (GetOpen []) (os_errno s1), 1 \<mapsto> ?del (Some dst) (os_errno s2)] s2"
    by (rule pool_reach_alone [rotated]) (rule runs_one, simp add: d)
  then have "?reach [0 \<mapsto> ?get (GetOpen []) (os_errno s1), 1 \<mapsto> ?del (Some dst) (os_errno s2), 2 \<mapsto> ?put (PutStart [[9]]) (os_errno s2)] s2"
    by (rule pool_reach_accept) (auto simp: list_input_ok split: if_splits)
  then have "?reach [0 \<mapsto> ?get (GetOpen []) (os_errno s1), 1 \<mapsto> ?del (Some dst) (os_errno s2), 2 \<mapsto> ?put (PutDone pst inp) (os_errno s3)] s3"
    by (rule pool_reach_alone [OF put_thread_run [OF put_run_Put [OF p]]])
  then have "?reach ([1 \<mapsto> ?del (Some dst) (os_errno s2), 2 \<mapsto> ?put (PutDone pst inp) (os_errno s3)](0 \<mapsto> ?get (GetOpen []) (os_errno s1))) s3"
    by (simp add: fun_upd_twist)
  then have r: "?reach ([1 \<mapsto> ?del (Some dst) (os_errno s2), 2 \<mapsto> ?put (PutDone pst inp) (os_errno s3)](0 \<mapsto> ?get (GetDone st out) (os_errno s4))) s4"
    by (rule pool_reach_alone [OF get_thread_resumed [OF rest get_pc.distinct(14)]])
  have "thread_shared ?P ?S one_chunk" using one_chunk_ok by (simp add: thread_shared_def platform_ok_def)
  then have "store_inv ?P ?S (fsys s4)" using pool.pool_inv_reach [OF r] unfolding pool.pool_inv_def thread_shared_def by blast
  moreover have "sched one_chunk = []" by (simp add: one_chunk_def Let_def)
  moreover have "\<exists>ts :: nat \<Rightarrow> (byte list, byte list list, byte list) thread option. ?reach ts s4 \<and> ts 0 = Some (?get (GetDone st out) (os_errno s4))" using r by (metis fun_upd_same)
  ultimately show ?thesis using bad by blast
qed

section \<open>The steps are those of the code\<close>

text \<open>
  C40: the state machines with one system call per step, whose interleavings the properties above are
  about, are \<open>FileChunkStore::Put\<close>, \<open>Head\<close> and \<open>Get\<close>: run alone from any state they end, and with exactly
  the result and the system state of the sequential definitions.
\<close>

theorem call_machines:
  "(put_run P store req I (PutStart inp) s (PutDone st inp') s' \<longleftrightarrow> FileChunkStore_Put P store req I inp s = (st, inp', s')) \<and>
   (head_run P store cid HeadStart s (HeadDone res) s' \<longleftrightarrow> FileChunkStore_Head P store cid s = (res, s')) \<and>
   (get_run P store greq O' (GetHead HeadStart out) s (GetDone st out') s' \<longleftrightarrow> FileChunkStore_Get P store greq O' out s = (st, out', s'))"
proof (intro conjI)
  obtain st1 inp1 s1 where p: "FileChunkStore_Put P store req I inp s = (st1, inp1, s1)" by (metis surj_pair)
  show "put_run P store req I (PutStart inp) s (PutDone st inp') s' \<longleftrightarrow> FileChunkStore_Put P store req I inp s = (st, inp', s')"
    using runs_result [OF put_run_Put [OF p]] p by auto
  obtain r1 s2 where h: "FileChunkStore_Head P store cid s = (r1, s2)" by fastforce
  show "head_run P store cid HeadStart s (HeadDone res) s' \<longleftrightarrow> FileChunkStore_Head P store cid s = (res, s')"
    using runs_result [OF head_run_Head [OF h]] h by auto
  obtain st2 out1 s3 where g: "FileChunkStore_Get P store greq O' out s = (st2, out1, s3)" by (metis surj_pair)
  show "get_run P store greq O' (GetHead HeadStart out) s (GetDone st out') s' \<longleftrightarrow> FileChunkStore_Get P store greq O' out s = (st, out', s')"
    using runs_result [OF get_run_Get [OF g]] g by auto
qed

end
