(* ===== verification/Served_Calls.thy ===== *)
theory Served_Calls
  imports Call_Bounds
begin

text \<open>
  The gRPC handlers of \<open>WorkerService\<close> (\<open>src/rpc/services.cpp\<close>) as threads of the worker: what a
  handler does before it enters the store, which takes no system call, the thread that serves the
  call in the store, and the answer that the handler makes of its result.
\<close>

section \<open>Handlers\<close>

text \<open>The arguments of a call: the reader or the writer belongs to gRPC, \<open>addr\<close> is the address of the local \<open>input\<close>.\<close>

datatype ('r, 'x) rpc_call =
    RpcPut u64 "'r ServerReader" 'r
  | RpcGet RpcGetChunkRequest "'x ServerWriter" 'x
  | RpcHead string
  | RpcDelete string

definition rget_request :: "RpcGetChunkRequest \<Rightarrow> GetChunkRequest" where
  "rget_request req =
     \<lparr>get_chunk_id = \<lparr>chunk_id_value = rget_chunk_id req\<rparr>,
      get_range = \<lparr>range_offset = rget_offset req, range_size = rget_size req\<rparr>\<rparr>"

text \<open>The thread that a call becomes in the store, unless the handler refuses it before.\<close>

fun rpc_enter :: "('r, 'x) rpc_call \<Rightarrow> errno \<Rightarrow> ('h, 'r RpcInputStream, 'x) thread option" where
  "rpc_enter (RpcPut addr R rd) e =
     (case sr_read R rd of
        (Some (FrameMetadata m), rd) \<Rightarrow>
          if \<not> ChunkId_valid (put_chunk_id (meta_request m)) then None
          else if \<not> status_ok (ValidateChecksum (expected_checksum (meta_request m))) then None
          else Some (PutThread (meta_request m) (rpc_input R addr) (RpcInputStream_init rd) (PutStart (RpcInputStream_init rd)) e)
      | _ \<Rightarrow> None)"
| "rpc_enter (RpcGet req W x) e =
     (if \<not> ChunkId_valid (get_chunk_id (rget_request req)) then None
      else Some (GetThread (rget_request req) (rpc_output W) x (GetHead HeadStart x) e))"
| "rpc_enter (RpcHead chunk_id) e =
     (if \<not> ChunkId_valid \<lparr>chunk_id_value = chunk_id\<rparr> then None
      else Some (HeadThread \<lparr>chunk_id_value = chunk_id\<rparr> HeadStart e))"
| "rpc_enter (RpcDelete chunk_id) e =
     (if \<not> ChunkId_valid \<lparr>chunk_id_value = chunk_id\<rparr> then None
      else Some (DeleteThread \<lparr>chunk_id_value = chunk_id\<rparr> None e))"

text \<open>What a handler answers.\<close>

datatype ('r, 'x) rpc_answer =
    PutAnswer GrpcStatus OperationResponse 'r
  | GetAnswer GrpcStatus 'x
  | HeadAnswer GrpcStatus RpcHeadChunkResponse
  | DeleteAnswer GrpcStatus OperationResponse

definition no_operation :: OperationResponse where
  "no_operation = \<lparr>op_status = rpc_default_status\<rparr>"

definition no_head :: RpcHeadChunkResponse where
  "no_head = \<lparr>rhead_status = rpc_default_status, rhead_chunk_id = [], rhead_size = 0, rhead_checksum = []\<rparr>"

abbreviation file_worker :: "'h platform \<Rightarrow> FileChunkStore \<Rightarrow> ('r RpcInputStream, 'x, os) WorkerService" where
  "file_worker P store \<equiv> worker_over (FileChunkStore_vtable P store)"

text \<open>The handlers themselves, over the file store.\<close>

fun rpc_handle ::
  "'h platform \<Rightarrow> FileChunkStore \<Rightarrow> ('r, 'x) rpc_call \<Rightarrow> os \<Rightarrow> ('r, 'x) rpc_answer \<times> os" where
  "rpc_handle P store (RpcPut addr R rd) s =
     (case WorkerService_PutChunk (file_worker P store :: ('r RpcInputStream, 'x, os) WorkerService) addr R rd no_operation s of
        (g, resp, rd, s) \<Rightarrow> (PutAnswer g resp rd, s))"
| "rpc_handle P store (RpcGet req W x) s =
     (case WorkerService_GetChunk (file_worker P store :: ('r RpcInputStream, 'x, os) WorkerService) req W x s of (g, x, s) \<Rightarrow> (GetAnswer g x, s))"
| "rpc_handle P store (RpcHead chunk_id) s =
     (case WorkerService_HeadChunk (file_worker P store :: ('r RpcInputStream, 'x, os) WorkerService) chunk_id no_head s of
        (g, resp, s) \<Rightarrow> (HeadAnswer g resp, s))"
| "rpc_handle P store (RpcDelete chunk_id) s =
     (case WorkerService_DeleteChunk (file_worker P store :: ('r RpcInputStream, 'x, os) WorkerService) chunk_id no_operation s of
        (g, resp, s) \<Rightarrow> (DeleteAnswer g resp, s))"

fun rpc_leave :: "('h, 'r RpcInputStream, 'x) thread \<Rightarrow> ('r, 'x) rpc_answer option" where
  "rpc_leave (PutThread req I inp0 (PutDone st inp) e) =
     Some (PutAnswer Grpc_Ok (no_operation\<lparr>op_status := SetStatus st\<rparr>) (ris_reader inp))"
| "rpc_leave (GetThread req O' out0 (GetDone st out) e) = Some (GetAnswer (ToGrpcStatus st) out)"
| "rpc_leave (HeadThread cid (HeadDone res) e) =
     Some (HeadAnswer Grpc_Ok (case so_opt res of
        None \<Rightarrow> no_head\<lparr>rhead_status := SetStatus (so_status res)\<rparr>
      | Some v \<Rightarrow> no_head\<lparr>rhead_status := SetStatus Status_Ok, rhead_chunk_id := chunk_id_value (resp_chunk_id v),
                    rhead_size := resp_size v, rhead_checksum := checksum_value (resp_checksum v)\<rparr>))"
| "rpc_leave (DeleteThread cid (Some st) e) = Some (DeleteAnswer Grpc_Ok (no_operation\<lparr>op_status := SetStatus st\<rparr>))"
| "rpc_leave p = None"

section \<open>A handler is its thread\<close>

lemma thread_runs_put:
  assumes "FileChunkStore_Put P store req I inp s = (st, inp', s')"
  shows "runs (thread_step P store) (PutThread req I inp (PutStart inp) (os_errno s)) s (PutThread req I inp (PutDone st inp') (os_errno s')) s'"
  by (rule put_thread_run [OF put_run_Put [OF assms]])

lemma thread_runs_get:
  assumes "FileChunkStore_Get P store req O' out s = (st, out', s')"
  shows "runs (thread_step P store) (GetThread req O' out (GetHead HeadStart out) (os_errno s)) s
    (GetThread req O' out (GetDone st out') (os_errno s')) s'"
  by (rule get_thread_run [OF get_run_Get [OF assms]])

lemma thread_runs_head:
  assumes "FileChunkStore_Head P store cid s = (res, s')"
  shows "runs (thread_step P store) (HeadThread cid HeadStart (os_errno s)) s (HeadThread cid (HeadDone res) (os_errno s')) s'"
  by (rule head_thread_run [OF head_run_Head [OF assms]])

lemma thread_runs_delete:
  assumes "FileChunkStore_Delete P store cid s = (st, s')"
  shows "runs (thread_step P store) (DeleteThread cid None (os_errno s)) s (DeleteThread cid (Some st) (os_errno s')) s'"
  by (rule runs_one) (simp add: assms)

text \<open>A handler that is not interrupted does what its thread does, with the answer that is made of its result.\<close>

lemma handler_runs:
  assumes "rpc_enter call (os_errno s) = Some p" and "rpc_handle P store call s = (a, s')"
  shows "\<exists>p'. runs (thread_step P store) p s p' s' \<and> rpc_leave p' = Some a"
proof (cases call)
  case (RpcPut addr R rd)
  then obtain m rd1 where r: "sr_read R rd = (Some (FrameMetadata m), rd1)"
    and v: "ChunkId_valid (put_chunk_id (meta_request m))" "status_ok (ValidateChecksum (expected_checksum (meta_request m)))"
    and p: "p = PutThread (meta_request m) (rpc_input R addr) (RpcInputStream_init rd1) (PutStart (RpcInputStream_init rd1)) (os_errno s)"
    using assms(1) by (auto split: prod.splits option.splits PutChunkFrame.splits if_splits)
  obtain st inp s1 where put: "FileChunkStore_Put P store (meta_request m) (rpc_input R addr) (RpcInputStream_init rd1) s = (st, inp, s1)"
    by (metis surj_pair)
  have "a = PutAnswer Grpc_Ok (no_operation\<lparr>op_status := SetStatus st\<rparr>) (ris_reader inp)" "s' = s1"
    using assms(2) r v put RpcPut
    by (simp_all add: WorkerService_PutChunk_def DataPlaneService_PutChunk_def FileChunkStore_vtable_def meta_request_def)
  then show ?thesis unfolding p by (intro exI conjI) (simp, rule thread_runs_put [OF put], simp)
next
  case (RpcGet req W x)
  obtain st out s1 where get: "FileChunkStore_Get P store (rget_request req) (rpc_output W) x s = (st, out, s1)" by (metis surj_pair)
  have "a = GetAnswer (ToGrpcStatus st) out" "s' = s1" "p = GetThread (rget_request req) (rpc_output W) x (GetHead HeadStart x) (os_errno s)"
    using assms RpcGet get
    by (auto simp: WorkerService_GetChunk_def DataPlaneService_GetChunk_def FileChunkStore_vtable_def rget_request_def split: if_splits)
  then show ?thesis by (intro exI conjI) (simp, rule thread_runs_get [OF get], simp)
next
  case (RpcHead chunk_id)
  obtain res s1 where head: "FileChunkStore_Head P store \<lparr>chunk_id_value = chunk_id\<rparr> s = (res, s1)" by fastforce
  have "rpc_leave (HeadThread \<lparr>chunk_id_value = chunk_id\<rparr> (HeadDone res) (os_errno s1)) = Some a" "s' = s1"
    "p = HeadThread \<lparr>chunk_id_value = chunk_id\<rparr> HeadStart (os_errno s)"
    using assms RpcHead head
    by (auto simp: WorkerService_HeadChunk_def DataPlaneService_HeadChunk_def FileChunkStore_vtable_def split: if_splits option.splits)
  then show ?thesis by (intro exI conjI) (simp, rule thread_runs_head [OF head], simp)
next
  case (RpcDelete chunk_id)
  obtain st s1 where del: "FileChunkStore_Delete P store \<lparr>chunk_id_value = chunk_id\<rparr> s = (st, s1)" by fastforce
  have "a = DeleteAnswer Grpc_Ok (no_operation\<lparr>op_status := SetStatus st\<rparr>)" "s' = s1"
    "p = DeleteThread \<lparr>chunk_id_value = chunk_id\<rparr> None (os_errno s)"
    using assms RpcDelete del
    by (auto simp: WorkerService_DeleteChunk_def DataPlaneService_DeleteChunk_def FileChunkStore_vtable_def split: if_splits)
  then show ?thesis by (intro exI conjI) (simp, rule thread_runs_delete [OF del], simp)
qed


text \<open>An answer that reports success, and: a handler that refuses a call has not touched the machine.\<close>

fun answer_ok :: "('r, 'x) rpc_answer \<Rightarrow> bool" where
  "answer_ok (PutAnswer g resp rd) \<longleftrightarrow> grpc_code g = GRPC_OK \<and> rpc_code (op_status resp) = STATUS_CODE_OK"
| "answer_ok (GetAnswer g x) \<longleftrightarrow> grpc_code g = GRPC_OK"
| "answer_ok (HeadAnswer g resp) \<longleftrightarrow> grpc_code g = GRPC_OK \<and> rpc_code (rhead_status resp) = STATUS_CODE_OK"
| "answer_ok (DeleteAnswer g resp) \<longleftrightarrow> grpc_code g = GRPC_OK \<and> rpc_code (op_status resp) = STATUS_CODE_OK"

lemma handler_refuses:
  assumes "rpc_enter call e = None" and "rpc_handle P store call s = (a, s')"
  shows "s' = s \<and> \<not> answer_ok a"
proof (cases call)
  case (RpcPut addr R rd)
  then show ?thesis using assms
    by (auto simp: WorkerService_PutChunk_def DataPlaneService_PutChunk_def meta_request_def no_operation_def
        split: prod.splits option.splits PutChunkFrame.splits if_splits)
next
  case (RpcGet req W x)
  then show ?thesis using assms
    by (auto simp: WorkerService_GetChunk_def DataPlaneService_GetChunk_def rget_request_def split: if_splits)
next
  case (RpcHead chunk_id)
  then show ?thesis using assms
    by (auto simp: WorkerService_HeadChunk_def DataPlaneService_HeadChunk_def no_head_def split: if_splits)
next
  case (RpcDelete chunk_id)
  then show ?thesis using assms
    by (auto simp: WorkerService_DeleteChunk_def DataPlaneService_DeleteChunk_def no_operation_def split: if_splits)
qed

text \<open>A thread starts where its call enters the store.\<close>

lemma rpc_enter_fresh: "rpc_enter call e = Some p \<Longrightarrow> thread_fresh p"
  by (cases call) (auto simp: rpc_input_ok split: prod.splits option.splits PutChunkFrame.splits if_splits)

text \<open>The thread of an upload that has returned.\<close>

lemma rpc_put_leaves:
  assumes "rpc_enter (RpcPut addr R rd) e0 = Some p0" and "thread_call p = thread_call p0" and "rpc_leave p = Some a"
  obtains m rd1 st inp e where "sr_read R rd = (Some (FrameMetadata m), rd1)"
    and "p = PutThread (meta_request m) (rpc_input R addr) (RpcInputStream_init rd1) (PutDone st inp) e"
    and "answer_ok a \<longleftrightarrow> status_ok st"
proof -
  obtain m rd1 where r: "sr_read R rd = (Some (FrameMetadata m), rd1)"
    and p0: "p0 = PutThread (meta_request m) (rpc_input R addr) (RpcInputStream_init rd1) (PutStart (RpcInputStream_init rd1)) e0"
    using assms(1) by (auto split: prod.splits option.splits PutChunkFrame.splits if_splits)
  obtain pc e where p: "p = PutThread (meta_request m) (rpc_input R addr) (RpcInputStream_init rd1) pc e"
    using assms(2) p0 by (cases p) auto
  then obtain st inp where "pc = PutDone st inp" using assms(3) by (cases pc) auto
  then show thesis using that r p assms(3) by (auto simp: no_operation_def Grpc_Ok_def)
qed

lemma runs_thread_call: "runs (thread_step P store) p s p' s' \<Longrightarrow> thread_call p' = thread_call p"
  by (induction rule: runs.induct) (auto dest: thread_step_call)

end
