(* ===== verification/Spec2Isabelle.thy ===== *)
theory Spec2Isabelle
  imports Rpc_Properties Client_Properties Process_Mains Concurrent_Properties Served_Calls
begin

text \<open>
  Verification of a distributed chunk store (C++), version 1 of the system: a worker process keeps
  immutable chunks in files and serves them over gRPC, a command line client uploads, downloads,
  inspects and deletes objects, a control plane process answers health checks.

  \<^bold>\<open>The program and its model.\<close> A call goes through these parts, from the top:

  \<^item> \<open>src/client/client_main.cpp\<close>, \<open>src/worker/worker_main.cpp\<close>, \<open>src/control/control_main.cpp\<close> with
    \<open>src/common/config.cpp\<close> and \<open>src/common/logging.cpp\<close>: theory \<open>Process_Mains\<close> (\<open>client_main\<close>,
    \<open>worker_main\<close>, \<open>control_main\<close>, \<open>LoadWorkerConfig\<close>, \<open>InitLogging\<close>, ...). CLI11, spdlog and the gRPC
    server are arguments; what a process prints, serves and returns is its result.
  \<^item> \<open>StorageClient\<close> (\<open>src/storage/client/storage_client.cpp\<close>): theory \<open>Storage_Client\<close>. \<open>HashFile\<close> and
    the operations \<open>StorageClient_Put\<close>, \<open>_Get\<close>, \<open>_Head\<close>, \<open>_Delete\<close> over the virtual functions of
    \<open>DataPlaneClient\<close>; the exception of \<open>std::filesystem::exists\<close> is a value.
  \<^item> \<open>GrpcDataPlaneClient\<close> (\<open>src/storage/client/data_plane_client.cpp\<close>): theories \<open>Read_Loop\<close> (the
    loop around \<open>read\<close>) and \<open>Data_Plane_Client\<close> (status mappings, the four calls). The generated
    stub is a record of functions, \<open>WorkerStub\<close>, over an arbitrary state of the network.
  \<^item> \<open>WorkerService\<close>, \<open>ControlPlaneService\<close> and the stream adapters (\<open>src/rpc/services.cpp\<close>,
    \<open>include/storage/rpc/services.h\<close>): theory \<open>Rpc_Services\<close>; the readers and writers of gRPC are
    arguments.
  \<^item> \<open>DataPlaneService\<close> (\<open>src/storage/worker/data_plane_service.cpp\<close>): theory \<open>Data_Plane_Service\<close>,
    over the virtual functions of \<open>ChunkStore\<close>.
  \<^item> \<open>FileChunkStore\<close> (\<open>src/storage/worker/file_chunk_store.cpp\<close>): theories \<open>Store_Io\<close> (\<open>WriteAll\<close>,
    \<open>PreadSome\<close>), \<open>Chunk_Format\<close> (the header of a chunk file, \<open>ReadHeader\<close>, file names) and
    \<open>File_Chunk_Store\<close> (\<open>FileChunkStore_Put\<close>, \<open>_Get\<close>, \<open>_Head\<close>, \<open>_Delete\<close>, \<open>_Size\<close>, \<open>_Exists\<close>).
  \<^item> \<open>Status\<close>, \<open>StatusOr\<close> (theory \<open>Status_Model\<close>), \<open>UniqueFd\<close> (theory \<open>Unique_Fd\<close>), identifiers, byte
    ranges, checksums, requests and states (theory \<open>Core_Types\<close>).
  \<^item> The operating system underneath is theory \<open>Posix\<close>: file names, inodes, hard links, descriptors,
    \<open>errno\<close>, and what of it all is on disk.

  Names follow the sources; a method \<open>C::m\<close> is \<open>C_m\<close>. State is passed explicitly: \<open>os\<close> for a machine,
  a type parameter for the network and for streams. A \<open>Status\<close> is a value, so every early return is
  a branch. Sizes and offsets are 64-bit words, and the arithmetic on them wraps as in C++.

  \<^bold>\<open>Failures and termination.\<close> The system calls take their outcome from a schedule in the state:
  any call may fail with any error, be interrupted, or transfer less than asked. Theorems are for
  every schedule unless they say \<open>smooth\<close> (short transfers but no failures), \<open>gentle\<close> (interruptions
  as well) or \<open>calm\<close> (no disturbance of the connection either). No fuel is used: every loop of the model has a
  measure, the part of the schedule and of the data that is left, and is therefore total; a loop
  of the code that is interrupted for ever has no model. The trace in the state holds every file
  system state a run went through, so that properties speak of every moment, and of a crash at
  every moment: a crash keeps the contents that were synchronised, and leaves each name, independently
  of the others, with any binding it has had since its directory was last synchronised. That \<open>fsync\<close>
  of a directory that was just created keeps the directory itself, too, is what ext4 does.

  \<^bold>\<open>Concurrency.\<close> The handlers of a worker run on several threads over one \<open>FileChunkStore\<close>, which has
  no lock. Theories \<open>Put_Steps\<close> and \<open>Get_Steps\<close> give \<open>Put\<close>, \<open>Head\<close> and \<open>Get\<close> as machines that make one
  system call per step (\<open>put_step\<close>, \<open>head_step\<close>, \<open>get_step\<close>; \<open>Delete\<close> is a single call); run alone
  (\<open>Step_Machines\<close>) they are the sequential definitions. A pool of threads accepts calls at any time
  and interleaves their steps in any order (\<open>pool_reach\<close>, and \<open>pool_run\<close> with the whole history, in
  \<open>Thread_Pools\<close>), each thread with its own \<open>errno\<close>, all with one descriptor table and file system
  (\<open>Worker_Threads\<close>). \<open>Shared_Calls\<close> holds the facts on calls in a shared table, \<open>Upload_Steps\<close> and
  \<open>Reader_Steps\<close> what each step keeps and does to the others, \<open>Pool_Effects\<close> and \<open>Upload_Race\<close> what
  the steps of a pool do to the stored chunks, \<open>Read_History\<close> and \<open>Pool_Runs\<close> what a read knows of the
  moments it went through, \<open>Torn_Read\<close> a run in which a download is overtaken, \<open>Pool_Progress\<close> and
  \<open>Call_Bounds\<close> how many steps a call needs whatever the others do. What keeps the threads apart is
  that the stream objects of handlers in progress have different addresses, which their temporary
  names contain. \<open>Served_Calls\<close> connects the pool with gRPC: \<open>rpc_enter\<close> is what a handler does before
  it calls the store (the checks, and the thread it starts with), \<open>rpc_leave\<close> the answer it makes of
  what the store returned.

  \<^bold>\<open>The interfaces\<close> are locales, each interpreted on the definitions that provide it:
  \<open>id_type\<close> (identifiers are linearly ordered; \<open>Core_Types\<close>), \<open>chunk_store\<close> (what \<open>Put\<close>, \<open>Get\<close>, \<open>Head\<close>
  and \<open>Delete\<close> promise about a map from identifiers to contents; \<open>fcs\<close> in \<open>Store_Contract\<close>),
  \<open>rpc_worker\<close> (the same through the service; \<open>fcw\<close> in \<open>Rpc_Services\<close>), \<open>data_plane_client\<close> (what the
  object layer needs of the transport; \<open>gdp\<close> in \<open>Storage_Client\<close>), \<open>interleaving\<close> (what a step of one
  thread owes the others; \<open>pool\<close> in \<open>Worker_Threads\<close>), \<open>call_history\<close> (a call whose steps extend what it
  knows of the past; \<open>head_calls\<close> and \<open>get_calls\<close> in \<open>Pool_Runs\<close>), \<open>bounded_steps\<close> (a measure that every
  step of a thread lowers; \<open>calls\<close> in \<open>Call_Bounds\<close>) and \<open>worker_channel\<close> (what a connection
  to a worker guarantees; \<open>wch\<close> in \<open>Worker_Channel\<close>, on a connection that refuses frames,
  breaks off calls and loses answers by a plan, and passes no message on whose strings are not UTF-8
  (\<open>Wire_Strings\<close>), with the whole worker at its other end).

  \<^bold>\<open>The lemmas\<close>: \<open>Store_Reading\<close> and \<open>Read_Loop\<close> on what reading returns, \<open>Store_Invariant\<close> on the
  invariant of the storage root, \<open>Syscall_Effects\<close> and \<open>Store_Writing\<close> on the phases of \<open>Put\<close> and
  their file system states, \<open>Calm_Runs\<close> on completeness of client and worker together,
  \<open>Answer_Types\<close> on the codes that each handler can answer, \<open>Sample_Run\<close>
  and \<open>Sample_Client\<close> on the concrete instance that the witnesses use.

  \<^bold>\<open>The properties.\<close> \<open>Store_Properties\<close>: uploads are atomic at every moment, durable once
  acknowledged, crash safe, and complete when nothing fails; \<open>Get\<close> is exact; \<open>Delete\<close> removes one
  chunk and is not durable. \<open>Format_Properties\<close>: round trip of the header, agreement of the
  incremental decoder with a reference parser, injective file names, exact validators, ends and
  bounds of the transfer loops, descriptor ownership.
  \<open>Concurrent_Properties\<close>: under every interleaving each step is atomic on the stored chunks, and of
  several uploads of one identifier one wins, durably; a \<open>Get\<close> sends one chunk that was stored during
  the call, a \<open>Head\<close> tells of one, a chunk that nobody deletes can always be read; no descriptor is
  lost; every call returns after boundedly many steps of its own thread (wait-freedom); but a \<open>Get\<close>
  that is overtaken by a deletion and an upload may report a corruption that no stored chunk has.
  \<open>Rpc_Properties\<close>: the handlers implement the store contract on frames. \<open>Client_Properties\<close>: end to
  end, an upload is all or nothing under every failure of either machine and of the connection, a
  download is the stored object or nothing, and what one client stores another reads; against an
  arbitrary peer, a download has the announced digest; each operation answers with codes of its own
  list only. \<open>Process_Mains\<close>: exit codes tell the truth.
  This theory: the gRPC handlers are threads of the pool, and of concurrent uploads over gRPC at
  most one is answered with OK, whose frames are then the stored chunk.

  \<^bold>\<open>Parameters and hypotheses.\<close> BLAKE3 is a record of functions with the laws \<open>blake3_laws\<close> (updating
  piecewise is updating at once; a digest has the length that was asked for); no theorem assumes
  that it has no collisions. \<open>strerror\<close>, the process id and the address that a temporary name
  contains are arguments. \<open>conn_inv\<close> is the invariant of a worker's storage root, and that the
  identifiers in it are UTF-8; it holds for an empty root and is kept by every call.

  \<^bold>\<open>Not modelled.\<close> Each client process is alone on its machine: several that download into one
  directory at once are not modelled, and the properties end to end are about one call at a time,
  while those of the store and of the uploads over gRPC are about any number of calls. The interior of gRPC, protobuf, CLI11, spdlog and BLAKE3
  and the code generated from \<open>proto/\<close> are parameters. Deadlines and resource quotas are passed to
  the stub and have no clock: a call that runs out of time is one that the plan of the connection breaks off
  or whose answer it loses, and the worker is done with it when the client learns of this; a handler that goes on behind the back of its client is
  not modelled end to end (the pool of threads allows it). The connection leads to one worker, whatever
  the endpoint. The messages of a download are a list that the client takes from the stub one by one;
  the worker does not see how far the client has got. Permissions, symbolic links and directories other than the storage
  root appear as failures of the calls that meet them. Tests, benchmarks and build files are not
  part of the program.
\<close>

section \<open>Properties across the parts of the worker\<close>

text \<open>
  C13: the threads of the pool are the gRPC handlers. A handler either refuses its call without
  touching the machine, or enters the store with a thread that can join the pool at any time; run
  without interruption, handler and thread end in the same state, and the answer of the handler is made
  of the result of the thread.
\<close>

theorem handlers_are_threads:
  fixes P :: "'h platform" and call :: "('r, 'x) rpc_call"
  shows "case rpc_handle P store call s of (a, s') \<Rightarrow>
     (case rpc_enter call (os_errno s) of
        None \<Rightarrow> s' = s \<and> \<not> answer_ok a
      | Some p \<Rightarrow> thread_fresh p \<and> (\<exists>p'. runs (thread_step P store) p s p' s' \<and> rpc_leave p' = Some a))"
proof -
  obtain a s' where h: "rpc_handle P store call s = (a, s')" by fastforce
  show ?thesis
  proof (cases "rpc_enter call (os_errno s) :: ('h, 'r RpcInputStream, 'x) thread option")
    case None
    then show ?thesis using h handler_refuses [OF None h] by simp
  next
    case (Some p)
    then show ?thesis using h handler_runs [OF Some h] rpc_enter_fresh [OF Some] by simp
  qed
qed

text \<open>
  C12: concurrent uploads over gRPC. Of any number of \<open>PutChunk\<close> calls for one identifier that overlap
  with each other and with any other calls, as long as nobody asks to delete the chunk, at most
  one is answered with OK. Its data frames were non-empty and the stream ended properly; the
  chunk is their concatenation, with the announced size, and stays so also after a crash.
\<close>

theorem served_uploads:
  assumes "pool_reach (thread_step P store) thread_fresh thread_joins s0 ts s" and "blake3_laws P" and "store_inv P store (fsys s0)"
    and "rpc_enter (RpcPut addr R rd) e0 = Some p0" and "ts k = Some p" and "thread_call p = thread_call p0"
    and "rpc_leave p = Some a" and "answer_ok a"
    and "\<And>m rd1 j dst de. sr_read R rd = (Some (FrameMetadata m), rd1) \<Longrightarrow>
      ts j \<noteq> Some (DeleteThread \<lparr>chunk_id_value = meta_chunk_id m\<rparr> dst de)"
  shows "\<exists>m rd1 ds rd2. sr_read R rd = (Some (FrameMetadata m), rd1) \<and> frames R rd1 ds rd2 \<and>
    length (concat ds) = unat (meta_expected_size m) \<and>
    (let cid = \<lparr>chunk_id_value = meta_chunk_id m\<rparr>; content = Some (blake3_checksum P (concat ds), concat ds) in
       chunk_at store (fsys s) cid = content \<and> (\<forall>g. crash (fsys s) g \<longrightarrow> chunk_at store g cid = content) \<and>
       (\<forall>j req I inp0 pc e b. ts j = Some (PutThread req I inp0 pc e) \<and> put_chunk_id req = cid \<and>
          rpc_leave (PutThread req I inp0 pc e) = Some b \<and> answer_ok b \<longrightarrow> j = k))"
proof -
  obtain m rd1 st inp e where r: "sr_read R rd = (Some (FrameMetadata m), rd1)"
    and p: "p = PutThread (meta_request m) (rpc_input R addr) (RpcInputStream_init rd1) (PutDone st inp) e"
    and ok: "answer_ok a \<longleftrightarrow> status_ok st" by (rule rpc_put_leaves [OF assms(4,6,7)])
  have cid: "put_chunk_id (meta_request m) = \<lparr>chunk_id_value = meta_chunk_id m\<rparr>" "expected_size (meta_request m) = meta_expected_size m"
    by (simp_all add: meta_request_def)
  have st: "status_ok st" using ok assms(8) by simp
  have del: "ts j \<noteq> Some (DeleteThread (put_chunk_id (meta_request m)) dst de)" for j dst de using assms(9) [OF r] cid(1) by simp
  note w = winner_stored [OF assms(1-3) assms(5) [unfolded p] st del]
  obtain bs inp1 where d: "drains (rpc_input R addr) (RpcInputStream_init rd1) bs inp1" "length (concat bs) = unat (meta_expected_size m)"
    "chunk_at store (fsys s) \<lparr>chunk_id_value = meta_chunk_id m\<rparr> = Some (blake3_checksum P (concat bs), concat bs)"
    "\<And>g. crash (fsys s) g \<Longrightarrow> chunk_at store g \<lparr>chunk_id_value = meta_chunk_id m\<rparr> = Some (blake3_checksum P (concat bs), concat bs)"
    using w unfolding cid by blast
  obtain ds where ds: "frames R rd1 ds (ris_reader inp1)" "concat bs = concat ds" by (rule frames_of_drained [OF d(1)])
  have one: "j = k" if h: "ts j = Some (PutThread req I inp0 pc e')" "put_chunk_id req = \<lparr>chunk_id_value = meta_chunk_id m\<rparr>"
    "rpc_leave (PutThread req I inp0 pc e') = Some b" "answer_ok b" for j b req I inp0 pc e'
  proof -
    obtain st' inp' where pc: "pc = PutDone st' inp'" using h(3) by (cases pc) auto
    then have "status_ok st'" using h(3,4) by (auto simp: no_operation_def)
    then show ?thesis using w h(1,2) pc cid(1) by metis
  qed
  show ?thesis
    using r ds(1) d(2-4) one unfolding ds(2) Let_def by (intro exI [of _ m] exI [of _ rd1] exI [of _ ds] exI) blast
qed


theorem served_uploads_witness:
  "\<exists>ds rd. frames list_reader [FrameData [1, 2], FrameData [3]] ds rd \<and>
     chunk_at sample_store (fsys (snd (snd (snd sample_call)))) sample_id =
       Some (blake3_checksum sample_platform (concat ds), concat ds)"
proof -
  let ?P = sample_platform and ?S = sample_store
  let ?call = "RpcPut 42 list_reader sample_frames :: (PutChunkFrame list, byte list) rpc_call" and ?s' = "snd (snd (snd sample_call))"
  let ?a = "PutAnswer (fst sample_call) (fst (snd sample_call)) (fst (snd (snd sample_call))) :: (PutChunkFrame list, byte list) rpc_answer"
  have r: "sr_read list_reader sample_frames = (Some (FrameMetadata sample_metadata), [FrameData [1, 2], FrameData [3]])"
    by (simp add: list_reader_def sample_frames_def)
  have m: "meta_request sample_metadata = sample_request" "\<lparr>chunk_id_value = meta_chunk_id sample_metadata\<rparr> = sample_id"
    by (simp_all add: meta_request_def sample_metadata_def sample_request_def sample_id_def blake3_checksum_def)
  obtain p0 :: "(byte list, PutChunkFrame list RpcInputStream, byte list) thread" where p0: "rpc_enter ?call (os_errno sample_os) = Some p0"
    using sample_valid by (simp add: r m put_valid_def ValidateId_ok_iff ChunkId_valid_def)
  have h: "rpc_handle ?P ?S ?call sample_os = (?a, ?s')"
    by (simp add: sample_call_def no_operation_def split: prod.splits)
  obtain p where p: "runs (thread_step ?P ?S) p0 sample_os p ?s'" "rpc_leave p = Some ?a" using handler_runs [OF p0 h] by blast
  have "pool_reach (thread_step ?P ?S) thread_fresh thread_joins sample_os [0 \<mapsto> p0] sample_os"
    by (rule pool_reach_accept [OF pool_reach.empty]) (simp_all add: rpc_enter_fresh [OF p0])
  from pool_reach_alone [OF p(1) this] have reach: "pool_reach (thread_step ?P ?S) thread_fresh thread_joins sample_os [0 \<mapsto> p] ?s'" .
  note c = runs_thread_call [OF p(1)]
  have put: "p \<noteq> DeleteThread cid dst de" for cid dst de using rpc_put_leaves [OF p0 c p(2)] by blast
  have ok: "answer_ok ?a"
  proof -
    obtain m' rd1 st inp e where "p = PutThread (meta_request m') (rpc_input list_reader 42) (RpcInputStream_init rd1) (PutDone st inp) e"
      by (rule rpc_put_leaves [OF p0 c p(2)])
    then have "fst sample_call = Grpc_Ok" using p(2) by simp
    then show ?thesis using sample_call_ok by (simp add: Grpc_Ok_def)
  qed
  have inv: "store_inv ?P ?S (fsys sample_os)" using sample_platform_ok by (simp add: platform_ok_def)
  have "[0 \<mapsto> p] j \<noteq> Some (DeleteThread cid dst de)" for cid j dst de using put by (simp add: fun_upd_def)
  from served_uploads [OF reach sample_laws inv p0 fun_upd_same c p(2) ok this]
  show ?thesis by (auto simp: r m Let_def)
qed

end
